(* ===== verification/Prelude.thy ===== *)
theory Prelude
  imports Main "HOL-Library.Word"
begin

text \<open>
  Shared vocabulary of the development: the machine integers of the sources, the
  collections of facts the component proofs draw on, and the semantics of Go's
  \<open>for k, v := range m\<close> over a map.

  A Go map is a partial function \<open>'k \<rightharpoonup> 'v\<close>.  The order in which a \<open>range\<close> statement
  visits the entries of a map is unspecified and changes from one execution of the statement
  to the next, so every loop of the model takes the list of keys it visits as an argument;
  \<open>range_ok ks m\<close> says that \<open>ks\<close> is a possible visiting order of \<open>m\<close>.
\<close>

section \<open>Machine integers\<close>

text \<open>
  Signed integers are words too; they are read with \<^const>\<open>sint\<close>, and their arithmetic
  wraps around as it does in Go.
\<close>

type_synonym byte = "8 word"
type_synonym u16 = "16 word"
type_synonym u32 = "32 word"
type_synonym u64 = "64 word"
type_synonym i32 = "32 word"
type_synonym i64 = "64 word"

type_synonym error = string

lemma unat_byte_less: "unat (b :: byte) < 256"
  using unsigned_less [of b, where ?'a = nat] by simp

lemma unat_u16_less: "unat (w :: u16) < 65536"
  using unsigned_less [of w, where ?'a = nat] by simp

lemma unat_u32_less: "unat (w :: u32) < 4294967296"
  using unsigned_less [of w, where ?'a = nat] by simp

lemma unat_u64_less: "unat (w :: u64) < 18446744073709551616"
  using unsigned_less [of w, where ?'a = nat] by simp

section \<open>Collections of facts\<close>

named_theorems frame_simps \<open>fields an operation leaves alone\<close>
named_theorems range_simps \<open>characterisations of range loops\<close>
named_theorems codec_simps \<open>decoding of encoded values\<close>

section \<open>Range loops over maps\<close>

definition range_ok :: "'k list \<Rightarrow> ('k \<rightharpoonup> 'v) \<Rightarrow> bool" where
  "range_ok ks m \<longleftrightarrow> distinct ks \<and> set ks = dom m"

text \<open>
  A loop whose body changes the visited entry only (the entry is a pointer to a struct, and
  the body assigns the fields of that struct).
\<close>

fun range_update :: "'k list \<Rightarrow> ('k \<Rightarrow> 'v \<Rightarrow> 'v) \<Rightarrow> ('k \<rightharpoonup> 'v) \<Rightarrow> ('k \<rightharpoonup> 'v)" where
  "range_update [] f m = m"
| "range_update (k # ks) f m =
     range_update ks f (case m k of None \<Rightarrow> m | Some v \<Rightarrow> m(k \<mapsto> f k v))"

text \<open>The entries a loop reads, in the order it reads them.\<close>

definition range_entries :: "'k list \<Rightarrow> ('k \<rightharpoonup> 'v) \<Rightarrow> ('k \<times> 'v) list" where
  "range_entries ks m = List.map_filter (\<lambda>k. map_option (Pair k) (m k)) ks"

lemma range_okD [dest]:
  assumes "range_ok ks m"
  shows "distinct ks" "set ks = dom m"
  using assms by (auto simp: range_ok_def)

lemma range_ok_dom: "dom m = dom m' \<Longrightarrow> range_ok ks m \<longleftrightarrow> range_ok ks m'"
  by (simp add: range_ok_def)

lemma range_ok_mem: "range_ok ks m \<Longrightarrow> k \<in> set ks \<longleftrightarrow> (\<exists>v. m k = Some v)"
  by (auto simp: range_ok_def)

lemma range_ok_finite: "range_ok ks m \<Longrightarrow> finite (dom m)"
  by (metis List.finite_set range_ok_def)

lemma range_ok_exists:
  assumes "finite (dom m)"
  shows "\<exists>ks. range_ok ks m"
  using finite_distinct_list [OF assms] by (auto simp: range_ok_def)

lemma range_update_apply:
  "distinct ks \<Longrightarrow>
     range_update ks f m k = (if k \<in> set ks then map_option (f k) (m k) else m k)"
  by (induction ks arbitrary: m) (auto split: option.splits)

lemma range_update_ok [range_simps]:
  "range_ok ks m \<Longrightarrow> range_update ks f m = (\<lambda>k. map_option (f k) (m k))"
  by (rule ext) (auto simp: range_update_apply range_ok_def dom_def)

lemma dom_range_update [simp]: "dom (range_update ks f m) = dom m"
  by (induction ks arbitrary: m) (auto split: option.splits)

lemma range_update_None [simp]: "range_update ks f m k = None \<longleftrightarrow> m k = None"
  using dom_range_update [of ks f m] by (metis domIff)

lemma range_update_invariant:
  assumes "\<And>k v. m k = Some v \<Longrightarrow> P k v"
    and "\<And>k v. P k v \<Longrightarrow> P k (f k v)"
    and "range_update ks f m k = Some v"
  shows "P k v"
  using assms
proof (induction ks arbitrary: m)
  case Nil
  then show ?case by simp
next
  case (Cons a ks)
  let ?m = "case m a of None \<Rightarrow> m | Some v \<Rightarrow> m(a \<mapsto> f a v)"
  have "P k' v'" if "?m k' = Some v'" for k' v'
    using that Cons.prems(1,2) by (auto split: option.splits if_splits)
  moreover have "range_update ks f ?m k = Some v"
    using Cons.prems(3) by simp
  ultimately show ?case
    using Cons.IH Cons.prems(2) by blast
qed

lemma range_update_map_option:
  assumes "\<And>k v. g (f k v) = g v"
  shows "map_option g (range_update ks f m k) = map_option g (m k)"
  using assms by (induction ks arbitrary: m) (auto split: option.splits)

lemma range_entries_simps [simp]:
  "range_entries [] m = []"
  "range_entries (k # ks) m =
     (case m k of None \<Rightarrow> range_entries ks m | Some v \<Rightarrow> (k, v) # range_entries ks m)"
  by (auto simp: range_entries_def List.map_filter_def split: option.splits)

lemma set_range_entries:
  "set (range_entries ks m) = {(k, v). k \<in> set ks \<and> m k = Some v}"
  by (induction ks) (auto split: option.splits)

lemma fst_range_entries: "map fst (range_entries ks m) = filter (\<lambda>k. m k \<noteq> None) ks"
  by (induction ks) (auto split: option.splits)

lemma distinct_range_entries: "distinct ks \<Longrightarrow> distinct (map fst (range_entries ks m))"
  by (simp add: fst_range_entries)

lemma range_entries_ok [range_simps]:
  "range_ok ks m \<Longrightarrow> set (range_entries ks m) = {(k, v). m k = Some v}"
  by (auto simp: set_range_entries range_ok_def)

lemma range_entries_keys: "range_ok ks m \<Longrightarrow> map fst (range_entries ks m) = ks"
  by (auto simp: fst_range_entries range_ok_def intro!: filter_True)

lemma range_entries_dom [range_simps]: "range_ok ks m \<Longrightarrow> fst ` set (range_entries ks m) = dom m"
  by (force simp: range_entries_ok image_iff)

text \<open>\<open>for k, v := range m { res[k] = f(v) }\<close> into a fresh map.\<close>

definition copy_map :: "('v \<Rightarrow> 'w) \<Rightarrow> ('k \<rightharpoonup> 'v) \<Rightarrow> ('k \<rightharpoonup> 'w)" where
  "copy_map f m = (\<lambda>k. map_option f (m k))"

lemma copy_map_loop:
  assumes "range_ok ks m"
  shows "fold (\<lambda>(k, v) res. res(k \<mapsto> f v)) (range_entries ks m) Map.empty = copy_map f m"
proof -
  have "fold (\<lambda>(k, v) res. res(k \<mapsto> f v)) (range_entries ks m) res =
      (\<lambda>k. if k \<in> set ks \<and> m k \<noteq> None then map_option f (m k) else res k)" for res
    by (induction ks arbitrary: res) (auto simp: fun_eq_iff split: option.splits)
  with assms show ?thesis by (auto simp: copy_map_def fun_eq_iff range_ok_def)
qed

lemma copy_map_id [simp]: "copy_map (\<lambda>x. x) m = m"
  by (simp add: copy_map_def option.map_ident)

section \<open>Lists\<close>

lemma map_filter_Some_set:
  "set (List.map_filter f xs) = {y. \<exists>x \<in> set xs. f x = Some y}"
  by (auto simp: List.map_filter_def image_iff) force

lemma foldl_invariant:
  assumes "P s" and "\<And>s x. x \<in> set xs \<Longrightarrow> P s \<Longrightarrow> P (f s x)"
  shows "P (foldl f s xs)"
  using assms by (induction xs arbitrary: s) auto

lemma fold_invariant_mem:
  assumes "P s" and "\<And>s x. x \<in> set xs \<Longrightarrow> P s \<Longrightarrow> P (f x s)"
  shows "P (fold f xs s)"
  using assms by (induction xs arbitrary: s) auto

lemma filter_eq_upt: "k < n \<Longrightarrow> filter (\<lambda>i. i = k) [0..<n] = [k]"
  by (induction n) (auto simp: less_Suc_eq)

section \<open>Round robin\<close>

lemma mod_shift_inject:
  fixes i r r' n :: nat
  assumes "r < n" "r' < n" "(i + r) mod n = (i + r') mod n"
  shows "r = r'"
proof -
  have "(int i + int r) mod int n = (int i + int r') mod int n"
    using assms(3) by (metis of_nat_add of_nat_mod)
  then have "int n dvd int r - int r'"
    by (simp add: mod_eq_dvd_iff)
  with assms(1,2) show ?thesis
    using zdvd_imp_le [of "int n" "int r - int r'"] zdvd_imp_le [of "int n" "int r' - int r"]
    by (cases r r' rule: linorder_cases) (auto simp: dvd_diff_commute)
qed

lemma card_mod_class:
  assumes "j < k"
  shows "card {p. p < n \<and> p mod k = j} = n div k + (if j < n mod k then 1 else 0)"
proof (induction n)
  case (Suc n)
  have "{p. p < Suc n \<and> p mod k = j} =
      (if n mod k = j then insert n {p. p < n \<and> p mod k = j} else {p. p < n \<and> p mod k = j})"
    by (auto simp: less_Suc_eq)
  then have "card {p. p < Suc n \<and> p mod k = j} =
      card {p. p < n \<and> p mod k = j} + (if n mod k = j then 1 else 0)"
    by simp
  moreover have "n mod k < k" using assms by simp
  ultimately show ?case using Suc assms by (auto simp: div_Suc mod_Suc)
qed simp

lemma card_u32_mod_class:
  assumes "j < k"
  shows "card {p :: u32. p < n \<and> unat p mod k = j} = unat n div k + (if j < unat n mod k then 1 else 0)"
proof -
  have im: "unat ` {p :: u32. p < n \<and> unat p mod k = j} = {q. q < unat n \<and> q mod k = j}"
  proof (intro equalityI subsetI)
    fix q
    assume q: "q \<in> {q. q < unat n \<and> q mod k = j}"
    then have "unat (word_of_nat q :: u32) = q"
      using unat_u32_less [of n] by (simp add: unsigned_of_nat take_bit_nat_eq_self)
    with q show "q \<in> unat ` {p :: u32. p < n \<and> unat p mod k = j}"
      by (intro image_eqI [of q unat "word_of_nat q"]) (simp_all add: word_less_nat_alt)
  qed (auto simp: word_less_nat_alt)
  have inj: "inj_on unat {p :: u32. p < n \<and> unat p mod k = j}"
    by (rule inj_onI) (rule unsigned_word_eqI)
  have "card {p :: u32. p < n \<and> unat p mod k = j} = card {q. q < unat n \<and> q mod k = j}"
    using card_image [OF inj] unfolding im by (rule sym)
  also have "\<dots> = unat n div k + (if j < unat n mod k then 1 else 0)"
    using assms by (rule card_mod_class)
  finally show ?thesis .
qed

lemma u32_less_2: "(p :: u32) < 2 \<longleftrightarrow> p = 0 \<or> p = 1"
proof
  assume "p < 2"
  then have "unat p = 0 \<or> unat p = 1" by (auto simp: word_less_nat_alt)
  then show "p = 0 \<or> p = 1" by (metis unsigned_0 unsigned_1 unsigned_word_eqI)
qed (auto simp: word_less_nat_alt)

end
