(* ===== verification/Go_Lib.thy ===== *)
theory Go_Lib
  imports Prelude
begin

text \<open>
  What the sources use of the Go language and its standard library: instants and their
  difference (\<open>time.Time.Sub\<close>), the verbs \<open>%d\<close> and \<open>%x\<close> of \<open>fmt\<close>, the conversion
  \<open>string(rune(x))\<close> and the UTF-8 decoder behind \<open>encoding/json\<close> (Rust's
  \<open>String::from_utf8\<close> accepts the same byte sequences).

  A Go string is a sequence of bytes and becomes a HOL \<^typ>\<open>string\<close>, whose characters
  are bytes.
\<close>

section \<open>Instants\<close>

text \<open>
  An instant is its distance from the epoch in nanoseconds.  \<open>Sub\<close> yields a 64-bit
  duration and saturates when the difference does not fit.
\<close>

type_synonym time = int

definition max_duration :: int where "max_duration = 2 ^ 63 - 1"
definition min_duration :: int where "min_duration = - (2 ^ 63)"

definition time_sub :: "time \<Rightarrow> time \<Rightarrow> int" where
  "time_sub t u = max min_duration (min max_duration (t - u))"

definition seconds :: "int \<Rightarrow> int" where
  "seconds n = n * 1000000000"

lemma time_sub_less:
  "min_duration \<le> d \<Longrightarrow> d < max_duration \<Longrightarrow> d < time_sub t u \<longleftrightarrow> d < t - u"
  by (auto simp: time_sub_def)

lemma timeout_iff [simp]: "time_sub t u > seconds 8 \<longleftrightarrow> t - u > seconds 8"
  by (rule time_sub_less) (simp_all add: seconds_def min_duration_def max_duration_def)

lemma not_timeout_iff [simp]: "time_sub t u \<le> seconds 8 \<longleftrightarrow> t - u \<le> seconds 8"
  using timeout_iff [of t u] by linarith

section \<open>Decimal and hexadecimal text\<close>

definition digit :: "nat \<Rightarrow> char" where
  "digit n = char_of (48 + n)"

definition digit_value :: "char \<Rightarrow> nat option" where
  "digit_value c =
     (let n = of_char c in if 48 \<le> n \<and> n < 58 then Some (n - 48) else None)"

fun show_nat :: "nat \<Rightarrow> string" where
  "show_nat n = (if n < 10 then [digit n] else show_nat (n div 10) @ [digit (n mod 10)])"

declare show_nat.simps [simp del]

definition show_int :: "int \<Rightarrow> string" where
  "show_int i = (if i < 0 then ''-'' @ show_nat (nat (- i)) else show_nat (nat i))"

definition show_u32 :: "u32 \<Rightarrow> string" where
  "show_u32 w = show_nat (unat w)"

definition show_i32 :: "i32 \<Rightarrow> string" where
  "show_i32 w = show_int (sint w)"

text \<open>\<open>strconv.ParseUint(s, 10, 32)\<close>, which decodes the keys of a JSON object into \<open>uint32\<close>.\<close>

fun parse_digits :: "nat \<Rightarrow> string \<Rightarrow> nat option" where
  "parse_digits acc [] = Some acc"
| "parse_digits acc (c # cs) =
     (case digit_value c of None \<Rightarrow> None | Some d \<Rightarrow> parse_digits (acc * 10 + d) cs)"

definition parse_u32 :: "string \<Rightarrow> u32 option" where
  "parse_u32 s =
     (if s = [] then None
      else case parse_digits 0 s of
             None \<Rightarrow> None
           | Some n \<Rightarrow> if n < 2 ^ 32 then Some (word_of_nat n) else None)"

lemma digit_value_digit [simp]: "n < 10 \<Longrightarrow> digit_value (digit n) = Some n"
  by (simp add: digit_value_def digit_def)

lemma parse_digits_append:
  "parse_digits acc (xs @ ys) =
     (case parse_digits acc xs of None \<Rightarrow> None | Some n \<Rightarrow> parse_digits n ys)"
  by (induction xs arbitrary: acc) (auto split: option.splits)

lemma show_nat_not_Nil [simp]: "show_nat n \<noteq> []"
  by (subst show_nat.simps) simp

lemma parse_digits_show_nat: "parse_digits 0 (show_nat n) = Some n"
proof (induction n rule: show_nat.induct)
  case (1 n)
  show ?case
  proof (cases "n < 10")
    case True
    then show ?thesis by (subst show_nat.simps) simp
  next
    case False
    with 1 have "parse_digits 0 (show_nat (n div 10)) = Some (n div 10)" by simp
    with False show ?thesis
      by (subst show_nat.simps) (simp add: parse_digits_append)
  qed
qed

lemma parse_show_u32 [codec_simps]: "parse_u32 (show_u32 w) = Some w"
proof -
  have "unat w < 2 ^ 32" using unat_u32_less [of w] by simp
  then show ?thesis
    by (simp add: parse_u32_def show_u32_def parse_digits_show_nat)
qed

lemma show_u32_inject [simp]: "show_u32 a = show_u32 b \<longleftrightarrow> a = b"
  by (metis option.inject parse_show_u32)

definition hex_digit :: "nat \<Rightarrow> char" where
  "hex_digit n = char_of (if n < 10 then 48 + n else 87 + n)"

definition hex_byte :: "byte \<Rightarrow> string" where
  "hex_byte b = [hex_digit (unat b div 16), hex_digit (unat b mod 16)]"

definition show_hex :: "byte list \<Rightarrow> string" where
  "show_hex bs = concat (map hex_byte bs)"

lemma hex_digit_inject:
  assumes "m < 16" "n < 16" "hex_digit m = hex_digit n"
  shows "m = n"
proof -
  from assms(3) have "of_char (hex_digit m) = (of_char (hex_digit n) :: nat)" by simp
  with assms(1,2) show ?thesis by (simp add: hex_digit_def split: if_splits)
qed

lemma hex_byte_inject [simp]: "hex_byte a = hex_byte b \<longleftrightarrow> a = b"
proof
  assume "hex_byte a = hex_byte b"
  moreover have "unat a < 256" "unat b < 256"
    by (rule unat_byte_less)+
  ultimately have "unat a div 16 = unat b div 16" "unat a mod 16 = unat b mod 16"
    by (auto simp: hex_byte_def intro!: hex_digit_inject)
  then have "unat a = unat b" by (metis div_mult_mod_eq)
  then show "a = b" by (rule unsigned_word_eqI)
qed simp

lemma length_show_hex [simp]: "length (show_hex bs) = 2 * length bs"
  by (induction bs) (simp_all add: show_hex_def hex_byte_def)

lemma show_hex_inject: "length as = length bs \<Longrightarrow> show_hex as = show_hex bs \<Longrightarrow> as = bs"
proof (induction as bs rule: list_induct2)
  case (Cons a as b bs)
  have "hex_byte a @ show_hex as = hex_byte b @ show_hex bs"
    using Cons.prems by (simp add: show_hex_def)
  then have "hex_byte a = hex_byte b" "show_hex as = show_hex bs"
    by (simp_all add: hex_byte_def)
  with Cons.IH show ?case by simp
qed simp

end
