(* ===== verification/UTF8.thy ===== *)
theory UTF8
  imports Go_Lib
begin

text \<open>
  UTF-8 as the Go runtime and \<open>unicode/utf8\<close> implement it: the conversion of a rune to a
  string (an invalid rune becomes U+FFFD), the decoder of one rune, the validity check that
  Rust's \<open>String::from_utf8\<close> performs, and the coercion \<open>encoding/json\<close> applies to every
  string it writes (each ill-formed byte becomes U+FFFD).
\<close>

section \<open>Definitions\<close>

definition valid_rune :: "nat \<Rightarrow> bool" where
  "valid_rune n \<longleftrightarrow> n \<le> 0x10FFFF \<and> \<not> (0xD800 \<le> n \<and> n \<le> 0xDFFF)"

definition rune_error :: string where
  "rune_error = [CHR 0xEF, CHR 0xBF, CHR 0xBD]"

definition string_of_rune :: "u32 \<Rightarrow> string" where
  "string_of_rune r =
     (let n = unat r in
      if n < 0x80 then [char_of n]
      else if n < 0x800 then [char_of (0xC0 + n div 64), char_of (0x80 + n mod 64)]
      else if \<not> valid_rune n then rune_error
      else if n < 0x10000 then
        [char_of (0xE0 + n div 4096), char_of (0x80 + n div 64 mod 64), char_of (0x80 + n mod 64)]
      else
        [char_of (0xF0 + n div 262144), char_of (0x80 + n div 4096 mod 64),
         char_of (0x80 + n div 64 mod 64), char_of (0x80 + n mod 64)])"

definition in_byte_range :: "nat \<Rightarrow> nat \<Rightarrow> char \<Rightarrow> bool" where
  "in_byte_range lo hi c \<longleftrightarrow> lo \<le> of_char c \<and> of_char c \<le> hi"

text \<open>
  The table of lead bytes: the width of the sequence, the bits the lead byte loses, and the
  range accepted for the second byte.
\<close>

definition lead :: "nat \<Rightarrow> (nat \<times> nat \<times> nat \<times> nat) option" where
  "lead b =
     (if b < 0x80 then Some (1, 0, 0x80, 0xBF)
      else if b < 0xC2 then None
      else if b < 0xE0 then Some (2, 0xC0, 0x80, 0xBF)
      else if b = 0xE0 then Some (3, 0xE0, 0xA0, 0xBF)
      else if b = 0xED then Some (3, 0xE0, 0x80, 0x9F)
      else if b < 0xF0 then Some (3, 0xE0, 0x80, 0xBF)
      else if b = 0xF0 then Some (4, 0xF0, 0x90, 0xBF)
      else if b < 0xF4 then Some (4, 0xF0, 0x80, 0xBF)
      else if b = 0xF4 then Some (4, 0xF0, 0x80, 0x8F)
      else None)"

fun tail_ok :: "nat \<Rightarrow> nat \<Rightarrow> string \<Rightarrow> bool" where
  "tail_ok lo hi [] = True"
| "tail_ok lo hi (c # cs) =
     (in_byte_range lo hi c \<and> list_all (in_byte_range 0x80 0xBF) cs)"

definition rune_value :: "nat \<Rightarrow> string \<Rightarrow> nat" where
  "rune_value b cs = foldl (\<lambda>v c. v * 64 + (of_char c - 0x80)) b cs"

text \<open>The rune at the front of a string and its width; \<open>None\<close> when it is ill-formed.\<close>

fun decode_rune :: "string \<Rightarrow> (nat \<times> nat) option" where
  "decode_rune [] = None"
| "decode_rune (c0 # cs) =
     (case lead (of_char c0) of
        None \<Rightarrow> None
      | Some (n, base, lo, hi) \<Rightarrow>
          (let t = take (n - 1) cs in
           if length t = n - 1 \<and> tail_ok lo hi t
           then Some (rune_value (of_char c0 - base) t, n) else None))"

fun valid_utf8 :: "string \<Rightarrow> bool" where
  "valid_utf8 [] = True"
| "valid_utf8 (c # cs) =
     (case decode_rune (c # cs) of
        None \<Rightarrow> False
      | Some (_, n) \<Rightarrow> valid_utf8 (drop (n - 1) cs))"

fun coerce_utf8 :: "string \<Rightarrow> string" where
  "coerce_utf8 [] = []"
| "coerce_utf8 (c # cs) =
     (case decode_rune (c # cs) of
        None \<Rightarrow> rune_error @ coerce_utf8 cs
      | Some (_, n) \<Rightarrow> c # take (n - 1) cs @ coerce_utf8 (drop (n - 1) cs))"

section \<open>Decoding\<close>

lemma lead_size: "lead b = Some (n, base, lo, hi) \<Longrightarrow> 0 < n"
  by (auto simp: lead_def split: if_splits)

lemma decode_rune_size:
  "decode_rune s = Some (r, n) \<Longrightarrow> 0 < n \<and> n \<le> length s"
  by (cases s) (auto simp: Let_def dest: lead_size split: option.splits if_splits)

lemma decode_rune_append:
  "decode_rune s = Some rn \<Longrightarrow> decode_rune (s @ t) = Some rn"
  by (cases s) (auto simp: Let_def split: option.splits if_splits)

lemma decode_rune_take:
  "decode_rune s = Some (r, n) \<Longrightarrow> decode_rune (take n s) = Some (r, n)"
  by (cases s; cases n) (auto simp: Let_def dest: lead_size split: option.splits if_splits)

lemma lead_ascii [simp]: "b < 128 \<Longrightarrow> lead b = Some (1, 0, 0x80, 0xBF)"
  by (simp add: lead_def)

lemma decode_rune_ascii [simp]:
  "of_char c < (128::nat) \<Longrightarrow> decode_rune (c # cs) = Some (of_char c, 1)"
  by (simp add: rune_value_def)

lemma lead_2: "2 \<le> q \<Longrightarrow> q < 32 \<Longrightarrow> lead (192 + q) = Some (2, 0xC0, 0x80, 0xBF)"
  by (simp add: lead_def)

lemma lead_3:
  "q < 16 \<Longrightarrow>
     lead (224 + q) = Some (3, 0xE0, if q = 0 then 0xA0 else 0x80, if q = 13 then 0x9F else 0xBF)"
  by (simp add: lead_def)

lemma lead_4:
  "q \<le> 4 \<Longrightarrow>
     lead (240 + q) = Some (4, 0xF0, if q = 0 then 0x90 else 0x80, if q = 4 then 0x8F else 0xBF)"
  by (simp add: lead_def)

lemma decode_rune_2:
  assumes "2 \<le> q" "q < 32" "a < 64"
  shows "decode_rune [char_of (192 + q), char_of (128 + a)] = Some (q * 64 + a, 2)"
  using assms by (simp add: lead_2 in_byte_range_def rune_value_def)

lemma decode_rune_3:
  assumes "q < 16" "a < 64" "b < 64" "q = 0 \<longrightarrow> 32 \<le> a" "q = 13 \<longrightarrow> a \<le> 31"
  shows "decode_rune [char_of (224 + q), char_of (128 + a), char_of (128 + b)] =
    Some ((q * 64 + a) * 64 + b, 3)"
  using assms by (simp add: lead_3 in_byte_range_def rune_value_def)

lemma decode_rune_4:
  assumes "q \<le> 4" "a < 64" "b < 64" "c < 64" "q = 0 \<longrightarrow> 16 \<le> a" "q = 4 \<longrightarrow> a \<le> 15"
  shows "decode_rune [char_of (240 + q), char_of (128 + a), char_of (128 + b), char_of (128 + c)] =
    Some (((q * 64 + a) * 64 + b) * 64 + c, 4)"
  using assms by (simp add: lead_4 in_byte_range_def rune_value_def)

lemma rune_error_decode: "decode_rune rune_error = Some (0xFFFD, 3)"
  by (simp add: rune_error_def lead_def in_byte_range_def rune_value_def)

lemma decode_string_of_rune:
  "decode_rune (string_of_rune r) =
     Some (if valid_rune (unat r) then unat r else 0xFFFD, length (string_of_rune r))"
proof -
  define n where "n = unat r"
  consider (1) "n < 0x80" | (2) "0x80 \<le> n" "n < 0x800" | (bad) "0x800 \<le> n" "\<not> valid_rune n"
    | (3) "0x800 \<le> n" "valid_rune n" "n < 0x10000" | (4) "0x10000 \<le> n" "valid_rune n"
    by linarith
  then show ?thesis
  proof cases
    case 1
    then show ?thesis
      by (simp add: string_of_rune_def n_def [symmetric] valid_rune_def rune_value_def)
  next
    case 2
    then have "2 \<le> n div 64" "n div 64 < 32"
      by (simp_all add: less_eq_div_iff_mult_less_eq div_less_iff_less_mult)
    with 2 show ?thesis
      by (simp add: string_of_rune_def n_def [symmetric] valid_rune_def decode_rune_2
          del: decode_rune.simps)
  next
    case bad
    then show ?thesis
      by (simp add: string_of_rune_def n_def [symmetric] rune_error_decode)
         (simp add: rune_error_def)
  next
    case 3
    define m where "m = n div 64"
    have "32 \<le> m" "m < 1024" "m < 864 \<or> 896 \<le> m"
      using 3 unfolding m_def valid_rune_def
      by (auto simp: less_eq_div_iff_mult_less_eq div_less_iff_less_mult)
    then have "m div 64 < 16" "m div 64 = 0 \<longrightarrow> 32 \<le> m mod 64" "m div 64 = 13 \<longrightarrow> m mod 64 \<le> 31"
      using div_mult_mod_eq [of m 64] by (simp_all, linarith+)
    moreover have "n div 4096 = m div 64" by (simp add: m_def div_mult2_eq [symmetric])
    moreover have "(m div 64 * 64 + m mod 64) * 64 + n mod 64 = n" by (simp add: m_def)
    ultimately show ?thesis using 3
      by (simp add: string_of_rune_def n_def [symmetric] m_def [symmetric] decode_rune_3
          del: decode_rune.simps)
  next
    case 4
    define m where "m = n div 64"
    define k where "k = m div 64"
    have k: "k = n div 4096" by (simp add: k_def m_def div_mult2_eq [symmetric])
    have "16 \<le> k" "k < 272"
      using 4 unfolding k valid_rune_def
      by (auto simp: less_eq_div_iff_mult_less_eq div_less_iff_less_mult)
    then have "k div 64 \<le> 4" "k div 64 = 0 \<longrightarrow> 16 \<le> k mod 64" "k div 64 = 4 \<longrightarrow> k mod 64 \<le> 15"
      using div_mult_mod_eq [of k 64] by (simp_all, linarith+)
    moreover have "n div 262144 = k div 64" by (simp add: k div_mult2_eq [symmetric])
    moreover have "((k div 64 * 64 + k mod 64) * 64 + m mod 64) * 64 + n mod 64 = n"
      by (simp add: k_def m_def)
    ultimately show ?thesis using 4
      by (simp add: string_of_rune_def n_def [symmetric] m_def [symmetric] k [symmetric]
          decode_rune_4 del: decode_rune.simps)
  qed
qed

lemma string_of_rune_inject:
  assumes "valid_rune (unat p)" "valid_rune (unat q)"
  shows "string_of_rune p = string_of_rune q \<longleftrightarrow> p = q"
proof
  assume "string_of_rune p = string_of_rune q"
  then have "decode_rune (string_of_rune p) = decode_rune (string_of_rune q)" by simp
  with assms have "unat p = unat q" by (simp add: decode_string_of_rune)
  then show "p = q" by (rule unsigned_word_eqI)
qed simp

lemma string_of_rune_invalid:
  "\<not> valid_rune (unat p) \<Longrightarrow> string_of_rune p = rune_error"
  by (auto simp: string_of_rune_def Let_def valid_rune_def)

section \<open>Validity\<close>

lemma coerce_valid [simp]: "valid_utf8 s \<Longrightarrow> coerce_utf8 s = s"
  by (induction s rule: coerce_utf8.induct) (auto split: option.splits)

declare decode_rune.simps(2) [simp del]

lemma valid_utf8_append [simp]:
  "valid_utf8 s \<Longrightarrow> valid_utf8 (s @ t) = valid_utf8 t"
proof (induction s rule: valid_utf8.induct)
  case (2 c cs)
  then obtain r n where d: "decode_rune (c # cs) = Some (r, n)"
    and v: "valid_utf8 (drop (n - 1) cs)"
    by (auto split: option.splits)
  from decode_rune_size [OF d] have "n - 1 \<le> length cs" by auto
  moreover have "decode_rune (c # cs @ t) = Some (r, n)"
    using decode_rune_append [OF d, of t] by simp
  ultimately show ?case
    using "2.IH" [OF d refl v] by simp
qed simp

lemma valid_utf8_ascii: "\<forall>c \<in> set s. of_char c < (128::nat) \<Longrightarrow> valid_utf8 s"
  by (induction s) auto

lemma decode_full_valid:
  assumes "decode_rune s = Some (r, length s)"
  shows "valid_utf8 s"
proof (cases s)
  case (Cons c cs)
  with assms show ?thesis by simp
qed simp

lemma valid_string_of_rune [simp]: "valid_utf8 (string_of_rune r)"
  by (rule decode_full_valid) (simp add: decode_string_of_rune)

lemma valid_rune_error [simp]: "valid_utf8 rune_error"
  by (rule decode_full_valid) (simp add: rune_error_decode, simp add: rune_error_def)

lemma valid_coerce_utf8: "valid_utf8 (coerce_utf8 s)"
proof (induction s rule: coerce_utf8.induct)
  case (2 c cs)
  show ?case
  proof (cases "decode_rune (c # cs)")
    case None
    with 2 show ?thesis by simp
  next
    case (Some rn)
    then obtain r n where d: "decode_rune (c # cs) = Some (r, n)" by (cases rn) auto
    note sz = decode_rune_size [OF d]
    have "valid_utf8 (take n (c # cs))"
      using decode_rune_take [OF d] sz by (intro decode_full_valid) auto
    then have "valid_utf8 (take n (c # cs) @ coerce_utf8 (drop (n - 1) cs))"
      using "2.IH"(2) [OF d refl] by simp
    then show ?thesis
      using d sz by (cases n) (simp_all del: valid_utf8.simps)
  qed
qed simp

end
