(* ===== verification/JSON.thy ===== *)
theory JSON
  imports UTF8 "HOL-Library.List_Lexorder" "HOL-Library.Char_ord"
begin

text \<open>
  What the controller uses of \<open>encoding/json\<close>.  A JSON text is represented by its
  syntax tree \<open>json\<close>; an instant written as a quoted RFC 3339 string is the leaf
  \<open>JTime\<close>.  Encoders are functions into trees.  \<open>json.Unmarshal\<close> fills a value in place,
  so a decoder takes the current value and returns the filled one, or \<open>None\<close> where
  \<open>Unmarshal\<close> reports an error (the callers then discard what was filled): \<open>null\<close> leaves a
  scalar or a struct alone, unknown object keys are skipped, a number must fit the field.
  Field names are matched exactly.

  The locale \<open>json_codec\<close> is the interface a struct's encoder and decoder offer: what was
  encoded decodes to itself.  Slices and maps of such values inherit the law.
\<close>

section \<open>Trees, encoders and decoders\<close>

datatype json =
    JNull
  | JBool bool
  | JNum int
  | JStr string
  | JTime time
  | JArr "json list"
  | JObj "(string \<times> json) list"

type_synonym 'r decoder = "json \<Rightarrow> 'r \<Rightarrow> 'r option"

definition enc_bool :: "bool \<Rightarrow> json" where
  "enc_bool b = JBool b"

definition enc_u32 :: "u32 \<Rightarrow> json" where
  "enc_u32 w = JNum (uint w)"

definition enc_i32 :: "i32 \<Rightarrow> json" where
  "enc_i32 w = JNum (sint w)"

definition enc_i64 :: "i64 \<Rightarrow> json" where
  "enc_i64 w = JNum (sint w)"

definition enc_str :: "string \<Rightarrow> json" where
  "enc_str s = JStr (coerce_utf8 s)"

definition enc_time :: "time \<Rightarrow> json" where
  "enc_time t = JTime t"

definition enc_slice :: "('a \<Rightarrow> json) \<Rightarrow> 'a list \<Rightarrow> json" where
  "enc_slice enc xs = JArr (map enc xs)"

text \<open>\<open>Marshal\<close> writes the entries of a map sorted by the text of their keys.\<close>

definition marshal_keys :: "('k::linorder \<Rightarrow> string) \<Rightarrow> ('k \<rightharpoonup> 'v) \<Rightarrow> 'k list" where
  "marshal_keys show m = sort_key show (sorted_list_of_set (dom m))"

definition enc_map :: "('k::linorder \<Rightarrow> string) \<Rightarrow> ('v \<Rightarrow> json) \<Rightarrow> ('k \<rightharpoonup> 'v) \<Rightarrow> json" where
  "enc_map show enc m =
     JObj (map (\<lambda>(k, v). (show k, enc v)) (range_entries (marshal_keys show m) m))"

definition dec_bool :: "bool decoder" where
  "dec_bool j r = (case j of JNull \<Rightarrow> Some r | JBool b \<Rightarrow> Some b | _ \<Rightarrow> None)"

definition dec_u32 :: "u32 decoder" where
  "dec_u32 j r =
     (case j of
        JNull \<Rightarrow> Some r
      | JNum n \<Rightarrow> if 0 \<le> n \<and> n < 2 ^ 32 then Some (word_of_int n) else None
      | _ \<Rightarrow> None)"

definition dec_i32 :: "i32 decoder" where
  "dec_i32 j r =
     (case j of
        JNull \<Rightarrow> Some r
      | JNum n \<Rightarrow> if - (2 ^ 31) \<le> n \<and> n < 2 ^ 31 then Some (word_of_int n) else None
      | _ \<Rightarrow> None)"

definition dec_i64 :: "i64 decoder" where
  "dec_i64 j r =
     (case j of
        JNull \<Rightarrow> Some r
      | JNum n \<Rightarrow> if - (2 ^ 63) \<le> n \<and> n < 2 ^ 63 then Some (word_of_int n) else None
      | _ \<Rightarrow> None)"

definition dec_str :: "string decoder" where
  "dec_str j r = (case j of JNull \<Rightarrow> Some r | JStr s \<Rightarrow> Some s | _ \<Rightarrow> None)"

definition dec_time :: "time decoder" where
  "dec_time j r = (case j of JNull \<Rightarrow> Some r | JTime t \<Rightarrow> Some t | _ \<Rightarrow> None)"

fun dec_elems :: "'a decoder \<Rightarrow> 'a \<Rightarrow> json list \<Rightarrow> 'a list option" where
  "dec_elems dec zero [] = Some []"
| "dec_elems dec zero (j # js) =
     (case dec j zero of
        None \<Rightarrow> None
      | Some x \<Rightarrow> map_option (Cons x) (dec_elems dec zero js))"

definition dec_slice :: "'a decoder \<Rightarrow> 'a \<Rightarrow> 'a list decoder" where
  "dec_slice dec zero j r =
     (case j of JNull \<Rightarrow> Some [] | JArr js \<Rightarrow> dec_elems dec zero js | _ \<Rightarrow> None)"

fun dec_entries ::
  "(string \<Rightarrow> 'k option) \<Rightarrow> 'v decoder \<Rightarrow> 'v \<Rightarrow> (string \<times> json) list \<Rightarrow> ('k \<rightharpoonup> 'v) \<Rightarrow> ('k \<rightharpoonup> 'v) option"
where
  "dec_entries key dec zero [] m = Some m"
| "dec_entries key dec zero ((s, j) # es) m =
     (case key s of
        None \<Rightarrow> None
      | Some k \<Rightarrow>
          (case dec j zero of
             None \<Rightarrow> None
           | Some v \<Rightarrow> dec_entries key dec zero es (m(k \<mapsto> v))))"

definition dec_map :: "(string \<Rightarrow> 'k option) \<Rightarrow> 'v decoder \<Rightarrow> 'v \<Rightarrow> ('k \<rightharpoonup> 'v) decoder" where
  "dec_map key dec zero j m =
     (case j of
        JNull \<Rightarrow> Some Map.empty
      | JObj es \<Rightarrow> dec_entries key dec zero es m
      | _ \<Rightarrow> None)"

text \<open>A pointer to a struct: \<open>null\<close> is the nil pointer.\<close>

definition dec_ptr :: "'a decoder \<Rightarrow> 'a \<Rightarrow> 'a option decoder" where
  "dec_ptr dec zero j r =
     (case j of
        JNull \<Rightarrow> Some None
      | _ \<Rightarrow> map_option Some (dec j (case r of None \<Rightarrow> zero | Some x \<Rightarrow> x)))"

text \<open>One field of a struct, and a struct from the list of its named fields.\<close>

definition field :: "'a decoder \<Rightarrow> ('r \<Rightarrow> 'a) \<Rightarrow> (('a \<Rightarrow> 'a) \<Rightarrow> 'r \<Rightarrow> 'r) \<Rightarrow> 'r decoder" where
  "field dec get upd j r = map_option (\<lambda>v. upd (\<lambda>_. v) r) (dec j (get r))"

fun dec_members :: "(string \<times> 'r decoder) list \<Rightarrow> (string \<times> json) list \<Rightarrow> 'r \<Rightarrow> 'r option" where
  "dec_members fields [] r = Some r"
| "dec_members fields ((s, j) # es) r =
     (case map_of fields s of
        None \<Rightarrow> dec_members fields es r
      | Some dec \<Rightarrow>
          (case dec j r of None \<Rightarrow> None | Some r' \<Rightarrow> dec_members fields es r'))"

definition dec_struct :: "(string \<times> 'r decoder) list \<Rightarrow> 'r decoder" where
  "dec_struct fields j r =
     (case j of
        JNull \<Rightarrow> Some r
      | JObj es \<Rightarrow> dec_members fields es r
      | _ \<Rightarrow> None)"

section \<open>The interface\<close>

locale json_codec =
  fixes enc :: "'a \<Rightarrow> json"
    and dec :: "'a decoder"
    and zero :: 'a
    and valid :: "'a \<Rightarrow> bool"
  assumes dec_enc: "valid x \<Longrightarrow> dec (enc x) zero = Some x"
begin

lemma enc_inject: "valid x \<Longrightarrow> valid y \<Longrightarrow> enc x = enc y \<longleftrightarrow> x = y"
  by (metis dec_enc option.inject)

lemma dec_enc_elems: "\<forall>x \<in> set xs. valid x \<Longrightarrow> dec_elems dec zero (map enc xs) = Some xs"
  by (induction xs) (simp_all add: dec_enc)

lemma dec_enc_slice:
  "\<forall>x \<in> set xs. valid x \<Longrightarrow> dec_slice dec zero (enc_slice enc xs) r = Some xs"
  by (simp add: dec_slice_def enc_slice_def dec_enc_elems)

lemma dec_enc_entries:
  assumes "\<forall>(k, v) \<in> set es. key (show k) = Some k \<and> valid v"
  shows "dec_entries key dec zero (map (\<lambda>(k, v). (show k, enc v)) es) m = Some (m ++ map_of (rev es))"
  using assms by (induction es arbitrary: m) (auto simp: dec_enc)

end

lemma range_ok_marshal_keys: "finite (dom m) \<Longrightarrow> range_ok (marshal_keys show m) m"
  by (simp add: range_ok_def marshal_keys_def)

lemma map_of_rev_range_entries:
  assumes "range_ok ks m"
  shows "map_of (rev (range_entries ks m)) = m"
proof
  fix k
  have d: "distinct (map fst (rev (range_entries ks m)))"
    using assms distinct_range_entries [of ks m] by (auto simp: rev_map [symmetric])
  show "map_of (rev (range_entries ks m)) k = m k"
  proof (cases "m k")
    case None
    with assms have "k \<notin> fst ` set (range_entries ks m)" by (force simp: range_simps)
    with None show ?thesis by (simp add: map_of_eq_None_iff)
  next
    case (Some v)
    with assms have "(k, v) \<in> set (rev (range_entries ks m))" by (simp add: range_simps)
    with d Some show ?thesis by simp
  qed
qed

context json_codec
begin

lemma dec_enc_map:
  assumes "finite (dom m)" "\<forall>k \<in> dom m. key (show k) = Some k" "\<forall>v \<in> ran m. valid v"
  shows "dec_map key dec zero (enc_map show enc m) Map.empty = Some m"
proof -
  note ok = range_ok_marshal_keys [OF assms(1), of "show"]
  have "\<forall>(k, v) \<in> set (range_entries (marshal_keys show m) m). key (show k) = Some k \<and> valid v"
    using assms(2,3) ok by (auto simp: range_simps ran_def)
  from dec_enc_entries [OF this, of Map.empty] show ?thesis
    by (simp add: dec_map_def enc_map_def map_of_rev_range_entries [OF ok])
qed

end

section \<open>Scalars\<close>

lemma dec_enc_bool [codec_simps]: "dec_bool (enc_bool b) r = Some b"
  by (simp add: dec_bool_def enc_bool_def)

lemma dec_enc_u32 [codec_simps]: "dec_u32 (enc_u32 w) r = Some w"
proof -
  have "uint w < 2 ^ 32" using unsigned_less [of w, where ?'a = int] by simp
  then show ?thesis by (simp add: dec_u32_def enc_u32_def)
qed

lemma dec_enc_i32 [codec_simps]: "dec_i32 (enc_i32 w) r = Some w"
  using sint_lt [of w] sint_ge [of w] by (simp add: dec_i32_def enc_i32_def)

lemma dec_enc_i64 [codec_simps]: "dec_i64 (enc_i64 w) r = Some w"
  using sint_lt [of w] sint_ge [of w] by (simp add: dec_i64_def enc_i64_def)

lemma dec_enc_str [codec_simps]: "valid_utf8 s \<Longrightarrow> dec_str (enc_str s) r = Some s"
  by (simp add: dec_str_def enc_str_def)

lemma dec_enc_time [codec_simps]: "dec_time (enc_time t) r = Some t"
  by (simp add: dec_time_def enc_time_def)

interpretation u32_json: json_codec enc_u32 dec_u32 0 "\<lambda>_. True"
  by unfold_locales (rule dec_enc_u32)

interpretation i64_json: json_codec enc_i64 dec_i64 0 "\<lambda>_. True"
  by unfold_locales (rule dec_enc_i64)

interpretation str_json: json_codec enc_str dec_str "[]" valid_utf8
  by unfold_locales (rule dec_enc_str)

lemmas codec_slices [codec_simps] =
  u32_json.dec_enc_slice i64_json.dec_enc_slice str_json.dec_enc_slice

end
