(* ===== verification/Cluster_State.thy ===== *)
theory Cluster_State
  imports Go_Lib
begin

text \<open>
  The state replicated by Raft (\<open>go-controller/pkg/consensus/fsm.go\<close>): the structs of the
  source as records, and the double loop over all partitions that several operations share.

  Slices are lists and maps are partial functions; a nil slice or map is the empty one.
  \<open>ReplicaOffsets\<close> alone is optional, because the code tests it against nil.  No struct of
  the state is reachable through two pointers (every operation stores freshly allocated
  structs), so the pointers of the source are represented by the structs they point to.
\<close>

section \<open>Structs\<close>

record PartitionTopic =
  Topic :: string
  Partition :: u32

record BrokerStatus =
  ID :: u32
  Host :: string
  Port :: i32
  LastSeen :: time
  Active :: bool

record PartitionState =
  PartitionID :: u32
  LeaderID :: u32
  ReplicaIDs :: "u32 list"
  ISR :: "u32 list"
  HighWatermark :: i64
  ReplicaOffsets :: "(u32 \<rightharpoonup> i64) option"

record TopicState =
  Name :: string
  Partitions :: "u32 \<rightharpoonup> PartitionState"

record GroupMember =
  GM_ID :: string
  GM_Topics :: "string list"
  GM_LastSeen :: time

record ConsumerGroupState =
  GroupID :: string
  Generation :: u32
  Members :: "string \<rightharpoonup> GroupMember"
  Assignments :: "string \<rightharpoonup> PartitionTopic list"

record ClusterState =
  Brokers :: "u32 \<rightharpoonup> BrokerStatus"
  Topics :: "string \<rightharpoonup> TopicState"
  ConsumerGroups :: "string \<rightharpoonup> ConsumerGroupState"
  Offsets :: "string \<rightharpoonup> i64"

definition NewFSM :: ClusterState where
  "NewFSM = \<lparr>Brokers = Map.empty, Topics = Map.empty, ConsumerGroups = Map.empty,
     Offsets = Map.empty\<rparr>"

section \<open>Partitions of a state\<close>

definition partition_of :: "ClusterState \<Rightarrow> string \<Rightarrow> u32 \<Rightarrow> PartitionState option" where
  "partition_of s n p = (case Topics s n of None \<Rightarrow> None | Some t \<Rightarrow> Partitions t p)"

text \<open>
  \<open>broker_active\<close> is the test \<open>exists && b.Active\<close> of the code; \<open>some_active\<close> says that the
  test succeeds for a broker.
\<close>

definition broker_active :: "(u32 \<rightharpoonup> BrokerStatus) \<Rightarrow> u32 \<Rightarrow> bool" where
  "broker_active bs r = (case bs r of None \<Rightarrow> False | Some b \<Rightarrow> Active b)"

definition some_active :: "ClusterState \<Rightarrow> bool" where
  "some_active s \<longleftrightarrow> (\<exists>r. broker_active (Brokers s) r)"

lemma broker_active_dom: "broker_active bs r \<Longrightarrow> r \<in> dom bs"
  by (auto simp: broker_active_def split: option.splits)

text \<open>One pass of \<open>for _, topic := range Topics { for _, p := range topic.Partitions {...} }\<close>.\<close>

record visit =
  v_topics :: "string list"
  v_parts :: "string \<Rightarrow> u32 list"

definition visit_ok :: "visit \<Rightarrow> ClusterState \<Rightarrow> bool" where
  "visit_ok v s \<longleftrightarrow>
     range_ok (v_topics v) (Topics s) \<and>
     (\<forall>n t. Topics s n = Some t \<longrightarrow> range_ok (v_parts v n) (Partitions t))"

definition each_partition ::
  "visit \<Rightarrow> (PartitionState \<Rightarrow> PartitionState) \<Rightarrow> ClusterState \<Rightarrow> ClusterState"
where
  "each_partition v f s =
     s\<lparr>Topics := range_update (v_topics v)
         (\<lambda>n t. t\<lparr>Partitions := range_update (v_parts v n) (\<lambda>_. f) (Partitions t)\<rparr>) (Topics s)\<rparr>"

lemma each_partition_frame [simp, frame_simps]:
  "Brokers (each_partition v f s) = Brokers s"
  "ConsumerGroups (each_partition v f s) = ConsumerGroups s"
  "Offsets (each_partition v f s) = Offsets s"
  by (simp_all add: each_partition_def)

lemma dom_Topics_each_partition [simp]: "dom (Topics (each_partition v f s)) = dom (Topics s)"
  by (simp add: each_partition_def)

lemma each_partition_ok:
  assumes "visit_ok v s"
  shows "Topics (each_partition v f s) =
    (\<lambda>n. map_option (\<lambda>t. t\<lparr>Partitions := (\<lambda>p. map_option f (Partitions t p))\<rparr>) (Topics s n))"
  using assms
  by (auto simp: each_partition_def visit_ok_def range_update_ok fun_eq_iff map_option_case
      split: option.splits)

lemma partition_of_each_partition:
  "visit_ok v s \<Longrightarrow> partition_of (each_partition v f s) n p = map_option f (partition_of s n p)"
  by (auto simp: partition_of_def each_partition_ok split: option.splits)

lemma each_partition_any_order:
  "visit_ok v s \<Longrightarrow> visit_ok w s \<Longrightarrow> each_partition v f s = each_partition w f s"
  using each_partition_ok [of v s f] each_partition_ok [of w s f]
  by (metis ClusterState.equality each_partition_frame old.unit.exhaust)

text \<open>The keys of all partitions: what a visiting order depends on.\<close>

definition shape :: "ClusterState \<Rightarrow> string \<Rightarrow> u32 set option" where
  "shape s n = map_option (\<lambda>t. dom (Partitions t)) (Topics s n)"

lemma visit_ok_shape:
  "visit_ok v s \<longleftrightarrow>
     distinct (v_topics v) \<and> set (v_topics v) = dom (shape s) \<and>
     (\<forall>n d. shape s n = Some d \<longrightarrow> distinct (v_parts v n) \<and> set (v_parts v n) = d)"
  by (auto simp: visit_ok_def range_ok_def shape_def dom_def)

lemma state_update_frame [simp]:
  "shape (s\<lparr>Brokers := bs\<rparr>) = shape s"
  "shape (s\<lparr>ConsumerGroups := gs\<rparr>) = shape s"
  "shape (s\<lparr>Offsets := os\<rparr>) = shape s"
  "partition_of (s\<lparr>Brokers := bs\<rparr>) = partition_of s"
  "partition_of (s\<lparr>ConsumerGroups := gs\<rparr>) = partition_of s"
  "partition_of (s\<lparr>Offsets := os\<rparr>) = partition_of s"
  by (simp_all add: shape_def partition_of_def fun_eq_iff)

lemma shape_each_partition [simp]: "shape (each_partition v f s) = shape s"
  by (rule ext) (simp add: shape_def each_partition_def range_update_map_option)

lemma visit_ok_each_partition [simp]: "visit_ok w (each_partition v f s) \<longleftrightarrow> visit_ok w s"
  by (simp add: visit_ok_shape)

lemma partition_of_shape: "partition_of s n p \<noteq> None \<longleftrightarrow> (\<exists>d. shape s n = Some d \<and> p \<in> d)"
  by (auto simp: partition_of_def shape_def split: option.splits)

lemma partition_of_None_shape:
  "shape s = shape s' \<Longrightarrow> partition_of s n p = None \<longleftrightarrow> partition_of s' n p = None"
  using partition_of_shape [of s n p] partition_of_shape [of s' n p] by metis

text \<open>
  Facts about every partition survive a pass whose body keeps them, whatever entries the pass
  visits.
\<close>

lemma each_partition_invariant:
  assumes inv: "\<And>n p q. partition_of s n p = Some q \<Longrightarrow> P n p q"
    and step: "\<And>n p q. P n p q \<Longrightarrow> P n p (f q)"
    and "partition_of (each_partition v f s) n p = Some q"
  shows "P n p q"
proof -
  let ?g = "\<lambda>n t. t\<lparr>Partitions := range_update (v_parts v n) (\<lambda>_. f) (Partitions t)\<rparr>"
  let ?Q = "\<lambda>n t. \<forall>p q. Partitions t p = Some q \<longrightarrow> P n p q"
  from assms(3) obtain t where t: "range_update (v_topics v) ?g (Topics s) n = Some t"
    and q: "Partitions t p = Some q"
    by (auto simp: partition_of_def each_partition_def split: option.splits)
  have "?Q n t"
  proof (rule range_update_invariant [where P = ?Q, OF _ _ t])
    show "?Q k u" if "Topics s k = Some u" for k u
      using that inv by (auto simp: partition_of_def)
    show "?Q k (?g k u)" if "?Q k u" for k u
      using that step by (auto elim!: range_update_invariant [where P = "P k", rotated 2])
  qed
  with q show ?thesis by blast
qed

lemma each_partition_Name:
  assumes "\<And>n t. Topics s n = Some t \<Longrightarrow> Name t = n" "Topics (each_partition v f s) n = Some t"
  shows "Name t = n"
proof (rule range_update_invariant [where P = "\<lambda>n t. Name t = n"])
  show "range_update (v_topics v)
      (\<lambda>n t. t\<lparr>Partitions := range_update (v_parts v n) (\<lambda>_. f) (Partitions t)\<rparr>) (Topics s) n = Some t"
    using assms(2) by (simp add: each_partition_def)
qed (use assms(1) in auto)

end
