(* ===== verification/ISR.thy ===== *)
theory ISR
  imports Cluster_State
begin

text \<open>
  \<open>FSM.updateISRAndHW\<close>: the in-sync replicas and the high watermark of every partition,
  recomputed from the brokers' health and the replica offsets they reported.  The loops of
  the source are translated as they are; \<open>in_sync\<close> is the declarative reading of the in-sync
  set, and the lemmas relate the two, bound the high watermark and show that the order in
  which Go visits topics and partitions does not matter.
\<close>

section \<open>The routine\<close>

definition broker_live :: "time \<Rightarrow> (u32 \<rightharpoonup> BrokerStatus) \<Rightarrow> u32 \<Rightarrow> bool" where
  "broker_live now bs r =
     (case bs r of
        None \<Rightarrow> False
      | Some b \<Rightarrow> Active b \<and> time_sub now (LastSeen b) \<le> seconds 8)"

text \<open>Reading a map of offsets: an absent entry reads as the zero value.\<close>

definition replica_offset :: "(u32 \<rightharpoonup> i64) \<Rightarrow> u32 \<Rightarrow> i64" where
  "replica_offset ro r = (case ro r of None \<Rightarrow> 0 | Some v \<Rightarrow> v)"

definition offsets_of :: "PartitionState \<Rightarrow> u32 \<rightharpoonup> i64" where
  "offsets_of p = (case ReplicaOffsets p of None \<Rightarrow> Map.empty | Some m \<Rightarrow> m)"

fun isr_loop ::
  "time \<Rightarrow> (u32 \<rightharpoonup> BrokerStatus) \<Rightarrow> (u32 \<rightharpoonup> i64) \<Rightarrow> u32 \<Rightarrow> i64 \<Rightarrow> u32 list \<Rightarrow> u32 list \<Rightarrow> u32 list"
where
  "isr_loop now bs ro leaderID leaderOffset [] newISR = newISR"
| "isr_loop now bs ro leaderID leaderOffset (rID # rs) newISR =
     (if rID = leaderID then isr_loop now bs ro leaderID leaderOffset rs newISR
      else if \<not> broker_live now bs rID then isr_loop now bs ro leaderID leaderOffset rs newISR
      else let lag = leaderOffset - replica_offset ro rID in
           isr_loop now bs ro leaderID leaderOffset rs
             (if sint lag \<le> 10 then newISR @ [rID] else newISR))"

fun min_offset_loop :: "(u32 \<rightharpoonup> i64) \<Rightarrow> nat \<Rightarrow> u32 list \<Rightarrow> i64 \<Rightarrow> i64" where
  "min_offset_loop ro i [] minOffset = minOffset"
| "min_offset_loop ro i (rID # rs) minOffset =
     (let off = replica_offset ro rID in
      min_offset_loop ro (Suc i) rs (if i = 0 \<or> sint off < sint minOffset then off else minOffset))"

definition update_partition :: "time \<Rightarrow> (u32 \<rightharpoonup> BrokerStatus) \<Rightarrow> PartitionState \<Rightarrow> PartitionState" where
  "update_partition now bs p =
     (let leaderID = LeaderID p;
          ro = offsets_of p;
          leaderOffset = replica_offset ro leaderID;
          newISR = isr_loop now bs ro leaderID leaderOffset (ReplicaIDs p)
                     (if broker_live now bs leaderID then [leaderID] else [])
      in p\<lparr>ReplicaOffsets := Some ro, ISR := newISR,
           HighWatermark := (if newISR \<noteq> [] then min_offset_loop ro 0 newISR 0 else 0)\<rparr>)"

definition updateISRAndHW :: "time \<Rightarrow> visit \<Rightarrow> ClusterState \<Rightarrow> ClusterState" where
  "updateISRAndHW now v s = each_partition v (update_partition now (Brokers s)) s"

section \<open>The in-sync set\<close>

definition in_sync :: "time \<Rightarrow> (u32 \<rightharpoonup> BrokerStatus) \<Rightarrow> PartitionState \<Rightarrow> u32 \<Rightarrow> bool" where
  "in_sync now bs p r \<longleftrightarrow>
     broker_live now bs r \<and>
     (r = LeaderID p \<or>
      r \<in> set (ReplicaIDs p) \<and>
      sint (replica_offset (offsets_of p) (LeaderID p) - replica_offset (offsets_of p) r) \<le> 10)"

lemma isr_loop_filter:
  "isr_loop now bs ro l lo rs acc =
     acc @ filter (\<lambda>r. r \<noteq> l \<and> broker_live now bs r \<and> sint (lo - replica_offset ro r) \<le> 10) rs"
  by (induction rs arbitrary: acc) (auto simp: Let_def)

lemma update_partition_frame [simp, frame_simps]:
  "PartitionID (update_partition now bs p) = PartitionID p"
  "LeaderID (update_partition now bs p) = LeaderID p"
  "ReplicaIDs (update_partition now bs p) = ReplicaIDs p"
  "ReplicaOffsets (update_partition now bs p) = Some (offsets_of p)"
  "offsets_of (update_partition now bs p) = offsets_of p"
  by (simp_all add: update_partition_def Let_def offsets_of_def)

lemma set_ISR_update_partition:
  "set (ISR (update_partition now bs p)) = {r. in_sync now bs p r}"
  by (auto simp: update_partition_def Let_def isr_loop_filter in_sync_def)

lemma distinct_ISR_update_partition:
  "distinct (ReplicaIDs p) \<Longrightarrow> distinct (ISR (update_partition now bs p))"
  by (auto simp: update_partition_def Let_def isr_loop_filter)

lemma broker_live_active: "broker_live now bs r \<Longrightarrow> broker_active bs r"
  by (auto simp: broker_live_def broker_active_def split: option.splits)

section \<open>The high watermark\<close>

lemma min_offset_loop_spec:
  "0 < i \<Longrightarrow>
     sint (min_offset_loop ro i rs m) \<le> sint m \<and>
     (\<forall>r \<in> set rs. sint (min_offset_loop ro i rs m) \<le> sint (replica_offset ro r)) \<and>
     min_offset_loop ro i rs m \<in> insert m (replica_offset ro ` set rs)"
proof (induction rs arbitrary: i m)
  case (Cons r rs)
  let ?m = "if sint (replica_offset ro r) < sint m then replica_offset ro r else m"
  have eq: "min_offset_loop ro i (r # rs) m = min_offset_loop ro (Suc i) rs ?m"
    using Cons.prems by (simp add: Let_def)
  have "sint ?m \<le> sint m" "sint ?m \<le> sint (replica_offset ro r)"
    "?m \<in> insert m (replica_offset ro ` set (r # rs))" by auto
  then show ?case using Cons.IH [of "Suc i" ?m] unfolding eq by force
qed simp

lemma min_offset_loop_0:
  assumes "rs \<noteq> []"
  shows "\<forall>r \<in> set rs. sint (min_offset_loop ro 0 rs m) \<le> sint (replica_offset ro r)"
    and "min_offset_loop ro 0 rs m \<in> replica_offset ro ` set rs"
proof -
  from assms obtain r rs' where rs: "rs = r # rs'" by (cases rs) auto
  have eq: "min_offset_loop ro 0 rs m = min_offset_loop ro 1 rs' (replica_offset ro r)"
    by (simp add: rs Let_def)
  note sp = min_offset_loop_spec [of 1 ro rs' "replica_offset ro r", simplified]
  show "\<forall>r \<in> set rs. sint (min_offset_loop ro 0 rs m) \<le> sint (replica_offset ro r)"
    using sp unfolding eq by (simp add: rs)
  show "min_offset_loop ro 0 rs m \<in> replica_offset ro ` set rs"
    using sp unfolding eq by (auto simp: rs)
qed

lemma HighWatermark_update_partition:
  assumes "ISR (update_partition now bs p) \<noteq> []"
  shows "\<forall>r \<in> set (ISR (update_partition now bs p)).
           sint (HighWatermark (update_partition now bs p)) \<le> sint (replica_offset (offsets_of p) r)"
    and "HighWatermark (update_partition now bs p)
           \<in> replica_offset (offsets_of p) ` set (ISR (update_partition now bs p))"
  using assms min_offset_loop_0 [of "ISR (update_partition now bs p)"]
  by (auto simp: update_partition_def Let_def)

lemma HighWatermark_empty_ISR:
  "ISR (update_partition now bs p) = [] \<Longrightarrow> HighWatermark (update_partition now bs p) = 0"
  by (simp add: update_partition_def Let_def)

text \<open>Offsets are non-negative in practice; then the subtraction of the lag does not wrap.\<close>

lemma sint_diff_nonneg:
  fixes a b :: i64
  assumes "0 \<le> sint a" "0 \<le> sint b"
  shows "sint (a - b) = sint a - sint b"
proof -
  have "- (2 ^ 63) \<le> sint a - sint b" "sint a - sint b < 2 ^ 63"
    using assms sint_lt [of a] sint_lt [of b] by simp_all
  then show ?thesis
    by (simp add: sint_word_ariths signed_take_bit_int_eq_self)
qed

lemma update_partition_idem:
  "update_partition now bs (update_partition now bs p) = update_partition now bs p"
  by (simp add: update_partition_def Let_def offsets_of_def)

section \<open>The whole pass\<close>

lemma updateISRAndHW_frame [simp, frame_simps]:
  "Brokers (updateISRAndHW now v s) = Brokers s"
  "ConsumerGroups (updateISRAndHW now v s) = ConsumerGroups s"
  "Offsets (updateISRAndHW now v s) = Offsets s"
  by (simp_all add: updateISRAndHW_def)

lemma partition_of_updateISRAndHW:
  "visit_ok v s \<Longrightarrow>
     partition_of (updateISRAndHW now v s) n p =
     map_option (update_partition now (Brokers s)) (partition_of s n p)"
  by (simp add: updateISRAndHW_def partition_of_each_partition)

section \<open>Properties\<close>

text \<open>
  C10: a pass of \<open>updateISRAndHW\<close> gives every partition exactly the live brokers among leader and
  replicas whose lag is at most 10 as its in-sync replicas; the high watermark is the smallest
  offset among them, and 0 when there is none; leader, replicas and offsets stay.
\<close>

theorem updateISRAndHW_correct:
  assumes "visit_ok v s" "partition_of s n p = Some q"
  shows "\<exists>q'. partition_of (updateISRAndHW now v s) n p = Some q' \<and>
    LeaderID q' = LeaderID q \<and> ReplicaIDs q' = ReplicaIDs q \<and> offsets_of q' = offsets_of q \<and>
    set (ISR q') = {r. in_sync now (Brokers s) q r} \<and>
    (if ISR q' = [] then HighWatermark q' = 0
     else HighWatermark q' \<in> replica_offset (offsets_of q) ` set (ISR q') \<and>
          (\<forall>r \<in> set (ISR q'). sint (HighWatermark q') \<le> sint (replica_offset (offsets_of q) r)))"
  using assms HighWatermark_update_partition [of now "Brokers s" q]
    HighWatermark_empty_ISR [of now "Brokers s" q]
  by (simp add: partition_of_updateISRAndHW set_ISR_update_partition)

text \<open>
  When the leader of a partition is live and the reported offsets are not negative, the high
  watermark neither passes the leader's offset nor falls more than 10 behind it, and it is not
  negative.
\<close>

lemma high_watermark_near_leader:
  assumes "visit_ok v s" "partition_of s n p = Some q" "broker_live now (Brokers s) (LeaderID q)"
    and "\<forall>r. 0 \<le> sint (replica_offset (offsets_of q) r)"
  shows "\<exists>q'. partition_of (updateISRAndHW now v s) n p = Some q' \<and>
    0 \<le> sint (HighWatermark q') \<and>
    sint (HighWatermark q') \<le> sint (replica_offset (offsets_of q) (LeaderID q)) \<and>
    sint (replica_offset (offsets_of q) (LeaderID q)) - sint (HighWatermark q') \<le> 10"
proof -
  let ?q = "update_partition now (Brokers s) q" and ?o = "replica_offset (offsets_of q)"
  have l: "LeaderID q \<in> set (ISR ?q)"
    using assms(3) by (simp add: set_ISR_update_partition in_sync_def)
  then have ne: "ISR ?q \<noteq> []" by auto
  obtain r where r: "r \<in> set (ISR ?q)" "HighWatermark ?q = ?o r"
    using HighWatermark_update_partition(2) [OF ne] by auto
  have "sint (?o (LeaderID q) - ?o r) \<le> 10"
    using r(1) unfolding set_ISR_update_partition by (auto simp: in_sync_def)
  then have "sint (?o (LeaderID q)) - sint (?o r) \<le> 10"
    using assms(4) by (simp add: sint_diff_nonneg)
  moreover have "sint (HighWatermark ?q) \<le> sint (?o (LeaderID q))"
    using HighWatermark_update_partition(1) [OF ne] l by blast
  ultimately show ?thesis
    using assms(1,2,4) r(2) by (simp add: partition_of_updateISRAndHW)
qed


text \<open>
  A cluster with two live brokers and a silent one, and a partition with a lagging replica.
\<close>

definition sample_brokers :: "u32 \<rightharpoonup> BrokerStatus" where
  "sample_brokers =
     [1 \<mapsto> \<lparr>ID = 1, Host = ''h1'', Port = 9091, LastSeen = seconds 100, Active = True\<rparr>,
      2 \<mapsto> \<lparr>ID = 2, Host = ''h2'', Port = 9092, LastSeen = seconds 99, Active = True\<rparr>,
      3 \<mapsto> \<lparr>ID = 3, Host = ''h3'', Port = 9093, LastSeen = seconds 50, Active = True\<rparr>]"

definition sample_partition :: PartitionState where
  "sample_partition = \<lparr>PartitionID = 0, LeaderID = 1, ReplicaIDs = [1, 2, 3], ISR = [],
     HighWatermark = 0, ReplicaOffsets = Some [1 \<mapsto> 25, 2 \<mapsto> 20, 3 \<mapsto> 25]\<rparr>"

definition sample_state :: ClusterState where
  "sample_state = \<lparr>Brokers = sample_brokers,
     Topics = [''t'' \<mapsto> \<lparr>Name = ''t'', Partitions = [0 \<mapsto> sample_partition]\<rparr>],
     ConsumerGroups = Map.empty, Offsets = Map.empty\<rparr>"

definition sample_visit :: visit where
  "sample_visit = \<lparr>v_topics = [''t''], v_parts = (\<lambda>_. [0])\<rparr>"

lemma sample_visit_ok: "visit_ok sample_visit sample_state"
  by (simp add: visit_ok_def range_ok_def sample_visit_def sample_state_def)

lemma sample_partition_of: "partition_of sample_state ''t'' 0 = Some sample_partition"
  by (simp add: partition_of_def sample_state_def)

lemma sample_offsets_nonneg: "0 \<le> sint (replica_offset (offsets_of sample_partition) r)"
  by (simp add: replica_offset_def offsets_of_def sample_partition_def)

theorem updateISRAndHW_correct_witness:
  "\<exists>q'. partition_of (updateISRAndHW (seconds 101) sample_visit sample_state) ''t'' 0 = Some q' \<and>
     set (ISR q') = {1, 2} \<and> HighWatermark q' = 20"
proof -
  obtain q' where q': "partition_of (updateISRAndHW (seconds 101) sample_visit sample_state) ''t'' 0 = Some q'"
    and isr: "set (ISR q') = {r. in_sync (seconds 101) (Brokers sample_state) sample_partition r}"
    and hw: "if ISR q' = [] then HighWatermark q' = 0
      else HighWatermark q' \<in> replica_offset (offsets_of sample_partition) ` set (ISR q') \<and>
        (\<forall>r \<in> set (ISR q'). sint (HighWatermark q') \<le> sint (replica_offset (offsets_of sample_partition) r))"
    using updateISRAndHW_correct [OF sample_visit_ok sample_partition_of, of "seconds 101"] by blast
  have set: "set (ISR q') = {1, 2}"
    unfolding isr
    by (auto simp: in_sync_def broker_live_def sample_state_def sample_brokers_def sample_partition_def
        offsets_of_def replica_offset_def seconds_def time_sub_def max_duration_def min_duration_def split: if_splits option.splits)
  then have "ISR q' \<noteq> []" by auto
  with hw set have "HighWatermark q' = 20"
    by (auto simp: sample_partition_def offsets_of_def replica_offset_def)
  with q' set show ?thesis by blast
qed

lemma high_watermark_near_leader_example:
  "\<exists>q'. partition_of (updateISRAndHW (seconds 101) sample_visit sample_state) ''t'' 0 = Some q' \<and>
     15 \<le> sint (HighWatermark q') \<and> sint (HighWatermark q') \<le> 25"
proof -
  have "broker_live (seconds 101) (Brokers sample_state) (LeaderID sample_partition)"
    by (simp add: broker_live_def sample_state_def sample_brokers_def sample_partition_def seconds_def
      time_sub_def max_duration_def min_duration_def)
  from high_watermark_near_leader [OF sample_visit_ok sample_partition_of this]
  show ?thesis using sample_offsets_nonneg
    by (auto simp: sample_partition_def offsets_of_def replica_offset_def)
qed


end
