(* ===== verification/Failover.thy ===== *)
theory Failover
  imports ISR
begin

text \<open>
  Broker membership and leader failover: the commands \<open>register_broker\<close>,
  \<open>broker_heartbeat\<close> and \<open>clean_inactive\<close> of \<open>FSM.Apply\<close>, with \<open>getActiveBrokerIDs\<close> and
  \<open>handleBrokerFailure\<close>.

  The lemmas say which leader \<open>handleBrokerFailure\<close> installs, that a pass of
  \<open>clean_inactive\<close> deactivates exactly the brokers that timed out, and that after it no
  partition is led by one of them as long as some broker is left.
\<close>

section \<open>Payloads\<close>

record RegisterBrokerPayload =
  rb_ID :: u32
  rb_Host :: string
  rb_Port :: i32

record ReplicaOffsetPayload =
  ro_Topic :: string
  ro_Partition :: u32
  ro_Offset :: i64

record HeartbeatPayload =
  hb_ID :: u32
  hb_ReplicaOffsets :: "ReplicaOffsetPayload list"

section \<open>Operations\<close>

definition register_broker :: "time \<Rightarrow> RegisterBrokerPayload \<Rightarrow> ClusterState \<Rightarrow> ClusterState" where
  "register_broker now payload s =
     s\<lparr>Brokers := (Brokers s)(rb_ID payload \<mapsto>
         \<lparr>ID = rb_ID payload, Host = rb_Host payload, Port = rb_Port payload,
          LastSeen = now, Active = True\<rparr>)\<rparr>"

text \<open>The body of the loop over the reported offsets.\<close>

definition store_replica_offset ::
  "u32 \<Rightarrow> ReplicaOffsetPayload \<Rightarrow> ClusterState \<Rightarrow> ClusterState"
where
  "store_replica_offset brokerID ro s =
     (case Topics s (ro_Topic ro) of
        None \<Rightarrow> s
      | Some topicState \<Rightarrow>
          (case Partitions topicState (ro_Partition ro) of
             None \<Rightarrow> s
           | Some partitionState \<Rightarrow>
               s\<lparr>Topics := (Topics s)(ro_Topic ro \<mapsto>
                   topicState\<lparr>Partitions := (Partitions topicState)(ro_Partition ro \<mapsto>
                     partitionState\<lparr>ReplicaOffsets :=
                       Some ((offsets_of partitionState)(brokerID \<mapsto> ro_Offset ro))\<rparr>)\<rparr>)\<rparr>))"

definition broker_heartbeat ::
  "time \<Rightarrow> time \<Rightarrow> visit \<Rightarrow> HeartbeatPayload \<Rightarrow> ClusterState \<Rightarrow> ClusterState"
where
  "broker_heartbeat now now_isr v payload s =
     (let s1 = (case Brokers s (hb_ID payload) of
                  None \<Rightarrow> s
                | Some broker \<Rightarrow>
                    s\<lparr>Brokers := (Brokers s)(hb_ID payload \<mapsto>
                        broker\<lparr>LastSeen := now, Active := True\<rparr>)\<rparr>);
          s2 = fold (store_replica_offset (hb_ID payload)) (hb_ReplicaOffsets payload) s1
      in updateISRAndHW now_isr v s2)"

definition getActiveBrokerIDs :: "u32 list \<Rightarrow> ClusterState \<Rightarrow> u32 list" where
  "getActiveBrokerIDs ks s =
     map fst (filter (\<lambda>(id, b). Active b) (range_entries ks (Brokers s)))"

text \<open>The search through the replicas; 0 stands for \<open>no replica found\<close>, as in the source.\<close>

fun pick_replica :: "(u32 \<rightharpoonup> BrokerStatus) \<Rightarrow> u32 \<Rightarrow> u32 list \<Rightarrow> u32" where
  "pick_replica bs failedID [] = 0"
| "pick_replica bs failedID (repID # rs) =
     (if repID \<noteq> failedID \<and> broker_active bs repID then repID
      else pick_replica bs failedID rs)"

definition elect_leader ::
  "(u32 \<rightharpoonup> BrokerStatus) \<Rightarrow> u32 list \<Rightarrow> u32 \<Rightarrow> PartitionState \<Rightarrow> PartitionState"
where
  "elect_leader bs activeBrokers failedID p =
     (if LeaderID p = failedID then
        let newLeader = pick_replica bs failedID (ReplicaIDs p);
            newLeader = (if newLeader = 0 then activeBrokers ! 0 else newLeader)
        in p\<lparr>LeaderID := newLeader\<rparr>
      else p)"

definition handleBrokerFailure :: "u32 list \<Rightarrow> visit \<Rightarrow> u32 \<Rightarrow> ClusterState \<Rightarrow> ClusterState" where
  "handleBrokerFailure ks v failedID s =
     (let activeBrokers = getActiveBrokerIDs ks s in
      if length activeBrokers = 0 then s
      else each_partition v (elect_leader (Brokers s) activeBrokers failedID) s)"

text \<open>
  One iteration of the loop of \<open>clean_inactive\<close> over the brokers, visiting the entry of key
  \<open>k\<close>; \<open>aks k\<close> and \<open>vs k\<close> are the orders of the loops inside \<open>handleBrokerFailure\<close>.
\<close>

definition clean_broker ::
  "(u32 \<Rightarrow> u32 list) \<Rightarrow> (u32 \<Rightarrow> visit) \<Rightarrow> time \<Rightarrow> u32 \<Rightarrow> ClusterState \<Rightarrow> ClusterState"
where
  "clean_broker aks vs now k s =
     (case Brokers s k of
        None \<Rightarrow> s
      | Some broker \<Rightarrow>
          if Active broker \<and> time_sub now (LastSeen broker) > seconds 8
          then handleBrokerFailure (aks k) (vs k) (ID broker)
                 (s\<lparr>Brokers := (Brokers s)(k \<mapsto> broker\<lparr>Active := False\<rparr>)\<rparr>)
          else s)"

definition clean_inactive ::
  "u32 list \<Rightarrow> (u32 \<Rightarrow> u32 list) \<Rightarrow> (u32 \<Rightarrow> visit) \<Rightarrow> time \<Rightarrow> time \<Rightarrow> visit \<Rightarrow>
   ClusterState \<Rightarrow> ClusterState"
where
  "clean_inactive bks aks vs now now_isr v s =
     updateISRAndHW now_isr v (fold (clean_broker aks vs now) bks s)"

section \<open>Heartbeats\<close>

lemma register_broker_frame [simp, frame_simps]:
  "Topics (register_broker now p s) = Topics s"
  "ConsumerGroups (register_broker now p s) = ConsumerGroups s"
  "Offsets (register_broker now p s) = Offsets s"
  "partition_of (register_broker now p s) = partition_of s"
  by (simp_all add: register_broker_def)

lemma store_replica_offset_frame [simp, frame_simps]:
  "Brokers (store_replica_offset b ro s) = Brokers s"
  "ConsumerGroups (store_replica_offset b ro s) = ConsumerGroups s"
  "Offsets (store_replica_offset b ro s) = Offsets s"
  by (simp_all add: store_replica_offset_def split: option.splits)

lemma partition_of_store_replica_offset:
  "partition_of (store_replica_offset b ro s) n p =
     (if n = ro_Topic ro \<and> p = ro_Partition ro
      then map_option (\<lambda>q. q\<lparr>ReplicaOffsets := Some ((offsets_of q)(b \<mapsto> ro_Offset ro))\<rparr>)
             (partition_of s n p)
      else partition_of s n p)"
  by (auto simp: partition_of_def store_replica_offset_def split: option.splits)

lemma fold_store_frame [simp, frame_simps]:
  "Brokers (fold (store_replica_offset b) ros s) = Brokers s"
  "ConsumerGroups (fold (store_replica_offset b) ros s) = ConsumerGroups s"
  "Offsets (fold (store_replica_offset b) ros s) = Offsets s"
  by (induction ros arbitrary: s) simp_all

section \<open>Choosing a leader\<close>

lemma set_getActiveBrokerIDs:
  "set (getActiveBrokerIDs ks s) = {id \<in> set ks. broker_active (Brokers s) id}"
  by (force simp: getActiveBrokerIDs_def set_range_entries broker_active_def image_iff
      split: option.splits)

lemma distinct_getActiveBrokerIDs: "distinct ks \<Longrightarrow> distinct (getActiveBrokerIDs ks s)"
  unfolding getActiveBrokerIDs_def
  by (induction ks) (auto simp: set_range_entries split: option.splits)

lemma getActiveBrokerIDs_Nil:
  "range_ok ks (Brokers s) \<Longrightarrow> getActiveBrokerIDs ks s = [] \<longleftrightarrow> \<not> some_active s"
  using set_getActiveBrokerIDs [of ks s] broker_active_dom [of "Brokers s"]
  by (simp add: some_active_def range_ok_def flip: set_empty) blast

lemma pick_replica_find:
  "pick_replica bs failed rs =
     (case find (\<lambda>r. r \<noteq> failed \<and> broker_active bs r) rs of None \<Rightarrow> 0 | Some r \<Rightarrow> r)"
  by (induction rs) auto

lemma pick_replica_nonzero:
  "pick_replica bs failed rs \<noteq> 0 \<Longrightarrow>
     pick_replica bs failed rs \<in> set rs \<and> pick_replica bs failed rs \<noteq> failed \<and>
     broker_active bs (pick_replica bs failed rs)"
  by (induction rs) (auto split: if_splits)

lemma elect_leader_frame [simp, frame_simps]:
  "PartitionID (elect_leader bs act f p) = PartitionID p"
  "ReplicaIDs (elect_leader bs act f p) = ReplicaIDs p"
  "ISR (elect_leader bs act f p) = ISR p"
  "HighWatermark (elect_leader bs act f p) = HighWatermark p"
  "ReplicaOffsets (elect_leader bs act f p) = ReplicaOffsets p"
  by (simp_all add: elect_leader_def Let_def)

lemma elect_leader_keeps: "LeaderID p \<noteq> failed \<Longrightarrow> elect_leader bs act failed p = p"
  by (simp add: elect_leader_def)

lemma elect_leader_active:
  assumes "LeaderID p = failed" "act \<noteq> []" "\<forall>r \<in> set act. broker_active bs r"
  shows "broker_active bs (LeaderID (elect_leader bs act failed p))"
  using assms pick_replica_nonzero [of bs failed "ReplicaIDs p"]
  by (auto simp: elect_leader_def Let_def)

lemma handleBrokerFailure_frame [simp, frame_simps]:
  "Brokers (handleBrokerFailure ks v f s) = Brokers s"
  "ConsumerGroups (handleBrokerFailure ks v f s) = ConsumerGroups s"
  "Offsets (handleBrokerFailure ks v f s) = Offsets s"
  by (simp_all add: handleBrokerFailure_def Let_def)

lemma handleBrokerFailure_leader:
  assumes "visit_ok v s" "getActiveBrokerIDs ks s \<noteq> []"
    and "partition_of (handleBrokerFailure ks v f s) n p = Some q"
  obtains q0 where "partition_of s n p = Some q0"
    "q = elect_leader (Brokers s) (getActiveBrokerIDs ks s) f q0"
  using assms
  by (auto simp: handleBrokerFailure_def partition_of_each_partition)

section \<open>The cleaning pass\<close>

text \<open>What the pass does to a broker, and the invariant that keys are broker identifiers.\<close>

definition expire :: "time \<Rightarrow> BrokerStatus \<Rightarrow> BrokerStatus" where
  "expire now b =
     (if Active b \<and> time_sub now (LastSeen b) > seconds 8 then b\<lparr>Active := False\<rparr> else b)"

definition broker_ids_ok :: "ClusterState \<Rightarrow> bool" where
  "broker_ids_ok s \<longleftrightarrow> (\<forall>k b. Brokers s k = Some b \<longrightarrow> ID b = k)"

definition leaders_active :: "ClusterState \<Rightarrow> bool" where
  "leaders_active s \<longleftrightarrow>
     (\<forall>n p q. partition_of s n p = Some q \<longrightarrow> broker_active (Brokers s) (LeaderID q))"

lemma Brokers_clean_broker:
  "Brokers (clean_broker aks vs now k s) =
     (case Brokers s k of None \<Rightarrow> Brokers s | Some b \<Rightarrow> (Brokers s)(k \<mapsto> expire now b))"
  by (auto simp: clean_broker_def expire_def split: option.splits)

lemma expire_idem [simp]: "expire now (expire now b) = expire now b"
  by (simp add: expire_def)

lemma expire_ID [simp]: "ID (expire now b) = ID b"
  by (simp add: expire_def)

lemma Brokers_fold_clean:
  "Brokers (fold (clean_broker aks vs now) bks s) =
     (\<lambda>k. if k \<in> set bks then map_option (expire now) (Brokers s k) else Brokers s k)"
  by (induction bks arbitrary: s)
     (auto simp: Brokers_clean_broker fun_eq_iff map_option_case split: option.splits)

lemma clean_broker_shape [simp]: "shape (clean_broker aks vs now k s) = shape s"
  by (simp add: clean_broker_def handleBrokerFailure_def Let_def split: option.splits)

lemma visit_ok_clean_broker [simp]:
  "visit_ok v (clean_broker aks vs now k s) \<longleftrightarrow> visit_ok v s"
  by (simp add: visit_ok_shape)

lemma clean_broker_frame [simp, frame_simps]:
  "ConsumerGroups (clean_broker aks vs now k s) = ConsumerGroups s"
  "Offsets (clean_broker aks vs now k s) = Offsets s"
  by (simp_all add: clean_broker_def split: option.splits)

lemma fold_clean_frame [simp, frame_simps]:
  "ConsumerGroups (fold (clean_broker aks vs now) bks s) = ConsumerGroups s"
  "Offsets (fold (clean_broker aks vs now) bks s) = Offsets s"
  by (induction bks arbitrary: s) simp_all

lemma dom_Brokers_clean_broker [simp]:
  "dom (Brokers (clean_broker aks vs now k s)) = dom (Brokers s)"
  by (auto simp: Brokers_clean_broker split: option.splits)

lemma range_ok_clean_broker [simp]:
  "range_ok ks (Brokers (clean_broker aks vs now k s)) \<longleftrightarrow> range_ok ks (Brokers s)"
  by (rule range_ok_dom) simp

lemma broker_ids_clean_broker: "broker_ids_ok s \<Longrightarrow> broker_ids_ok (clean_broker aks vs now k s)"
  by (auto simp: broker_ids_ok_def Brokers_clean_broker split: option.splits if_splits)

lemma active_clean_broker:
  "broker_active (Brokers (clean_broker aks vs now k s)) r \<Longrightarrow> broker_active (Brokers s) r"
  by (auto simp: Brokers_clean_broker broker_active_def expire_def
      split: option.splits if_splits)

lemma active_fold_clean:
  "broker_active (Brokers (fold (clean_broker aks vs now) bks s)) r \<Longrightarrow> broker_active (Brokers s) r"
  by (induction bks arbitrary: s) (auto dest: active_clean_broker)

text \<open>
  One iteration: a partition that changes hands gets an active leader, and a partition whose
  leader the iteration deactivates changes hands.
\<close>

lemma clean_broker_leader:
  assumes ids: "broker_ids_ok s" and v: "visit_ok (vs k) s" and a: "range_ok (aks k) (Brokers s)"
    and act: "some_active (clean_broker aks vs now k s)"
    and q': "partition_of (clean_broker aks vs now k s) n p = Some q'"
  obtains q where "partition_of s n p = Some q"
    "broker_active (Brokers (clean_broker aks vs now k s)) (LeaderID q') \<or>
     LeaderID q' = LeaderID q \<and> \<not> broker_active (Brokers s) (LeaderID q)"
proof (cases "\<exists>b. Brokers s k = Some b \<and> Active b \<and> time_sub now (LastSeen b) > seconds 8")
  case False
  then have "clean_broker aks vs now k s = s"
    by (auto simp: clean_broker_def split: option.splits)
  with that q' show ?thesis by auto
next
  case True
  then obtain b where b: "Brokers s k = Some b" "Active b" "time_sub now (LastSeen b) > seconds 8"
    by blast
  define s1 where "s1 = s\<lparr>Brokers := (Brokers s)(k \<mapsto> b\<lparr>Active := False\<rparr>)\<rparr>"
  have eq: "clean_broker aks vs now k s = handleBrokerFailure (aks k) (vs k) k s1"
    using b ids by (simp add: clean_broker_def s1_def broker_ids_ok_def)
  have part: "partition_of s1 n p = partition_of s n p"
    by (simp add: s1_def)
  have "visit_ok (vs k) s1" using v by (simp add: s1_def visit_ok_def)
  moreover have "getActiveBrokerIDs (aks k) s1 \<noteq> []"
  proof -
    have "range_ok (aks k) (Brokers s1)" using a b by (auto simp: s1_def range_ok_def)
    then show ?thesis using act by (simp add: eq getActiveBrokerIDs_Nil some_active_def)
  qed
  ultimately obtain q where q: "partition_of s1 n p = Some q"
    and el: "q' = elect_leader (Brokers s1) (getActiveBrokerIDs (aks k) s1) k q"
    using q' unfolding eq by (rule handleBrokerFailure_leader)
  show ?thesis
  proof (rule that)
    show "partition_of s n p = Some q" using q part by simp
    show "broker_active (Brokers (clean_broker aks vs now k s)) (LeaderID q') \<or>
      LeaderID q' = LeaderID q \<and> \<not> broker_active (Brokers s) (LeaderID q)"
    proof (cases "LeaderID q = k")
      case True
      then have "broker_active (Brokers s1) (LeaderID q')"
        unfolding el using \<open>getActiveBrokerIDs (aks k) s1 \<noteq> []\<close>
        by (intro elect_leader_active) (auto simp: set_getActiveBrokerIDs)
      then show ?thesis by (simp add: eq)
    next
      case False
      then have "LeaderID q' = LeaderID q" by (simp add: el elect_leader_keeps)
      with False show ?thesis by (auto simp: eq s1_def broker_active_def)
    qed
  qed
qed

text \<open>The whole loop, by induction on the visited brokers.\<close>

lemma fold_clean_leader:
  assumes "broker_ids_ok s" "\<forall>k. visit_ok (vs k) s" "\<forall>k. range_ok (aks k) (Brokers s)"
    and "some_active (fold (clean_broker aks vs now) bks s)"
    and "partition_of (fold (clean_broker aks vs now) bks s) n p = Some q'"
  shows "\<exists>q. partition_of s n p = Some q \<and>
    (broker_active (Brokers (fold (clean_broker aks vs now) bks s)) (LeaderID q') \<or>
     LeaderID q' = LeaderID q \<and> \<not> broker_active (Brokers s) (LeaderID q))"
  using assms
proof (induction bks arbitrary: s)
  case Nil
  then show ?case by auto
next
  case (Cons k bks)
  let ?s1 = "clean_broker aks vs now k s" and ?F = "fold (clean_broker aks vs now) bks"
  have "some_active ?s1"
    using Cons.prems(4) active_fold_clean [of aks vs now bks ?s1] by (auto simp: some_active_def)
  moreover have "\<exists>q1. partition_of ?s1 n p = Some q1 \<and>
    (broker_active (Brokers (?F ?s1)) (LeaderID q') \<or>
     LeaderID q' = LeaderID q1 \<and> \<not> broker_active (Brokers ?s1) (LeaderID q1))"
    by (rule Cons.IH) (use Cons.prems in \<open>simp_all add: broker_ids_clean_broker\<close>)
  then obtain q1 where q1: "partition_of ?s1 n p = Some q1"
    and 1: "broker_active (Brokers (?F ?s1)) (LeaderID q') \<or>
      LeaderID q' = LeaderID q1 \<and> \<not> broker_active (Brokers ?s1) (LeaderID q1)"
    by blast
  ultimately obtain q where "partition_of s n p = Some q"
    "broker_active (Brokers ?s1) (LeaderID q1) \<or>
     LeaderID q1 = LeaderID q \<and> \<not> broker_active (Brokers s) (LeaderID q)"
    using Cons.prems(1-3) q1 by (metis clean_broker_leader)
  with 1 show ?case by auto
qed

text \<open>
  A partition whose leader is inactive before the pass keeps it: the pass reacts to brokers
  that turn inactive only.
\<close>

lemma clean_broker_dead_leader:
  assumes "broker_ids_ok s" "\<not> broker_active (Brokers s) r"
    and "\<And>n p q. partition_of s n p = Some q \<Longrightarrow> P n p \<Longrightarrow> LeaderID q = r"
    and "partition_of (clean_broker aks vs now k s) n p = Some q" "P n p"
  shows "LeaderID q = r"
proof -
  have "LeaderID q = r"
    if "Brokers s k = Some b" "Active b" and
      q: "partition_of (handleBrokerFailure (aks k) (vs k) (ID b)
        (s\<lparr>Brokers := (Brokers s)(k \<mapsto> b\<lparr>Active := False\<rparr>)\<rparr>)) n p = Some q" for b
  proof -
    let ?s1 = "s\<lparr>Brokers := (Brokers s)(k \<mapsto> b\<lparr>Active := False\<rparr>)\<rparr>"
    have ne: "ID b \<noteq> r" using that(1,2) assms(1,2) by (auto simp: broker_ids_ok_def broker_active_def)
    from q show ?thesis
      using assms(3,5) ne
      by (auto simp: handleBrokerFailure_def Let_def elect_leader_keeps split: if_splits
          elim!: each_partition_invariant [where P = "\<lambda>n p q. P n p \<longrightarrow> LeaderID q = r", rotated 2, rule_format])
  qed
  with assms(3-5) show ?thesis
    by (auto simp: clean_broker_def split: option.splits if_splits)
qed

section \<open>Properties\<close>

text \<open>
  C11: failover.  A pass of \<open>clean_inactive\<close> deactivates exactly the active brokers that were
  silent for more than 8 seconds, and if a broker is active afterwards, every partition whose leader
  was active before the pass has an active leader after it.
\<close>

theorem clean_inactive_failover:
  fixes now now_isr :: time
  assumes "broker_ids_ok s" "range_ok bks (Brokers s)" "\<forall>k. range_ok (aks k) (Brokers s)"
    and "\<forall>k. visit_ok (vs k) s" "visit_ok v s"
  defines "s' \<equiv> clean_inactive bks aks vs now now_isr v s"
  shows "Brokers s' = (\<lambda>k. map_option (\<lambda>b. if Active b \<and> now - LastSeen b > seconds 8
             then b\<lparr>Active := False\<rparr> else b) (Brokers s k)) \<and>
    (some_active s' \<longrightarrow>
      (\<forall>n p q q'. partition_of s n p = Some q \<and> partition_of s' n p = Some q' \<and>
         broker_active (Brokers s) (LeaderID q) \<longrightarrow> broker_active (Brokers s') (LeaderID q')))"
proof (intro conjI impI allI; (elim conjE)?)
  let ?F = "fold (clean_broker aks vs now) bks s"
  have "Brokers s' k = map_option (expire now) (Brokers s k)" for k
    using assms(2) by (cases "Brokers s k") (auto simp: s'_def clean_inactive_def Brokers_fold_clean range_ok_def)
  then show "Brokers s' = (\<lambda>k. map_option (\<lambda>b. if Active b \<and> now - LastSeen b > seconds 8
      then b\<lparr>Active := False\<rparr> else b) (Brokers s k))"
    by (simp add: fun_eq_iff expire_def [abs_def])
  fix n p q q'
  assume act: "some_active s'" and q: "partition_of s n p = Some q"
    and q': "partition_of s' n p = Some q'" and l: "broker_active (Brokers s) (LeaderID q)"
  have "shape ?F = shape s" by (induction bks arbitrary: s) simp_all
  then have "visit_ok v ?F" using assms(5) by (simp add: visit_ok_shape)
  with q' obtain q1 where q1: "partition_of ?F n p = Some q1" "LeaderID q' = LeaderID q1"
    by (auto simp: s'_def clean_inactive_def partition_of_updateISRAndHW)
  have "some_active ?F" using act by (simp add: s'_def clean_inactive_def some_active_def)
  from fold_clean_leader [OF assms(1,4,3) this q1(1)] q l q1(2)
  show "broker_active (Brokers s') (LeaderID q')" by (auto simp: s'_def clean_inactive_def)
qed

text \<open>
  C26: the election.  When the leader of a partition fails while brokers are active, the new leader
  is the first replica in the list that is active and is not the failed broker, if its identifier is
  not 0; in every other case it is the first active broker.  Partitions led by other brokers
  stay as they are.
\<close>

theorem handleBrokerFailure_elects:
  assumes "visit_ok v s" "range_ok ks (Brokers s)" "some_active s" "partition_of s n p = Some q"
  shows "partition_of (handleBrokerFailure ks v failedID s) n p =
    Some (if LeaderID q \<noteq> failedID then q
          else q\<lparr>LeaderID :=
            (case find (\<lambda>r. r \<noteq> failedID \<and> broker_active (Brokers s) r) (ReplicaIDs q) of
               Some r \<Rightarrow> if r \<noteq> 0 then r else hd (getActiveBrokerIDs ks s)
             | None \<Rightarrow> hd (getActiveBrokerIDs ks s))\<rparr>)"
proof -
  have "getActiveBrokerIDs ks s \<noteq> []" using assms(2,3) by (simp add: getActiveBrokerIDs_Nil)
  with assms(1,4) show ?thesis
    by (simp add: handleBrokerFailure_def partition_of_each_partition elect_leader_def Let_def
        pick_replica_find hd_conv_nth split: option.split)
qed

text \<open>
  Replica 0.  If the only other active replica of a failed leader's partition is broker 0, it is
  taken for \<open>no replica found\<close>: the first active broker becomes the leader, even if it is not a
  replica of the partition.
\<close>

lemma replica_zero_overlooked:
  assumes "visit_ok v s" "range_ok ks (Brokers s)" "some_active s" "partition_of s n p = Some q"
    and "LeaderID q = failedID" "ReplicaIDs q = [failedID, 0]" "broker_active (Brokers s) 0"
  shows "\<exists>q'. partition_of (handleBrokerFailure ks v failedID s) n p = Some q' \<and>
    LeaderID q' = hd (getActiveBrokerIDs ks s)"
proof -
  have "getActiveBrokerIDs ks s \<noteq> []" using assms(2,3) by (simp add: getActiveBrokerIDs_Nil)
  with assms show ?thesis
    by (auto simp: handleBrokerFailure_def partition_of_each_partition elect_leader_def Let_def hd_conv_nth)
qed

text \<open>
  No second chance.  A partition whose leader is inactive already when the cleaning pass starts
  keeps that leader, whatever other brokers are active: a partition orphaned while no broker was
  active is not given a new leader when brokers come back.
\<close>

lemma orphan_keeps_leader:
  assumes "broker_ids_ok s" "visit_ok v s" "partition_of s n p = Some q"
    and "\<not> broker_active (Brokers s) (LeaderID q)"
  shows "\<exists>q'. partition_of (clean_inactive bks aks vs now now_isr v s) n p = Some q' \<and>
    LeaderID q' = LeaderID q"
proof -
  let ?r = "LeaderID q" and ?P = "\<lambda>n' p'. n' = n \<and> p' = p"
  let ?I = "\<lambda>s'. broker_ids_ok s' \<and> \<not> broker_active (Brokers s') ?r \<and> shape s' = shape s \<and>
    (\<forall>q'. partition_of s' n p = Some q' \<longrightarrow> LeaderID q' = ?r)"
  have "?I (fold (clean_broker aks vs now) bks s)"
  proof (rule fold_invariant_mem)
    show "?I s" using assms by simp
    show "?I (clean_broker aks vs now k s')" if I: "?I s'" for s' k
      using I broker_ids_clean_broker active_clean_broker
        clean_broker_dead_leader [of s' ?r ?P aks vs now k n p]
      by auto
  qed
  moreover have "partition_of (fold (clean_broker aks vs now) bks s) n p \<noteq> None"
    if "shape (fold (clean_broker aks vs now) bks s) = shape s"
    using partition_of_None_shape [OF that] assms(3) by simp
  ultimately show ?thesis
    using assms(2) by (auto simp: clean_inactive_def partition_of_updateISRAndHW visit_ok_shape)
qed

text \<open>Broker 3 of the sample cluster is silent at second 101 and leads a second partition.\<close>

definition led_by_3 :: ClusterState where
  "led_by_3 = sample_state\<lparr>Topics := [''t'' \<mapsto> \<lparr>Name = ''t'',
     Partitions = [0 \<mapsto> sample_partition\<lparr>LeaderID := 3, ReplicaIDs := [3, 2]\<rparr>]\<rparr>]\<rparr>"

lemma led_by_3_ok:
  "broker_ids_ok led_by_3" "range_ok [1, 2, 3] (Brokers led_by_3)" "visit_ok sample_visit led_by_3"
  "partition_of led_by_3 ''t'' 0 = Some (sample_partition\<lparr>LeaderID := 3, ReplicaIDs := [3, 2]\<rparr>)"
  by (auto simp: broker_ids_ok_def led_by_3_def sample_state_def sample_brokers_def range_ok_def
      visit_ok_def sample_visit_def partition_of_def split: if_splits)

lemma led_by_3_active: "broker_active (Brokers led_by_3) r \<longleftrightarrow> r = 1 \<or> r = 2 \<or> r = 3"
  by (simp add: led_by_3_def sample_state_def sample_brokers_def broker_active_def)

theorem clean_inactive_failover_witness:
  "\<not> broker_active (Brokers (clean_inactive [1, 2, 3] (\<lambda>_. [1, 2, 3]) (\<lambda>_. sample_visit)
     (seconds 101) (seconds 101) sample_visit led_by_3)) 3"
proof -
  have "Brokers (clean_inactive [1, 2, 3] (\<lambda>_. [1, 2, 3]) (\<lambda>_. sample_visit)
      (seconds 101) (seconds 101) sample_visit led_by_3) =
      (\<lambda>k. map_option (\<lambda>b. if Active b \<and> seconds 101 - LastSeen b > seconds 8
             then b\<lparr>Active := False\<rparr> else b) (Brokers led_by_3 k))"
    using led_by_3_ok by (intro clean_inactive_failover [THEN conjunct1]) simp_all
  then show ?thesis
    by (simp add: broker_active_def led_by_3_def sample_state_def sample_brokers_def seconds_def)
qed

theorem handleBrokerFailure_elects_witness:
  "\<exists>q'. partition_of (handleBrokerFailure [1, 2, 3] sample_visit 3 led_by_3) ''t'' 0 = Some q' \<and>
     LeaderID q' = 2"
proof -
  have "some_active led_by_3" unfolding some_active_def led_by_3_active by blast
  from handleBrokerFailure_elects [OF led_by_3_ok(3,2) this led_by_3_ok(4), of 3]
  show ?thesis by (simp add: led_by_3_active sample_partition_def)
qed

definition led_by_3_with_0 :: ClusterState where
  "led_by_3_with_0 = \<lparr>
     Brokers = sample_brokers(0 \<mapsto> \<lparr>ID = 0, Host = ''h0'', Port = 9090, LastSeen = seconds 100, Active = True\<rparr>),
     Topics = [''t'' \<mapsto> \<lparr>Name = ''t'',
       Partitions = [0 \<mapsto> sample_partition\<lparr>LeaderID := 3, ReplicaIDs := [3, 0]\<rparr>]\<rparr>],
     ConsumerGroups = Map.empty, Offsets = Map.empty\<rparr>"

lemma replica_zero_overlooked_example:
  "\<exists>q'. partition_of (handleBrokerFailure [1, 2, 3, 0] sample_visit 3 led_by_3_with_0) ''t'' 0 = Some q' \<and>
     LeaderID q' = 1"
proof -
  have "visit_ok sample_visit led_by_3_with_0"
    by (simp add: visit_ok_def range_ok_def sample_visit_def led_by_3_with_0_def)
  moreover have "range_ok [1, 2, 3, 0] (Brokers led_by_3_with_0)"
    by (auto simp: range_ok_def led_by_3_with_0_def sample_brokers_def)
  moreover have act: "broker_active (Brokers led_by_3_with_0) 0"
    by (simp add: broker_active_def led_by_3_with_0_def)
  moreover have "some_active led_by_3_with_0" using act by (auto simp: some_active_def)
  moreover have "partition_of led_by_3_with_0 ''t'' 0 =
      Some (sample_partition\<lparr>LeaderID := 3, ReplicaIDs := [3, 0]\<rparr>)"
    by (simp add: partition_of_def led_by_3_with_0_def)
  moreover have "hd (getActiveBrokerIDs [1, 2, 3, 0] led_by_3_with_0) = 1"
    by (simp add: getActiveBrokerIDs_def led_by_3_with_0_def sample_brokers_def)
  ultimately show ?thesis
    using replica_zero_overlooked [of sample_visit led_by_3_with_0 "[1, 2, 3, 0]" "''t''" 0 _ 3] by fastforce
qed

lemma orphan_keeps_leader_example:
  "\<exists>q'. partition_of (clean_inactive [1, 2] (\<lambda>_. [1, 2]) (\<lambda>_. sample_visit) (seconds 101)
      (seconds 101) sample_visit
      (led_by_3\<lparr>Brokers := (Brokers led_by_3)(3 := None)\<rparr>)) ''t'' 0 = Some q' \<and> LeaderID q' = 3"
proof -
  let ?s = "led_by_3\<lparr>Brokers := (Brokers led_by_3)(3 := None)\<rparr>"
  have "broker_ids_ok ?s" using led_by_3_ok(1) by (simp add: broker_ids_ok_def)
  moreover have "visit_ok sample_visit ?s" using led_by_3_ok(3) by (simp add: visit_ok_def)
  moreover have "partition_of ?s ''t'' 0 = Some (sample_partition\<lparr>LeaderID := 3, ReplicaIDs := [3, 2]\<rparr>)"
    using led_by_3_ok(4) by simp
  ultimately show ?thesis
    using orphan_keeps_leader [of ?s sample_visit "''t''" 0 _ "[1, 2]" "\<lambda>_. [1, 2]" "\<lambda>_. sample_visit"]
    by (fastforce simp: broker_active_def)
qed

end
