(* ===== verification/Topic_Admin.thy ===== *)
theory Topic_Admin
  imports Failover
begin

text \<open>
  The commands \<open>create_topic\<close> and \<open>assign_partitions\<close> of \<open>FSM.Apply\<close>.

  \<open>create_topic\<close> places the partitions round robin over the active brokers; the lemmas
  describe the placement (leader, replicas, distinctness, load).  \<open>assign_partitions\<close> stores
  partition states from the payload, which may hold nil pointers: then the code panics.
\<close>

section \<open>Payloads\<close>

record CreateTopicPayload =
  ct_Name :: string
  ct_Partitions :: u32
  ct_ReplicationFactor :: u32

record AssignPartitionsPayload =
  ap_Topic :: string
  ap_Partitions :: "u32 \<rightharpoonup> PartitionState option"

datatype go_panic = NilDereference

section \<open>Creating a topic\<close>

text \<open>
  \<open>int\<close> has 64 bits, so \<open>int(i) + int(r)\<close> does not overflow; \<open>len(activeBrokers)\<close> is
  converted to \<open>uint32\<close> in the guard of the inner loop.
\<close>

definition place_replicas :: "u32 list \<Rightarrow> u32 \<Rightarrow> u32 \<Rightarrow> u32 list" where
  "place_replicas activeBrokers rf i =
     (let n = length activeBrokers in
      map (\<lambda>r. activeBrokers ! ((unat i + r) mod n))
        [0..<min (unat rf) (unat (word_of_nat n :: u32))])"

definition new_partition :: "u32 list \<Rightarrow> u32 \<Rightarrow> u32 \<Rightarrow> PartitionState" where
  "new_partition activeBrokers rf i =
     (let leaderID = (if length activeBrokers > 0
                      then activeBrokers ! (unat i mod length activeBrokers) else 0);
          replicas = (if length activeBrokers > 0 then place_replicas activeBrokers rf i else [])
      in \<lparr>PartitionID = i, LeaderID = leaderID, ReplicaIDs = replicas, ISR = replicas,
          HighWatermark = 0,
          ReplicaOffsets = Some (fold (\<lambda>rID m. m(rID \<mapsto> 0)) replicas Map.empty)\<rparr>)"

definition new_topic :: "u32 list \<Rightarrow> CreateTopicPayload \<Rightarrow> TopicState" where
  "new_topic activeBrokers payload =
     \<lparr>Name = ct_Name payload,
      Partitions =
        fold (\<lambda>i m. m(word_of_nat i \<mapsto>
                new_partition activeBrokers (ct_ReplicationFactor payload) (word_of_nat i)))
          [0..<unat (ct_Partitions payload)] Map.empty\<rparr>"

definition create_topic ::
  "u32 list \<Rightarrow> time \<Rightarrow> visit \<Rightarrow> CreateTopicPayload \<Rightarrow> ClusterState \<Rightarrow> ClusterState"
where
  "create_topic ks now_isr v payload s =
     (case Topics s (ct_Name payload) of
        Some _ \<Rightarrow> s
      | None \<Rightarrow>
          updateISRAndHW now_isr v
            (s\<lparr>Topics := (Topics s)(ct_Name payload \<mapsto>
                new_topic (getActiveBrokerIDs ks s) payload)\<rparr>))"

section \<open>Assigning partitions\<close>

fun assign_loop ::
  "u32 list \<Rightarrow> (u32 \<rightharpoonup> PartitionState option) \<Rightarrow> (u32 \<rightharpoonup> PartitionState) \<Rightarrow>
   go_panic + (u32 \<rightharpoonup> PartitionState)"
where
  "assign_loop [] ps m = Inr m"
| "assign_loop (pID # ks) ps m =
     (case ps pID of
        None \<Rightarrow> assign_loop ks ps m
      | Some None \<Rightarrow> Inl NilDereference
      | Some (Some pState) \<Rightarrow>
          assign_loop ks ps (m(pID \<mapsto> pState\<lparr>ReplicaOffsets := Some (offsets_of pState)\<rparr>)))"

definition assign_partitions ::
  "u32 list \<Rightarrow> time \<Rightarrow> visit \<Rightarrow> AssignPartitionsPayload \<Rightarrow> ClusterState \<Rightarrow> go_panic + ClusterState"
where
  "assign_partitions pks now_isr v payload s =
     (case Topics s (ap_Topic payload) of
        None \<Rightarrow> Inr s
      | Some t \<Rightarrow>
          (case assign_loop pks (ap_Partitions payload) (Partitions t) of
             Inl e \<Rightarrow> Inl e
           | Inr ps \<Rightarrow>
               Inr (updateISRAndHW now_isr v
                 (s\<lparr>Topics := (Topics s)(ap_Topic payload \<mapsto> t\<lparr>Partitions := ps\<rparr>)\<rparr>))))"

section \<open>Placement\<close>

lemma fold_upd_range:
  "fold (\<lambda>i m. m(f i \<mapsto> g i)) xs m k =
     (if \<exists>i \<in> set xs. f i = k then Some (g (last (filter (\<lambda>i. f i = k) xs))) else m k)"
proof (induction xs rule: rev_induct)
  case (snoc x xs)
  then show ?case by auto
qed simp

lemma Partitions_new_topic:
  "Partitions (new_topic act payload) p =
     (if p < ct_Partitions payload then Some (new_partition act (ct_ReplicationFactor payload) p)
      else None)"
proof -
  let ?P = "ct_Partitions payload" and ?rf = "ct_ReplicationFactor payload"
  let ?f = "word_of_nat :: nat \<Rightarrow> u32"
  have inv: "?f i = p \<longleftrightarrow> i = unat p" if "i < unat ?P" for i
    using that unat_u32_less [of ?P] by (auto simp: unat_of_nat unsigned_of_nat take_bit_nat_eq_self)
  then have "filter (\<lambda>i. ?f i = p) [0..<unat ?P] = filter (\<lambda>i. i = unat p) [0..<unat ?P]"
    by (intro filter_cong) auto
  moreover have "unat p < unat ?P \<Longrightarrow> filter (\<lambda>i. i = unat p) [0..<unat ?P] = [unat p]"
    by (rule filter_eq_upt)
  moreover have "(\<exists>i \<in> set [0..<unat ?P]. ?f i = p) \<longleftrightarrow> unat p < unat ?P"
    using inv by auto
  ultimately show ?thesis
    by (simp add: new_topic_def fold_upd_range word_less_nat_alt)
qed

lemma zero_offsets:
  "fold (\<lambda>r m. m(r \<mapsto> 0)) rs m r = (if r \<in> set rs then Some (0 :: i64) else m r)"
  by (induction rs arbitrary: m) auto

lemma unat_length_u32: "length xs < 2 ^ 32 \<Longrightarrow> unat (word_of_nat (length xs) :: u32) = length xs"
  by (simp add: unsigned_of_nat take_bit_nat_eq_self)

lemma length_place_replicas:
  "length act < 2 ^ 32 \<Longrightarrow> length (place_replicas act rf i) = min (unat rf) (length act)"
  by (simp add: place_replicas_def Let_def unat_length_u32)

lemma set_place_replicas: "act \<noteq> [] \<Longrightarrow> set (place_replicas act rf i) \<subseteq> set act"
  by (auto simp: place_replicas_def Let_def)

lemma distinct_place_replicas:
  assumes "distinct act" "act \<noteq> []"
  shows "distinct (place_replicas act rf i)"
proof -
  define n where "n = min (unat rf) (unat (word_of_nat (length act) :: u32))"
  have n: "n \<le> length act" by (simp add: n_def unsigned_of_nat min.coboundedI2)
  have "inj_on (\<lambda>r. act ! ((unat i + r) mod length act)) {0..<n}"
  proof (rule inj_onI)
    fix r r'
    assume r: "r \<in> {0..<n}" "r' \<in> {0..<n}"
      and "act ! ((unat i + r) mod length act) = act ! ((unat i + r') mod length act)"
    with assms have "(unat i + r) mod length act = (unat i + r') mod length act"
      by (simp add: nth_eq_iff_index_eq)
    with r n show "r = r'" by (auto intro: mod_shift_inject [of r "length act" r' "unat i"])
  qed
  then show ?thesis by (simp add: place_replicas_def Let_def n_def distinct_map)
qed

lemma hd_place_replicas:
  assumes "act \<noteq> []" "length act < 2 ^ 32" "rf \<noteq> 0"
  shows "place_replicas act rf i \<noteq> []"
    and "hd (place_replicas act rf i) = act ! (unat i mod length act)"
proof -
  have "0 < min (unat rf) (length act)" using assms by (simp add: unat_gt_0)
  then show "place_replicas act rf i \<noteq> []"
    and "hd (place_replicas act rf i) = act ! (unat i mod length act)"
    using assms(2) by (simp_all add: place_replicas_def Let_def unat_length_u32 hd_map upt_conv_Cons)
qed

lemma new_partition_simps [simp]:
  "PartitionID (new_partition act rf i) = i"
  "HighWatermark (new_partition act rf i) = 0"
  "ISR (new_partition act rf i) = ReplicaIDs (new_partition act rf i)"
  "act \<noteq> [] \<Longrightarrow> LeaderID (new_partition act rf i) = act ! (unat i mod length act)"
  "act \<noteq> [] \<Longrightarrow> ReplicaIDs (new_partition act rf i) = place_replicas act rf i"
  "LeaderID (new_partition [] rf i) = 0"
  "ReplicaIDs (new_partition [] rf i) = []"
  by (simp_all add: new_partition_def Let_def)

lemma create_topic_frame [simp, frame_simps]:
  "Brokers (create_topic ks now v payload s) = Brokers s"
  "ConsumerGroups (create_topic ks now v payload s) = ConsumerGroups s"
  "Offsets (create_topic ks now v payload s) = Offsets s"
  by (simp_all add: create_topic_def split: option.splits)

text \<open>
  The visiting order of the final pass covers the partitions of the resulting state, which has
  the same keys as the state the pass starts from.
\<close>

lemma partition_of_create_topic:
  assumes "Topics s (ct_Name payload) = None" "visit_ok v (create_topic ks now v payload s)"
  shows "partition_of (create_topic ks now v payload s) n p =
    map_option (update_partition now (Brokers s))
      (if n = ct_Name payload
       then (if p < ct_Partitions payload
             then Some (new_partition (getActiveBrokerIDs ks s) (ct_ReplicationFactor payload) p)
             else None)
       else partition_of s n p)"
proof -
  let ?s1 = "s\<lparr>Topics := (Topics s)(ct_Name payload \<mapsto>
    new_topic (getActiveBrokerIDs ks s) payload)\<rparr>"
  have eq: "create_topic ks now v payload s = updateISRAndHW now v ?s1"
    using assms(1) by (simp add: create_topic_def)
  have "visit_ok v ?s1" using assms(2) unfolding eq updateISRAndHW_def by simp
  then show ?thesis
    unfolding eq
    by (simp add: partition_of_updateISRAndHW)
       (simp add: partition_of_def Partitions_new_topic)
qed

section \<open>Panics\<close>

lemma assign_loop_panics:
  "(\<exists>e. assign_loop ks ps m = Inl e) \<longleftrightarrow> (\<exists>k \<in> set ks. ps k = Some None)"
  by (induction ks arbitrary: m) (auto split: option.splits)

lemma assign_partitions_panics:
  assumes "range_ok pks (ap_Partitions payload)"
  shows "(\<exists>e. assign_partitions pks now v payload s = Inl e) \<longleftrightarrow>
    Topics s (ap_Topic payload) \<noteq> None \<and> None \<in> ran (ap_Partitions payload)"
proof (cases "Topics s (ap_Topic payload)")
  case None
  then show ?thesis by (simp add: assign_partitions_def)
next
  case (Some t)
  then have "(\<exists>e. assign_partitions pks now v payload s = Inl e) \<longleftrightarrow>
      (\<exists>e. assign_loop pks (ap_Partitions payload) (Partitions t) = Inl e)"
    by (auto simp: assign_partitions_def split: sum.splits)
  also have "\<dots> \<longleftrightarrow> None \<in> ran (ap_Partitions payload)"
    unfolding assign_loop_panics using assms by (auto simp: range_ok_def ran_def)
  finally show ?thesis using Some by simp
qed

section \<open>Properties\<close>

lemma create_topic_partition:
  assumes "Topics s (ct_Name payload) = None" "visit_ok v (create_topic ks now v payload s)"
    and "range_ok ks (Brokers s)" "some_active s" "p < ct_Partitions payload"
  obtains q where "partition_of (create_topic ks now v payload s) (ct_Name payload) p = Some q"
    "LeaderID q = getActiveBrokerIDs ks s ! (unat p mod length (getActiveBrokerIDs ks s))"
    "ReplicaIDs q = place_replicas (getActiveBrokerIDs ks s) (ct_ReplicationFactor payload) p"
  using assms
  by (simp add: partition_of_create_topic getActiveBrokerIDs_Nil)

text \<open>
  C14: placement.  A new topic has exactly the partitions below the requested number.  Each is led
  by the active broker that is next in the round, and its replicas are distinct active brokers, as
  many as the replication factor asks for or as there are active brokers, starting with the
  leader.
\<close>

theorem create_topic_placement:
  assumes "Topics s (ct_Name payload) = None" "visit_ok v (create_topic ks now v payload s)"
    and "range_ok ks (Brokers s)" "some_active s" "length (getActiveBrokerIDs ks s) < 2 ^ 32"
  defines "act \<equiv> getActiveBrokerIDs ks s"
  shows "(p < ct_Partitions payload \<longrightarrow>
      (\<exists>q. partition_of (create_topic ks now v payload s) (ct_Name payload) p = Some q \<and>
         LeaderID q = act ! (unat p mod length act) \<and>
         distinct (ReplicaIDs q) \<and> (\<forall>r \<in> set (ReplicaIDs q). broker_active (Brokers s) r) \<and>
         length (ReplicaIDs q) = min (unat (ct_ReplicationFactor payload)) (length act) \<and>
         (ct_ReplicationFactor payload \<noteq> 0 \<longrightarrow> hd (ReplicaIDs q) = LeaderID q))) \<and>
    (\<not> p < ct_Partitions payload \<longrightarrow>
      partition_of (create_topic ks now v payload s) (ct_Name payload) p = None)"
proof (intro conjI impI)
  assume "p < ct_Partitions payload"
  with assms(1-4) obtain q where
    q: "partition_of (create_topic ks now v payload s) (ct_Name payload) p = Some q"
    "LeaderID q = act ! (unat p mod length act)"
    "ReplicaIDs q = place_replicas act (ct_ReplicationFactor payload) p"
    unfolding act_def by (rule create_topic_partition)
  have ne: "act \<noteq> []" using assms(3,4) by (simp add: act_def getActiveBrokerIDs_Nil)
  have "distinct act" using assms(3) by (auto simp: act_def intro: distinct_getActiveBrokerIDs)
  moreover have "\<forall>r \<in> set act. broker_active (Brokers s) r" by (simp add: act_def set_getActiveBrokerIDs)
  moreover have "length act < 2 ^ 32" using assms(5) by (simp add: act_def)
  ultimately show "\<exists>q. partition_of (create_topic ks now v payload s) (ct_Name payload) p = Some q \<and>
       LeaderID q = act ! (unat p mod length act) \<and>
       distinct (ReplicaIDs q) \<and> (\<forall>r \<in> set (ReplicaIDs q). broker_active (Brokers s) r) \<and>
       length (ReplicaIDs q) = min (unat (ct_ReplicationFactor payload)) (length act) \<and>
       (ct_ReplicationFactor payload \<noteq> 0 \<longrightarrow> hd (ReplicaIDs q) = LeaderID q)"
    using ne q set_place_replicas [OF ne, of "ct_ReplicationFactor payload" p]
    by (intro exI [of _ q])
       (auto simp: length_place_replicas distinct_place_replicas hd_place_replicas(2))
next
  assume "\<not> p < ct_Partitions payload"
  with assms(1,2) show "partition_of (create_topic ks now v payload s) (ct_Name payload) p = None"
    by (simp add: partition_of_create_topic)
qed

text \<open>
  C34: balance.  Among \<open>k\<close> active brokers every one leads \<open>P div k\<close> or \<open>P div k + 1\<close> of the \<open>P\<close>
  partitions of a new topic.
\<close>

theorem create_topic_balanced:
  assumes "Topics s (ct_Name payload) = None" "visit_ok v (create_topic ks now v payload s)"
    and "range_ok ks (Brokers s)" "broker_active (Brokers s) b"
  defines "k \<equiv> length (getActiveBrokerIDs ks s)"
  shows "card {p. \<exists>q. partition_of (create_topic ks now v payload s) (ct_Name payload) p = Some q \<and> LeaderID q = b}
    \<in> {unat (ct_Partitions payload) div k, unat (ct_Partitions payload) div k + 1}"
proof -
  let ?act = "getActiveBrokerIDs ks s" and ?P = "ct_Partitions payload"
  have b: "b \<in> set ?act"
    using assms(3,4) broker_active_dom [OF assms(4)] by (auto simp: set_getActiveBrokerIDs range_ok_def)
  then obtain j where j: "j < k" "?act ! j = b" by (auto simp: in_set_conv_nth k_def)
  have dist: "distinct ?act" using assms(3) by (auto intro: distinct_getActiveBrokerIDs)
  have act: "some_active s" using assms(4) by (auto simp: some_active_def)
  have "{p. \<exists>q. partition_of (create_topic ks now v payload s) (ct_Name payload) p = Some q \<and> LeaderID q = b} =
      {p. p < ?P \<and> unat p mod k = j}"
  proof (intro set_eqI iffI; clarify)
    fix p q
    assume q: "partition_of (create_topic ks now v payload s) (ct_Name payload) p = Some q" "b = LeaderID q"
    then have P: "p < ?P" using assms(1,2) by (auto simp: partition_of_create_topic split: if_splits)
    with q have "?act ! (unat p mod k) = ?act ! j"
      using create_topic_partition [OF assms(1-3) act P] j(2) unfolding k_def by (metis option.inject)
    moreover have "unat p mod k < k" using j(1) by simp
    ultimately have "unat p mod k = j"
      using dist j(1) nth_eq_iff_index_eq [OF dist] by (simp add: k_def)
    with P show "p < ?P \<and> unat p mod k = j" by simp
  next
    fix p
    assume "p < ?P" "j = unat p mod k"
    with create_topic_partition [OF assms(1-3) act this(1)] j(2)
    show "\<exists>q. partition_of (create_topic ks now v payload s) (ct_Name payload) p = Some q \<and> LeaderID q = b"
      unfolding k_def by metis
  qed
  then show ?thesis using card_u32_mod_class [OF j(1), of ?P] by simp
qed

text \<open>
  Isolation.  Creating a topic that exists changes nothing; otherwise every partition of every
  other topic keeps its leader, replicas and offsets.
\<close>

lemma create_topic_isolated:
  assumes "visit_ok v (create_topic ks now v payload s)"
  shows "(Topics s (ct_Name payload) \<noteq> None \<longrightarrow> create_topic ks now v payload s = s) \<and>
    (\<forall>n p q. n \<noteq> ct_Name payload \<longrightarrow> partition_of s n p = Some q \<longrightarrow>
      (\<exists>q'. partition_of (create_topic ks now v payload s) n p = Some q' \<and>
         LeaderID q' = LeaderID q \<and> ReplicaIDs q' = ReplicaIDs q \<and> offsets_of q' = offsets_of q))"
proof (cases "Topics s (ct_Name payload)")
  case None
  then show ?thesis using assms by (simp add: partition_of_create_topic)
next
  case (Some t)
  then have "create_topic ks now v payload s = s" by (simp add: create_topic_def)
  then show ?thesis by simp
qed

text \<open>
  The panic.  \<open>assign_partitions\<close> on a topic that exists ends in a nil dereference exactly
  when the payload holds a null partition; on an unknown topic it never does.
\<close>

lemma assign_partitions_panic_iff:
  assumes "range_ok pks (ap_Partitions payload)"
  shows "assign_partitions pks now v payload s = Inl NilDereference \<longleftrightarrow>
    Topics s (ap_Topic payload) \<noteq> None \<and> (\<exists>p. ap_Partitions payload p = Some None)"
proof -
  have "e = NilDereference" for e :: go_panic by (cases e) simp
  then have "assign_partitions pks now v payload s = Inl NilDereference \<longleftrightarrow>
      (\<exists>e. assign_partitions pks now v payload s = Inl e)" by metis
  then show ?thesis by (simp add: assign_partitions_panics [OF assms] ran_def)
qed

text \<open>The sample cluster, before and after the creation of a topic with two partitions.\<close>

definition sample_create :: CreateTopicPayload where
  "sample_create = \<lparr>ct_Name = ''orders'', ct_Partitions = 2, ct_ReplicationFactor = 2\<rparr>"

definition two_topics :: visit where
  "two_topics = \<lparr>v_topics = [''t'', ''orders''], v_parts = (\<lambda>n. if n = ''t'' then [0] else [1, 0])\<rparr>"

lemma sample_active: "getActiveBrokerIDs [3, 1, 2] sample_state = [3, 1, 2]"
  by (simp add: getActiveBrokerIDs_def sample_state_def sample_brokers_def)

lemma sample_create_new: "Topics sample_state (ct_Name sample_create) = None"
  by (simp add: sample_state_def sample_create_def)

lemma sample_brokers_range: "range_ok [3, 1, 2] (Brokers sample_state)"
  by (auto simp: range_ok_def sample_state_def sample_brokers_def)

lemma sample_some_active: "broker_active (Brokers sample_state) 1"
  by (simp add: broker_active_def sample_state_def sample_brokers_def)

lemma sample_create_visit: "visit_ok two_topics (create_topic [3, 1, 2] 0 two_topics sample_create sample_state)"
proof -
  have "dom (Partitions (new_topic act sample_create)) = {1, 0}" for act
    by (auto simp: dom_def Partitions_new_topic sample_create_def u32_less_2)
  then have "visit_ok two_topics (sample_state\<lparr>Topics := (Topics sample_state)
      (ct_Name sample_create \<mapsto> new_topic act sample_create)\<rparr>)" for act
    by (auto simp: visit_ok_def range_ok_def two_topics_def sample_state_def)
       (simp_all add: sample_create_def)
  then show ?thesis
    using sample_create_new by (simp add: create_topic_def updateISRAndHW_def)
qed

theorem create_topic_placement_witness:
  "\<exists>q. partition_of (create_topic [3, 1, 2] 0 two_topics sample_create sample_state) ''orders'' 1 = Some q \<and>
     LeaderID q = 1 \<and> length (ReplicaIDs q) = 2 \<and> hd (ReplicaIDs q) = 1"
proof -
  have "some_active sample_state" using sample_some_active by (auto simp: some_active_def)
  from create_topic_placement [OF sample_create_new sample_create_visit sample_brokers_range this, of 1]
  show ?thesis by (simp add: sample_active sample_create_def) force
qed

theorem create_topic_balanced_witness:
  "card {p. \<exists>q. partition_of (create_topic [3, 1, 2] 0 two_topics sample_create sample_state) ''orders'' p = Some q
      \<and> LeaderID q = 1} \<in> {0, 1}"
  using create_topic_balanced [OF sample_create_new sample_create_visit sample_brokers_range sample_some_active]
  by (simp add: sample_active sample_create_def)

lemma create_topic_isolated_example:
  "\<exists>q'. partition_of (create_topic [3, 1, 2] 0 two_topics sample_create sample_state) ''t'' 0 = Some q' \<and>
     LeaderID q' = 1"
  using create_topic_isolated [OF sample_create_visit] sample_partition_of
  by (force simp: sample_create_def sample_partition_def)

lemma assign_partitions_panic_iff_example:
  "assign_partitions [4] 0 sample_visit \<lparr>ap_Topic = ''t'', ap_Partitions = [4 \<mapsto> None]\<rparr> sample_state =
     Inl NilDereference"
  using assign_partitions_panic_iff [of "[4]" "\<lparr>ap_Topic = ''t'', ap_Partitions = [4 \<mapsto> None]\<rparr>" 0 sample_visit sample_state]
  by (simp add: range_ok_def sample_state_def)

end
