(* ===== verification/Consumer_Groups.thy ===== *)
theory Consumer_Groups
  imports Cluster_State
begin

text \<open>
  Consumer groups: the command \<open>join_consumer_group\<close> of \<open>FSM.Apply\<close> and
  \<open>FSM.rebalanceGroup\<close>, which distributes the partitions of every subscribed topic round
  robin over the subscribed members.

  The central fact is \<open>assigned_iff\<close>: a member gets exactly those partitions of a topic whose
  number, modulo the number of subscriptions, is a position of the member in the topic's
  subscriber list.  That every partition has exactly one owner, that owners subscribe to what
  they own, and that the load is balanced follow from it.
\<close>

section \<open>Operations\<close>

record JoinGroupPayload =
  jg_GroupID :: string
  jg_MemberID :: string
  jg_Topics :: "string list"

text \<open>\<open>m[k] = append(m[k], x)\<close>, where an absent entry reads as the nil slice.\<close>

definition get_slice :: "('k \<rightharpoonup> 'a list) \<Rightarrow> 'k \<Rightarrow> 'a list" where
  "get_slice m k = (case m k of None \<Rightarrow> [] | Some xs \<Rightarrow> xs)"

definition append_entry :: "'k \<Rightarrow> 'a \<Rightarrow> ('k \<rightharpoonup> 'a list) \<Rightarrow> ('k \<rightharpoonup> 'a list)" where
  "append_entry k x m = m(k \<mapsto> get_slice m k @ [x])"

definition topic_to_members :: "string list \<Rightarrow> (string \<rightharpoonup> GroupMember) \<Rightarrow> (string \<rightharpoonup> string list)" where
  "topic_to_members mks members =
     fold (\<lambda>(memberID, member). fold (\<lambda>topic. append_entry topic memberID) (GM_Topics member))
       (range_entries mks members) Map.empty"

definition assign_topic ::
  "(string \<Rightarrow> u32 list) \<Rightarrow> ClusterState \<Rightarrow> string \<Rightarrow> string list \<Rightarrow>
   (string \<rightharpoonup> PartitionTopic list) \<Rightarrow> (string \<rightharpoonup> PartitionTopic list)"
where
  "assign_topic gps s topicName memberIDs asg =
     (if length memberIDs = 0 then asg
      else case Topics s topicName of
             None \<Rightarrow> asg
           | Some topic \<Rightarrow>
               fold (\<lambda>(pID, _). append_entry (memberIDs ! (unat pID mod length memberIDs))
                        \<lparr>Topic = topicName, Partition = pID\<rparr>)
                 (range_entries (gps topicName) (Partitions topic)) asg)"

definition rebalanceGroup ::
  "string list \<Rightarrow> string list \<Rightarrow> (string \<Rightarrow> u32 list) \<Rightarrow> ClusterState \<Rightarrow>
   ConsumerGroupState \<Rightarrow> ConsumerGroupState"
where
  "rebalanceGroup mks tks gps s g =
     g\<lparr>Generation := Generation g + 1,
       Assignments :=
         fold (\<lambda>(topicName, memberIDs). assign_topic gps s topicName memberIDs)
           (range_entries tks (topic_to_members mks (Members g))) Map.empty\<rparr>"

definition join_consumer_group ::
  "time \<Rightarrow> string list \<Rightarrow> string list \<Rightarrow> (string \<Rightarrow> u32 list) \<Rightarrow> JoinGroupPayload \<Rightarrow>
   ClusterState \<Rightarrow> ClusterState"
where
  "join_consumer_group now mks tks gps payload s =
     (let g = (case ConsumerGroups s (jg_GroupID payload) of
                 Some g \<Rightarrow> g
               | None \<Rightarrow> \<lparr>GroupID = jg_GroupID payload, Generation = 0, Members = Map.empty,
                          Assignments = Map.empty\<rparr>);
          g = g\<lparr>Members := (Members g)(jg_MemberID payload \<mapsto>
                  \<lparr>GM_ID = jg_MemberID payload, GM_Topics = jg_Topics payload, GM_LastSeen = now\<rparr>)\<rparr>
      in s\<lparr>ConsumerGroups := (ConsumerGroups s)(jg_GroupID payload \<mapsto>
             rebalanceGroup mks tks gps s g)\<rparr>)"

text \<open>The visiting orders of one rebalance.\<close>

definition rebalance_ok ::
  "string list \<Rightarrow> string list \<Rightarrow> (string \<Rightarrow> u32 list) \<Rightarrow> ClusterState \<Rightarrow> ConsumerGroupState \<Rightarrow> bool"
where
  "rebalance_ok mks tks gps s g \<longleftrightarrow>
     range_ok mks (Members g) \<and>
     range_ok tks (topic_to_members mks (Members g)) \<and>
     (\<forall>n t. Topics s n = Some t \<longrightarrow> range_ok (gps n) (Partitions t))"

section \<open>Subscriber lists\<close>

lemma get_slice_empty [simp]: "get_slice Map.empty k = []"
  by (simp add: get_slice_def)

lemma get_slice_append_entry [simp]:
  "get_slice (append_entry k x m) k' = get_slice m k' @ (if k' = k then [x] else [])"
  by (simp add: get_slice_def append_entry_def split: option.splits)

lemma get_slice_subscribe:
  "get_slice (fold (\<lambda>t. append_entry t m) ts tm) t = get_slice tm t @ replicate (count_list ts t) m"
  by (induction ts arbitrary: tm) (auto simp: replicate_append_same)

definition subscriptions :: "(string \<times> GroupMember) list \<Rightarrow> string \<Rightarrow> string list" where
  "subscriptions es t = concat (map (\<lambda>(m, gm). replicate (count_list (GM_Topics gm) t) m) es)"

lemma get_slice_subscribe_all:
  "get_slice (fold (\<lambda>(m, gm). fold (\<lambda>t. append_entry t m) (GM_Topics gm)) es tm) t =
     get_slice tm t @ subscriptions es t"
  by (induction es arbitrary: tm) (auto simp: subscriptions_def get_slice_subscribe)

lemma get_slice_topic_to_members:
  "get_slice (topic_to_members mks members) t = subscriptions (range_entries mks members) t"
  by (simp add: topic_to_members_def get_slice_subscribe_all)

lemma set_subscriptions:
  "set (subscriptions es t) = {m. \<exists>gm. (m, gm) \<in> set es \<and> t \<in> set (GM_Topics gm)}"
  by (auto simp: subscriptions_def set_replicate_conv_if count_list_0_iff split: if_splits)

definition subscribes :: "(string \<rightharpoonup> GroupMember) \<Rightarrow> string \<Rightarrow> string \<Rightarrow> bool" where
  "subscribes members t m \<longleftrightarrow> (\<exists>gm. members m = Some gm \<and> t \<in> set (GM_Topics gm))"

lemma set_topic_to_members:
  "range_ok mks members \<Longrightarrow>
     set (get_slice (topic_to_members mks members) t) = {m. subscribes members t m}"
  by (simp add: get_slice_topic_to_members set_subscriptions range_simps subscribes_def)

lemma distinct_subscriptions:
  assumes "distinct (map fst es)" "\<forall>(m, gm) \<in> set es. count_list (GM_Topics gm) t \<le> 1"
  shows "distinct (subscriptions es t)"
  using assms
proof (induction es)
  case Nil
  then show ?case by (simp add: subscriptions_def)
next
  case (Cons e es)
  obtain m gm where e: "e = (m, gm)" by (cases e) auto
  have sub: "subscriptions (e # es) t = replicate (count_list (GM_Topics gm) t) m @ subscriptions es t"
    by (simp add: subscriptions_def e)
  have "m \<notin> set (subscriptions es t)"
    using Cons.prems(1) by (force simp: e set_subscriptions)
  moreover have "count_list (GM_Topics gm) t = 0 \<or> count_list (GM_Topics gm) t = 1"
    using Cons.prems(2) by (auto simp: e)
  ultimately show ?case using Cons by (auto simp: sub)
qed

section \<open>Assignments\<close>

text \<open>The partitions of one topic that one member gets, in order.\<close>

definition share ::
  "(string \<Rightarrow> u32 list) \<Rightarrow> ClusterState \<Rightarrow> string \<Rightarrow> string list \<Rightarrow> string \<Rightarrow> PartitionTopic list"
where
  "share gps s t ms m =
     (if ms = [] then []
      else case Topics s t of
             None \<Rightarrow> []
           | Some topic \<Rightarrow>
               map (\<lambda>p. \<lparr>Topic = t, Partition = p\<rparr>)
                 (filter (\<lambda>p. ms ! (unat p mod length ms) = m)
                   (map fst (range_entries (gps t) (Partitions topic)))))"

lemma get_slice_assign_fold:
  "get_slice (fold (\<lambda>(p, _). append_entry (f p) \<lparr>Topic = t, Partition = p\<rparr>) es asg) m =
     get_slice asg m @ map (\<lambda>p. \<lparr>Topic = t, Partition = p\<rparr>) (filter (\<lambda>p. f p = m) (map fst es))"
  by (induction es arbitrary: asg) auto

lemma get_slice_assign_topic:
  "get_slice (assign_topic gps s t ms asg) m = get_slice asg m @ share gps s t ms m"
  by (simp add: assign_topic_def share_def get_slice_assign_fold split: option.splits)

lemma get_slice_rebalance_fold:
  "get_slice (fold (\<lambda>(t, ms). assign_topic gps s t ms) es asg) m =
     get_slice asg m @ concat (map (\<lambda>(t, ms). share gps s t ms m) es)"
  by (induction es arbitrary: asg) (auto simp: get_slice_assign_topic)

lemma get_slice_rebalanceGroup:
  "get_slice (Assignments (rebalanceGroup mks tks gps s g)) m =
     concat (map (\<lambda>(t, ms). share gps s t ms m)
       (range_entries tks (topic_to_members mks (Members g))))"
  by (simp add: rebalanceGroup_def get_slice_rebalance_fold)

lemma Topic_share: "pt \<in> set (share gps s t ms m) \<Longrightarrow> Topic pt = t"
  by (auto simp: share_def split: option.splits if_splits)

text \<open>Who owns what.\<close>

lemma share_iff:
  assumes "rebalance_ok mks tks gps s g"
  shows "pt \<in> set (share gps s t ms m) \<longleftrightarrow>
    Topic pt = t \<and> ms \<noteq> [] \<and> partition_of s t (Partition pt) \<noteq> None \<and>
    ms ! (unat (Partition pt) mod length ms) = m"
proof (cases "Topics s t")
  case None
  then show ?thesis by (simp add: share_def partition_of_def)
next
  case (Some topic)
  with assms have "range_ok (gps t) (Partitions topic)" by (simp add: rebalance_ok_def)
  with Some show ?thesis
    by (cases pt) (auto simp: share_def partition_of_def range_entries_keys range_ok_mem)
qed

lemma assigned_iff:
  assumes ok: "rebalance_ok mks tks gps s g"
  defines "ms \<equiv> \<lambda>t. get_slice (topic_to_members mks (Members g)) t"
  shows "pt \<in> set (get_slice (Assignments (rebalanceGroup mks tks gps s g)) m) \<longleftrightarrow>
    ms (Topic pt) \<noteq> [] \<and> partition_of s (Topic pt) (Partition pt) \<noteq> None \<and>
    ms (Topic pt) ! (unat (Partition pt) mod length (ms (Topic pt))) = m"
proof -
  have "range_ok tks (topic_to_members mks (Members g))"
    using ok by (simp add: rebalance_ok_def)
  then have "pt \<in> set (get_slice (Assignments (rebalanceGroup mks tks gps s g)) m) \<longleftrightarrow>
      (\<exists>l. topic_to_members mks (Members g) (Topic pt) = Some l \<and> l \<noteq> [] \<and>
        partition_of s (Topic pt) (Partition pt) \<noteq> None \<and>
        l ! (unat (Partition pt) mod length l) = m)"
    by (auto simp: get_slice_rebalanceGroup range_simps share_iff [OF ok])
  also have "\<dots> \<longleftrightarrow> ms (Topic pt) \<noteq> [] \<and> partition_of s (Topic pt) (Partition pt) \<noteq> None \<and>
      ms (Topic pt) ! (unat (Partition pt) mod length (ms (Topic pt))) = m"
    by (auto simp: ms_def get_slice_def split: option.splits)
  finally show ?thesis .
qed

lemma assigned_subscribes:
  assumes ok: "rebalance_ok mks tks gps s g"
    and "pt \<in> set (get_slice (Assignments (rebalanceGroup mks tks gps s g)) m)"
  shows "subscribes (Members g) (Topic pt) m" "partition_of s (Topic pt) (Partition pt) \<noteq> None"
proof -
  let ?ms = "get_slice (topic_to_members mks (Members g)) (Topic pt)"
  from assms(2) have *: "?ms \<noteq> []" "?ms ! (unat (Partition pt) mod length ?ms) = m"
    and "partition_of s (Topic pt) (Partition pt) \<noteq> None"
    unfolding assigned_iff [OF ok] by auto
  then show "partition_of s (Topic pt) (Partition pt) \<noteq> None" by blast
  have "m \<in> set ?ms" using * nth_mem [of "unat (Partition pt) mod length ?ms" ?ms] by auto
  with ok show "subscribes (Members g) (Topic pt) m"
    by (simp add: set_topic_to_members rebalance_ok_def)
qed

lemma distinct_shares:
  assumes ok: "rebalance_ok mks tks gps s g"
  shows "distinct (map fst es) \<Longrightarrow> distinct (concat (map (\<lambda>(t, ms). share gps s t ms m) es))"
proof (induction es)
  case (Cons e es)
  obtain t ms where e: "e = (t, ms)" by (cases e) auto
  have "distinct (share gps s t ms m)"
    using ok by (auto simp: share_def rebalance_ok_def range_entries_keys distinct_map inj_on_def
        intro: distinct_filter split: option.splits)
  moreover have "set (share gps s t ms m) \<inter> set (concat (map (\<lambda>(t, ms). share gps s t ms m) es)) = {}"
    using Cons.prems by (force simp: e share_iff [OF ok])
  ultimately show ?case using Cons by (simp add: e)
qed simp

lemma distinct_assigned:
  assumes "rebalance_ok mks tks gps s g"
  shows "distinct (get_slice (Assignments (rebalanceGroup mks tks gps s g)) m)"
  unfolding get_slice_rebalanceGroup
  using assms by (intro distinct_shares distinct_range_entries) (auto simp: rebalance_ok_def)

section \<open>Properties\<close>

text \<open>
  C13: a rebalance gives every existing partition of a topic to exactly one member when somebody
  subscribes to the topic, and to nobody otherwise; the owner subscribes to the topic; no
  member gets a partition twice, nor one that does not exist.
\<close>

theorem rebalance_exactly_one_owner:
  assumes "rebalance_ok mks tks gps s g"
  defines "asg \<equiv> \<lambda>m. get_slice (Assignments (rebalanceGroup mks tks gps s g)) m"
  shows "(\<forall>t p. (\<exists>m. subscribes (Members g) t m) \<and> partition_of s t p \<noteq> None \<longrightarrow>
      (\<exists>!m. \<lparr>Topic = t, Partition = p\<rparr> \<in> set (asg m))) \<and>
    (\<forall>m pt. pt \<in> set (asg m) \<longrightarrow>
      subscribes (Members g) (Topic pt) m \<and> partition_of s (Topic pt) (Partition pt) \<noteq> None) \<and>
    (\<forall>m. distinct (asg m))"
proof (intro conjI allI impI; (elim conjE)?)
  fix t p
  assume sub: "\<exists>m. subscribes (Members g) t m" and p: "partition_of s t p \<noteq> None"
  have "get_slice (topic_to_members mks (Members g)) t \<noteq> []"
    using sub assms(1) set_topic_to_members [of mks "Members g" t]
    by (auto simp: rebalance_ok_def)
  with p show "\<exists>!m. \<lparr>Topic = t, Partition = p\<rparr> \<in> set (asg m)"
    by (simp add: asg_def assigned_iff [OF assms(1)])
qed (use assigned_subscribes [OF assms(1)] distinct_assigned [OF assms(1)] in \<open>auto simp: asg_def\<close>)

text \<open>
  C35: the load is balanced.  When no member lists a topic twice, each of the \<open>k\<close> subscribers of
  a topic with partitions \<open>0 .. P-1\<close> owns \<open>P div k\<close> or \<open>P div k + 1\<close> of them.
\<close>

theorem rebalance_balanced:
  assumes ok: "rebalance_ok mks tks gps s g"
    and parts: "\<forall>p. partition_of s t p \<noteq> None \<longleftrightarrow> p < P"
    and once: "\<forall>m gm. Members g m = Some gm \<longrightarrow> count_list (GM_Topics gm) t \<le> 1"
    and sub: "subscribes (Members g) t m"
  defines "k \<equiv> card {m. subscribes (Members g) t m}"
  shows "card {p. \<lparr>Topic = t, Partition = p\<rparr> \<in> set (get_slice (Assignments (rebalanceGroup mks tks gps s g)) m)}
    \<in> {unat P div k, unat P div k + 1}"
proof -
  let ?ms = "get_slice (topic_to_members mks (Members g)) t"
  have range: "range_ok mks (Members g)" using ok by (simp add: rebalance_ok_def)
  then have set: "set ?ms = {m. subscribes (Members g) t m}" by (rule set_topic_to_members)
  have dist: "distinct ?ms"
    unfolding get_slice_topic_to_members
    using once range by (intro distinct_subscriptions distinct_range_entries)
      (auto simp: range_entries_ok)
  then have k: "k = length ?ms" unfolding k_def set [symmetric] by (rule distinct_card)
  from sub set obtain j where j: "j < k" "?ms ! j = m" by (metis in_set_conv_nth k mem_Collect_eq)
  have "?ms ! (n mod k) = m \<longleftrightarrow> n mod k = j" for n
  proof -
    have "n mod k < k" using j(1) by (intro mod_less_divisor) linarith
    then show ?thesis using nth_eq_iff_index_eq [OF dist, of "n mod k" j] j k by auto
  qed
  then have "{p. \<lparr>Topic = t, Partition = p\<rparr> \<in> set (get_slice (Assignments (rebalanceGroup mks tks gps s g)) m)} =
      {p. p < P \<and> unat p mod k = j}"
    using j parts by (auto simp: assigned_iff [OF ok] k)
  then show ?thesis using card_u32_mod_class [OF j(1), of P] by simp
qed

text \<open>
  Joining.  The member is recorded with its topics and the time, the generation advances by
  one (modulo \<open>2^32\<close>), the other members stay, and so do all other groups, the topics, the brokers
  and the offsets.
\<close>

lemma join_consumer_group_effect:
  defines "old \<equiv> \<lambda>s gid. case ConsumerGroups s gid of None \<Rightarrow> (0, Map.empty) | Some g \<Rightarrow> (Generation g, Members g)"
  shows "\<exists>g. ConsumerGroups (join_consumer_group now mks tks gps p s) =
        (ConsumerGroups s)(jg_GroupID p \<mapsto> g) \<and>
      Generation g = fst (old s (jg_GroupID p)) + 1 \<and>
      Members g = (snd (old s (jg_GroupID p)))(jg_MemberID p \<mapsto>
        \<lparr>GM_ID = jg_MemberID p, GM_Topics = jg_Topics p, GM_LastSeen = now\<rparr>) \<and>
      Topics (join_consumer_group now mks tks gps p s) = Topics s \<and>
      Brokers (join_consumer_group now mks tks gps p s) = Brokers s \<and>
      Offsets (join_consumer_group now mks tks gps p s) = Offsets s"
  by (cases "ConsumerGroups s (jg_GroupID p)")
     (auto simp: join_consumer_group_def Let_def rebalanceGroup_def old_def)

text \<open>Two members share the two partitions of a topic.\<close>

definition pair_group :: ConsumerGroupState where
  "pair_group = \<lparr>GroupID = ''g'', Generation = 3,
     Members = [''a'' \<mapsto> \<lparr>GM_ID = ''a'', GM_Topics = [''t''], GM_LastSeen = 0\<rparr>,
                ''b'' \<mapsto> \<lparr>GM_ID = ''b'', GM_Topics = [''t''], GM_LastSeen = 0\<rparr>],
     Assignments = Map.empty\<rparr>"

definition pair_partition :: "u32 \<Rightarrow> PartitionState" where
  "pair_partition p = \<lparr>PartitionID = p, LeaderID = 1, ReplicaIDs = [1], ISR = [1], HighWatermark = 0,
     ReplicaOffsets = Some Map.empty\<rparr>"

definition pair_state :: ClusterState where
  "pair_state = NewFSM\<lparr>Topics := [''t'' \<mapsto> \<lparr>Name = ''t'',
     Partitions = [0 \<mapsto> pair_partition 0, 1 \<mapsto> pair_partition 1]\<rparr>]\<rparr>"

lemma pair_ok: "rebalance_ok [''b'', ''a''] [''t''] (\<lambda>_. [1, 0]) pair_state pair_group"
  by (auto simp: rebalance_ok_def range_ok_def pair_group_def pair_state_def topic_to_members_def
      append_entry_def split: if_splits)

lemma pair_partitions: "partition_of pair_state t p \<noteq> None \<longleftrightarrow> t = ''t'' \<and> (p = 0 \<or> p = 1)"
  by (simp add: partition_of_def pair_state_def)

lemma pair_subscribes: "subscribes (Members pair_group) t m \<longleftrightarrow> t = ''t'' \<and> (m = ''a'' \<or> m = ''b'')"
  by (auto simp: subscribes_def pair_group_def)

theorem rebalance_exactly_one_owner_witness:
  "\<exists>!m. \<lparr>Topic = ''t'', Partition = 1\<rparr> \<in> set (get_slice (Assignments
     (rebalanceGroup [''b'', ''a''] [''t''] (\<lambda>_. [1, 0]) pair_state pair_group)) m)"
proof -
  have "(\<exists>m. subscribes (Members pair_group) ''t'' m) \<and> partition_of pair_state ''t'' 1 \<noteq> None"
    unfolding pair_partitions pair_subscribes by blast
  with rebalance_exactly_one_owner [OF pair_ok, THEN conjunct1, THEN spec, THEN spec] show ?thesis
    by (rule mp)
qed

theorem rebalance_balanced_witness:
  "card {p. \<lparr>Topic = ''t'', Partition = p\<rparr> \<in> set (get_slice (Assignments
     (rebalanceGroup [''b'', ''a''] [''t''] (\<lambda>_. [1, 0]) pair_state pair_group)) ''a'')} \<in> {1, 2}"
proof -
  have "{m. subscribes (Members pair_group) ''t'' m} = {''a'', ''b''}"
    unfolding pair_subscribes by auto
  then have "card {m. subscribes (Members pair_group) ''t'' m} = 2" by simp
  moreover have "\<forall>m gm. Members pair_group m = Some gm \<longrightarrow> count_list (GM_Topics gm) ''t'' \<le> 1"
    by (auto simp: pair_group_def)
  moreover have "\<forall>p. partition_of pair_state ''t'' p \<noteq> None \<longleftrightarrow> p < 2"
    unfolding pair_partitions u32_less_2 by simp
  moreover have "unat (2 :: u32) div 2 = 1" by simp
  ultimately show ?thesis
    using rebalance_balanced [OF pair_ok, of "''t''" 2 "''a''"]
    by (simp only: pair_subscribes) auto
qed

end
