(* ===== verification/Group_Offsets.thy ===== *)
theory Group_Offsets
  imports Cluster_State UTF8
begin

text \<open>
  Committed offsets: the command \<open>commit_offset\<close> of \<open>FSM.Apply\<close> and \<open>FSM.GetOffset\<close>.  The
  offsets of all groups share one map whose key concatenates group, topic and partition; the
  partition is converted with \<open>string(rune(partition))\<close>, so it contributes one UTF-8 encoded
  code point and not its decimal digits.
\<close>

section \<open>Operations\<close>

record CommitOffsetPayload =
  co_GroupID :: string
  co_Topic :: string
  co_Partition :: u32
  co_Offset :: i64

definition offset_key :: "string \<Rightarrow> string \<Rightarrow> u32 \<Rightarrow> string" where
  "offset_key groupID topic part =
     groupID @ ''/'' @ topic @ ''/'' @ string_of_rune part"

definition commit_offset :: "CommitOffsetPayload \<Rightarrow> ClusterState \<Rightarrow> ClusterState" where
  "commit_offset payload s =
     s\<lparr>Offsets := (Offsets s)
         (offset_key (co_GroupID payload) (co_Topic payload) (co_Partition payload) \<mapsto>
            co_Offset payload)\<rparr>"

definition GetOffset :: "string \<Rightarrow> string \<Rightarrow> u32 \<Rightarrow> ClusterState \<Rightarrow> i64" where
  "GetOffset groupID topic part s =
     (case Offsets s (offset_key groupID topic part) of
        Some val \<Rightarrow> val
      | None \<Rightarrow> - 1)"

section \<open>Keys\<close>

lemma append_sep_inject:
  assumes "c \<notin> set xs" "c \<notin> set ys"
  shows "xs @ c # us = ys @ c # vs \<longleftrightarrow> xs = ys \<and> us = vs"
  using assms
proof (induction xs arbitrary: ys)
  case Nil
  then show ?case by (cases ys) auto
next
  case (Cons x xs)
  then show ?case by (cases ys) auto
qed

definition slash_free :: "string \<Rightarrow> bool" where
  "slash_free s \<longleftrightarrow> CHR ''/'' \<notin> set s"

lemma offset_key_inject:
  assumes "slash_free g" "slash_free t" "slash_free g'" "slash_free t'"
    and "valid_rune (unat p)" "valid_rune (unat p')"
  shows "offset_key g t p = offset_key g' t' p' \<longleftrightarrow> g = g' \<and> t = t' \<and> p = p'"
  using assms
  by (auto simp: offset_key_def slash_free_def append_sep_inject string_of_rune_inject)

lemma commit_offset_frame [simp, frame_simps]:
  "Brokers (commit_offset p s) = Brokers s"
  "Topics (commit_offset p s) = Topics s"
  "ConsumerGroups (commit_offset p s) = ConsumerGroups s"
  "partition_of (commit_offset p s) = partition_of s"
  by (simp_all add: commit_offset_def)

lemma GetOffset_commit_offset:
  "GetOffset g t p (commit_offset payload s) =
     (if offset_key g t p =
         offset_key (co_GroupID payload) (co_Topic payload) (co_Partition payload)
      then co_Offset payload else GetOffset g t p s)"
  by (simp add: GetOffset_def commit_offset_def)

section \<open>Properties\<close>

text \<open>
  Committed offsets.  After a commit the group reads the committed offset for that partition
  of that topic, and every other triple of group, topic and partition reads what it read before, as
  long as names contain no slash and partition numbers are Unicode code points.
\<close>

lemma commit_offset_read_back:
  assumes "slash_free g" "slash_free t" "slash_free (co_GroupID c)" "slash_free (co_Topic c)"
    and "valid_rune (unat p)" "valid_rune (unat (co_Partition c))"
  shows "GetOffset g t p (commit_offset c s) =
    (if g = co_GroupID c \<and> t = co_Topic c \<and> p = co_Partition c then co_Offset c
     else GetOffset g t p s)"
  using assms by (simp add: GetOffset_commit_offset offset_key_inject)

text \<open>
  Collisions.  All partition numbers that are no code points share one key, and a slash can
  move between group and topic: a commit for one is read by the other.
\<close>

lemma offset_key_collisions:
  "(\<not> valid_rune (unat p) \<and> \<not> valid_rune (unat p') \<longrightarrow>
      GetOffset g t p (commit_offset \<lparr>co_GroupID = g, co_Topic = t, co_Partition = p', co_Offset = off\<rparr> s) = off) \<and>
   GetOffset (g @ ''/'' @ u) t p (commit_offset
      \<lparr>co_GroupID = g, co_Topic = u @ ''/'' @ t, co_Partition = p, co_Offset = off\<rparr> s) = off"
  by (auto simp: GetOffset_commit_offset offset_key_def string_of_rune_invalid)

lemma commit_offset_read_back_example:
  "GetOffset ''g'' ''t'' 7 (commit_offset \<lparr>co_GroupID = ''g'', co_Topic = ''t'', co_Partition = 7,
     co_Offset = 42\<rparr> NewFSM) = 42"
  using commit_offset_read_back [of "''g''" "''t''" "\<lparr>co_GroupID = ''g'', co_Topic = ''t'', co_Partition = 7,
     co_Offset = 42\<rparr>" 7 NewFSM]
  by (simp add: slash_free_def valid_rune_def)

lemma offset_key_collisions_example:
  "GetOffset ''g'' ''t'' 0xD800 (commit_offset \<lparr>co_GroupID = ''g'', co_Topic = ''t'',
     co_Partition = 0x110000, co_Offset = 42\<rparr> NewFSM) = 42"
  using offset_key_collisions [of "0xD800" "0x110000" "''g''" "''t''" 42 NewFSM "[]"]
  by (simp add: valid_rune_def)

end
