(* ===== verification/FSM_Codec.thy ===== *)
theory FSM_Codec
  imports JSON Topic_Admin Consumer_Groups Group_Offsets
begin

text \<open>
  JSON forms of the command payloads and of the cluster state.  The encoders of the payloads
  are the anonymous structs of \<open>grpcserver/server.go\<close>, their decoders the anonymous structs of
  \<open>FSM.Apply\<close>: the interpretations of \<open>json_codec\<close> show that the two sides agree on the tags.
  The encoders and decoders of the state serve \<open>Snapshot\<close> and \<open>Restore\<close>.
\<close>

section \<open>Command payloads\<close>

definition enc_RegisterBroker :: "RegisterBrokerPayload \<Rightarrow> json" where
  "enc_RegisterBroker p =
     JObj [(''id'', enc_u32 (rb_ID p)), (''host'', enc_str (rb_Host p)),
           (''port'', enc_i32 (rb_Port p))]"

definition zero_RegisterBroker :: RegisterBrokerPayload where
  "zero_RegisterBroker = \<lparr>rb_ID = 0, rb_Host = [], rb_Port = 0\<rparr>"

definition dec_RegisterBroker :: "RegisterBrokerPayload decoder" where
  "dec_RegisterBroker = dec_struct
     [(''id'', field dec_u32 rb_ID rb_ID_update),
      (''host'', field dec_str rb_Host rb_Host_update),
      (''port'', field dec_i32 rb_Port rb_Port_update)]"

definition enc_ReplicaOffset :: "ReplicaOffsetPayload \<Rightarrow> json" where
  "enc_ReplicaOffset p =
     JObj [(''topic'', enc_str (ro_Topic p)), (''partition'', enc_u32 (ro_Partition p)),
           (''offset'', enc_i64 (ro_Offset p))]"

definition zero_ReplicaOffset :: ReplicaOffsetPayload where
  "zero_ReplicaOffset = \<lparr>ro_Topic = [], ro_Partition = 0, ro_Offset = 0\<rparr>"

definition dec_ReplicaOffset :: "ReplicaOffsetPayload decoder" where
  "dec_ReplicaOffset = dec_struct
     [(''topic'', field dec_str ro_Topic ro_Topic_update),
      (''partition'', field dec_u32 ro_Partition ro_Partition_update),
      (''offset'', field dec_i64 ro_Offset ro_Offset_update)]"

definition enc_Heartbeat :: "HeartbeatPayload \<Rightarrow> json" where
  "enc_Heartbeat p =
     JObj [(''id'', enc_u32 (hb_ID p)),
           (''replica_offsets'', enc_slice enc_ReplicaOffset (hb_ReplicaOffsets p))]"

definition zero_Heartbeat :: HeartbeatPayload where
  "zero_Heartbeat = \<lparr>hb_ID = 0, hb_ReplicaOffsets = []\<rparr>"

definition dec_Heartbeat :: "HeartbeatPayload decoder" where
  "dec_Heartbeat = dec_struct
     [(''id'', field dec_u32 hb_ID hb_ID_update),
      (''replica_offsets'', field (dec_slice dec_ReplicaOffset zero_ReplicaOffset)
         hb_ReplicaOffsets hb_ReplicaOffsets_update)]"

definition enc_CreateTopic :: "CreateTopicPayload \<Rightarrow> json" where
  "enc_CreateTopic p =
     JObj [(''name'', enc_str (ct_Name p)), (''partitions'', enc_u32 (ct_Partitions p)),
           (''replication_factor'', enc_u32 (ct_ReplicationFactor p))]"

definition zero_CreateTopic :: CreateTopicPayload where
  "zero_CreateTopic = \<lparr>ct_Name = [], ct_Partitions = 0, ct_ReplicationFactor = 0\<rparr>"

definition dec_CreateTopic :: "CreateTopicPayload decoder" where
  "dec_CreateTopic = dec_struct
     [(''name'', field dec_str ct_Name ct_Name_update),
      (''partitions'', field dec_u32 ct_Partitions ct_Partitions_update),
      (''replication_factor'', field dec_u32 ct_ReplicationFactor ct_ReplicationFactor_update)]"

definition enc_JoinGroup :: "JoinGroupPayload \<Rightarrow> json" where
  "enc_JoinGroup p =
     JObj [(''group_id'', enc_str (jg_GroupID p)), (''member_id'', enc_str (jg_MemberID p)),
           (''topics'', enc_slice enc_str (jg_Topics p))]"

definition zero_JoinGroup :: JoinGroupPayload where
  "zero_JoinGroup = \<lparr>jg_GroupID = [], jg_MemberID = [], jg_Topics = []\<rparr>"

definition dec_JoinGroup :: "JoinGroupPayload decoder" where
  "dec_JoinGroup = dec_struct
     [(''group_id'', field dec_str jg_GroupID jg_GroupID_update),
      (''member_id'', field dec_str jg_MemberID jg_MemberID_update),
      (''topics'', field (dec_slice dec_str []) jg_Topics jg_Topics_update)]"

definition enc_CommitOffset :: "CommitOffsetPayload \<Rightarrow> json" where
  "enc_CommitOffset p =
     JObj [(''group_id'', enc_str (co_GroupID p)), (''topic'', enc_str (co_Topic p)),
           (''partition'', enc_u32 (co_Partition p)), (''offset'', enc_i64 (co_Offset p))]"

definition zero_CommitOffset :: CommitOffsetPayload where
  "zero_CommitOffset = \<lparr>co_GroupID = [], co_Topic = [], co_Partition = 0, co_Offset = 0\<rparr>"

definition dec_CommitOffset :: "CommitOffsetPayload decoder" where
  "dec_CommitOffset = dec_struct
     [(''group_id'', field dec_str co_GroupID co_GroupID_update),
      (''topic'', field dec_str co_Topic co_Topic_update),
      (''partition'', field dec_u32 co_Partition co_Partition_update),
      (''offset'', field dec_i64 co_Offset co_Offset_update)]"

section \<open>The cluster state\<close>

text \<open>
  A map that may be nil, and a pointer to a struct that is not nil (\<open>Snapshot\<close> never writes
  \<open>null\<close> for one).
\<close>

definition enc_nilmap :: "('k::linorder \<Rightarrow> string) \<Rightarrow> ('v \<Rightarrow> json) \<Rightarrow> ('k \<rightharpoonup> 'v) option \<Rightarrow> json" where
  "enc_nilmap show enc m = (case m of None \<Rightarrow> JNull | Some m \<Rightarrow> enc_map show enc m)"

definition dec_nilmap ::
  "(string \<Rightarrow> 'k option) \<Rightarrow> 'v decoder \<Rightarrow> 'v \<Rightarrow> ('k \<rightharpoonup> 'v) option decoder"
where
  "dec_nilmap key dec zero j r =
     (case j of
        JNull \<Rightarrow> Some None
      | _ \<Rightarrow> map_option Some
               (dec_map key dec zero j (case r of None \<Rightarrow> Map.empty | Some m \<Rightarrow> m)))"

text \<open>
  The value of a map of pointers.  Go stores a nil pointer for \<open>null\<close>, which a state of the model cannot have: here it
  is an error.  \<open>Snapshot\<close> never writes a \<open>null\<close> there, as no map of the state gets a nil pointer.
\<close>

definition dec_ref :: "'a decoder \<Rightarrow> 'a decoder" where
  "dec_ref dec j r = (case j of JNull \<Rightarrow> None | _ \<Rightarrow> dec j r)"

definition enc_PartitionTopic :: "PartitionTopic \<Rightarrow> json" where
  "enc_PartitionTopic p =
     JObj [(''topic'', enc_str (Topic p)), (''partition'', enc_u32 (Partition p))]"

definition zero_PartitionTopic :: PartitionTopic where
  "zero_PartitionTopic = \<lparr>Topic = [], Partition = 0\<rparr>"

definition dec_PartitionTopic :: "PartitionTopic decoder" where
  "dec_PartitionTopic = dec_struct
     [(''topic'', field dec_str Topic Topic_update),
      (''partition'', field dec_u32 Partition Partition_update)]"

definition enc_BrokerStatus :: "BrokerStatus \<Rightarrow> json" where
  "enc_BrokerStatus b =
     JObj [(''id'', enc_u32 (ID b)), (''host'', enc_str (Host b)), (''port'', enc_i32 (Port b)),
           (''last_seen'', enc_time (LastSeen b)), (''active'', enc_bool (Active b))]"

definition zero_BrokerStatus :: BrokerStatus where
  "zero_BrokerStatus = \<lparr>ID = 0, Host = [], Port = 0, LastSeen = - 62135596800 * 1000000000,
     Active = False\<rparr>"

definition dec_BrokerStatus :: "BrokerStatus decoder" where
  "dec_BrokerStatus = dec_struct
     [(''id'', field dec_u32 ID ID_update),
      (''host'', field dec_str Host Host_update),
      (''port'', field dec_i32 Port Port_update),
      (''last_seen'', field dec_time LastSeen LastSeen_update),
      (''active'', field dec_bool Active Active_update)]"

definition enc_PartitionState :: "PartitionState \<Rightarrow> json" where
  "enc_PartitionState p =
     JObj [(''partition_id'', enc_u32 (PartitionID p)), (''leader_id'', enc_u32 (LeaderID p)),
           (''replica_ids'', enc_slice enc_u32 (ReplicaIDs p)), (''isr'', enc_slice enc_u32 (ISR p)),
           (''high_watermark'', enc_i64 (HighWatermark p)),
           (''replica_offsets'', enc_nilmap show_u32 enc_i64 (ReplicaOffsets p))]"

definition zero_PartitionState :: PartitionState where
  "zero_PartitionState = \<lparr>PartitionID = 0, LeaderID = 0, ReplicaIDs = [], ISR = [],
     HighWatermark = 0, ReplicaOffsets = None\<rparr>"

definition dec_PartitionState :: "PartitionState decoder" where
  "dec_PartitionState = dec_struct
     [(''partition_id'', field dec_u32 PartitionID PartitionID_update),
      (''leader_id'', field dec_u32 LeaderID LeaderID_update),
      (''replica_ids'', field (dec_slice dec_u32 0) ReplicaIDs ReplicaIDs_update),
      (''isr'', field (dec_slice dec_u32 0) ISR ISR_update),
      (''high_watermark'', field dec_i64 HighWatermark HighWatermark_update),
      (''replica_offsets'', field (dec_nilmap parse_u32 dec_i64 0)
         ReplicaOffsets ReplicaOffsets_update)]"

definition zero_AssignPartitions :: AssignPartitionsPayload where
  "zero_AssignPartitions = \<lparr>ap_Topic = [], ap_Partitions = Map.empty\<rparr>"

definition dec_AssignPartitions :: "AssignPartitionsPayload decoder" where
  "dec_AssignPartitions = dec_struct
     [(''topic'', field dec_str ap_Topic ap_Topic_update),
      (''partitions'', field (dec_map parse_u32 (dec_ptr dec_PartitionState zero_PartitionState) None)
         ap_Partitions ap_Partitions_update)]"

definition enc_TopicState :: "TopicState \<Rightarrow> json" where
  "enc_TopicState t =
     JObj [(''name'', enc_str (Name t)),
           (''partitions'', enc_map show_u32 enc_PartitionState (Partitions t))]"

definition zero_TopicState :: TopicState where
  "zero_TopicState = \<lparr>Name = [], Partitions = Map.empty\<rparr>"

definition dec_TopicState :: "TopicState decoder" where
  "dec_TopicState = dec_struct
     [(''name'', field dec_str Name Name_update),
      (''partitions'', field (dec_map parse_u32 (dec_ref dec_PartitionState) zero_PartitionState)
         Partitions Partitions_update)]"

definition enc_GroupMember :: "GroupMember \<Rightarrow> json" where
  "enc_GroupMember m =
     JObj [(''id'', enc_str (GM_ID m)), (''topics'', enc_slice enc_str (GM_Topics m)),
           (''last_seen'', enc_time (GM_LastSeen m))]"

definition zero_GroupMember :: GroupMember where
  "zero_GroupMember = \<lparr>GM_ID = [], GM_Topics = [], GM_LastSeen = - 62135596800 * 1000000000\<rparr>"

definition dec_GroupMember :: "GroupMember decoder" where
  "dec_GroupMember = dec_struct
     [(''id'', field dec_str GM_ID GM_ID_update),
      (''topics'', field (dec_slice dec_str []) GM_Topics GM_Topics_update),
      (''last_seen'', field dec_time GM_LastSeen GM_LastSeen_update)]"

definition enc_ConsumerGroupState :: "ConsumerGroupState \<Rightarrow> json" where
  "enc_ConsumerGroupState g =
     JObj [(''group_id'', enc_str (GroupID g)), (''generation'', enc_u32 (Generation g)),
           (''members'', enc_map coerce_utf8 enc_GroupMember (Members g)),
           (''assignments'', enc_map coerce_utf8 (enc_slice enc_PartitionTopic) (Assignments g))]"

definition zero_ConsumerGroupState :: ConsumerGroupState where
  "zero_ConsumerGroupState = \<lparr>GroupID = [], Generation = 0, Members = Map.empty,
     Assignments = Map.empty\<rparr>"

definition dec_ConsumerGroupState :: "ConsumerGroupState decoder" where
  "dec_ConsumerGroupState = dec_struct
     [(''group_id'', field dec_str GroupID GroupID_update),
      (''generation'', field dec_u32 Generation Generation_update),
      (''members'', field (dec_map Some (dec_ref dec_GroupMember) zero_GroupMember)
         Members Members_update),
      (''assignments'', field (dec_map Some (dec_slice dec_PartitionTopic zero_PartitionTopic) [])
         Assignments Assignments_update)]"

definition enc_ClusterState :: "ClusterState \<Rightarrow> json" where
  "enc_ClusterState s =
     JObj [(''brokers'', enc_map show_u32 enc_BrokerStatus (Brokers s)),
           (''topics'', enc_map coerce_utf8 enc_TopicState (Topics s)),
           (''consumer_groups'', enc_map coerce_utf8 enc_ConsumerGroupState (ConsumerGroups s)),
           (''offsets'', enc_map coerce_utf8 enc_i64 (Offsets s))]"

definition dec_ClusterState :: "ClusterState decoder" where
  "dec_ClusterState = dec_struct
     [(''brokers'', field (dec_map parse_u32 (dec_ref dec_BrokerStatus) zero_BrokerStatus)
         Brokers Brokers_update),
      (''topics'', field (dec_map Some (dec_ref dec_TopicState) zero_TopicState)
         Topics Topics_update),
      (''consumer_groups'',
         field (dec_map Some (dec_ref dec_ConsumerGroupState) zero_ConsumerGroupState)
           ConsumerGroups ConsumerGroups_update),
      (''offsets'', field (dec_map Some dec_i64 0) Offsets Offsets_update)]"

section \<open>The payloads round-trip\<close>

lemmas struct_simps = dec_struct_def field_def

lemmas payload_defs =
  enc_RegisterBroker_def dec_RegisterBroker_def zero_RegisterBroker_def
  enc_ReplicaOffset_def dec_ReplicaOffset_def zero_ReplicaOffset_def
  enc_Heartbeat_def dec_Heartbeat_def zero_Heartbeat_def
  enc_CreateTopic_def dec_CreateTopic_def zero_CreateTopic_def
  enc_JoinGroup_def dec_JoinGroup_def zero_JoinGroup_def
  enc_CommitOffset_def dec_CommitOffset_def zero_CommitOffset_def

interpretation register_json: json_codec enc_RegisterBroker dec_RegisterBroker zero_RegisterBroker
  "\<lambda>p. valid_utf8 (rb_Host p)"
  by unfold_locales (simp add: payload_defs struct_simps codec_simps)

interpretation replica_offset_json: json_codec enc_ReplicaOffset dec_ReplicaOffset
  zero_ReplicaOffset "\<lambda>p. valid_utf8 (ro_Topic p)"
  by unfold_locales (simp add: payload_defs struct_simps codec_simps)

lemma dec_enc_ReplicaOffsets [codec_simps]:
  "\<forall>ro \<in> set ros. valid_utf8 (ro_Topic ro) \<Longrightarrow>
     dec_slice dec_ReplicaOffset zero_ReplicaOffset (enc_slice enc_ReplicaOffset ros) r = Some ros"
  by (rule replica_offset_json.dec_enc_slice)

interpretation heartbeat_json: json_codec enc_Heartbeat dec_Heartbeat zero_Heartbeat
  "\<lambda>p. \<forall>ro \<in> set (hb_ReplicaOffsets p). valid_utf8 (ro_Topic ro)"
  by unfold_locales
     (simp add: enc_Heartbeat_def dec_Heartbeat_def zero_Heartbeat_def struct_simps codec_simps)

interpretation create_topic_json: json_codec enc_CreateTopic dec_CreateTopic zero_CreateTopic
  "\<lambda>p. valid_utf8 (ct_Name p)"
  by unfold_locales (simp add: payload_defs struct_simps codec_simps)

interpretation join_group_json: json_codec enc_JoinGroup dec_JoinGroup zero_JoinGroup
  "\<lambda>p. valid_utf8 (jg_GroupID p) \<and> valid_utf8 (jg_MemberID p) \<and> (\<forall>t \<in> set (jg_Topics p). valid_utf8 t)"
  by unfold_locales (simp add: payload_defs struct_simps codec_simps)

interpretation commit_offset_json: json_codec enc_CommitOffset dec_CommitOffset zero_CommitOffset
  "\<lambda>p. valid_utf8 (co_GroupID p) \<and> valid_utf8 (co_Topic p)"
  by unfold_locales (simp add: payload_defs struct_simps codec_simps)

section \<open>The state round-trips\<close>

text \<open>What a snapshot can represent: finite maps and well-formed strings.\<close>

definition valid_PartitionState :: "PartitionState \<Rightarrow> bool" where
  "valid_PartitionState p \<longleftrightarrow> finite (dom (offsets_of p))"

definition valid_TopicState :: "TopicState \<Rightarrow> bool" where
  "valid_TopicState t \<longleftrightarrow>
     valid_utf8 (Name t) \<and> finite (dom (Partitions t)) \<and>
     (\<forall>p \<in> ran (Partitions t). valid_PartitionState p)"

definition valid_GroupMember :: "GroupMember \<Rightarrow> bool" where
  "valid_GroupMember m \<longleftrightarrow> valid_utf8 (GM_ID m) \<and> (\<forall>t \<in> set (GM_Topics m). valid_utf8 t)"

definition valid_PartitionTopics :: "PartitionTopic list \<Rightarrow> bool" where
  "valid_PartitionTopics pts \<longleftrightarrow> (\<forall>pt \<in> set pts. valid_utf8 (Topic pt))"

definition valid_keys :: "(string \<rightharpoonup> 'v) \<Rightarrow> bool" where
  "valid_keys m \<longleftrightarrow> finite (dom m) \<and> (\<forall>k \<in> dom m. valid_utf8 k)"

definition valid_ConsumerGroupState :: "ConsumerGroupState \<Rightarrow> bool" where
  "valid_ConsumerGroupState g \<longleftrightarrow>
     valid_utf8 (GroupID g) \<and>
     valid_keys (Members g) \<and> (\<forall>m \<in> ran (Members g). valid_GroupMember m) \<and>
     valid_keys (Assignments g) \<and> (\<forall>pts \<in> ran (Assignments g). valid_PartitionTopics pts)"

definition valid_ClusterState :: "ClusterState \<Rightarrow> bool" where
  "valid_ClusterState s \<longleftrightarrow>
     finite (dom (Brokers s)) \<and> (\<forall>b \<in> ran (Brokers s). valid_utf8 (Host b)) \<and>
     valid_keys (Topics s) \<and> (\<forall>t \<in> ran (Topics s). valid_TopicState t) \<and>
     valid_keys (ConsumerGroups s) \<and> (\<forall>g \<in> ran (ConsumerGroups s). valid_ConsumerGroupState g) \<and>
     valid_keys (Offsets s)"

lemma dec_ref_obj [simp]: "dec_ref dec (JObj es) r = dec (JObj es) r"
  by (simp add: dec_ref_def)

lemma dec_enc_nilmap [codec_simps]:
  assumes "\<And>m. r = Some m \<Longrightarrow> finite (dom m)"
  shows "dec_nilmap parse_u32 dec_i64 0 (enc_nilmap show_u32 enc_i64 r) None = Some r"
proof (cases r)
  case None
  then show ?thesis by (simp add: dec_nilmap_def enc_nilmap_def)
next
  case (Some m)
  have "dec_map parse_u32 dec_i64 0 (enc_map show_u32 enc_i64 m) Map.empty = Some m"
    using assms Some by (intro i64_json.dec_enc_map) (auto simp: parse_show_u32)
  with Some show ?thesis
    by (simp add: dec_nilmap_def enc_nilmap_def) (simp add: enc_map_def)
qed

interpretation broker_json: json_codec enc_BrokerStatus "dec_ref dec_BrokerStatus"
  zero_BrokerStatus "\<lambda>b. valid_utf8 (Host b)"
  by unfold_locales
     (simp add: enc_BrokerStatus_def dec_BrokerStatus_def zero_BrokerStatus_def
        struct_simps codec_simps)

interpretation partition_json: json_codec enc_PartitionState "dec_ref dec_PartitionState"
  zero_PartitionState valid_PartitionState
proof unfold_locales
  fix p
  assume "valid_PartitionState p"
  then have "\<And>m. ReplicaOffsets p = Some m \<Longrightarrow> finite (dom m)"
    by (simp add: valid_PartitionState_def offsets_of_def)
  then show "dec_ref dec_PartitionState (enc_PartitionState p) zero_PartitionState = Some p"
    by (simp add: enc_PartitionState_def dec_PartitionState_def zero_PartitionState_def
        struct_simps codec_simps)
qed

interpretation partition_topic_json: json_codec enc_PartitionTopic dec_PartitionTopic
  zero_PartitionTopic "\<lambda>p. valid_utf8 (Topic p)"
  by unfold_locales
     (simp add: enc_PartitionTopic_def dec_PartitionTopic_def zero_PartitionTopic_def
        struct_simps codec_simps)

interpretation partition_topics_json: json_codec "enc_slice enc_PartitionTopic"
  "dec_slice dec_PartitionTopic zero_PartitionTopic" "[]" valid_PartitionTopics
  by unfold_locales (simp add: valid_PartitionTopics_def partition_topic_json.dec_enc_slice)

lemma dec_enc_Partitions [codec_simps]:
  assumes "finite (dom m)" "\<forall>p \<in> ran m. valid_PartitionState p"
  shows "dec_map parse_u32 (dec_ref dec_PartitionState) zero_PartitionState
    (enc_map show_u32 enc_PartitionState m) Map.empty = Some m"
  using assms by (intro partition_json.dec_enc_map) (auto simp: parse_show_u32)

interpretation topic_json: json_codec enc_TopicState "dec_ref dec_TopicState"
  zero_TopicState valid_TopicState
  by unfold_locales
     (simp add: enc_TopicState_def dec_TopicState_def zero_TopicState_def valid_TopicState_def
        struct_simps codec_simps)

interpretation member_json: json_codec enc_GroupMember "dec_ref dec_GroupMember"
  zero_GroupMember valid_GroupMember
  by unfold_locales
     (simp add: enc_GroupMember_def dec_GroupMember_def zero_GroupMember_def valid_GroupMember_def
        struct_simps codec_simps)

lemma dec_enc_Members [codec_simps]:
  assumes "valid_keys m" "\<forall>x \<in> ran m. valid_GroupMember x"
  shows "dec_map Some (dec_ref dec_GroupMember) zero_GroupMember
    (enc_map coerce_utf8 enc_GroupMember m) Map.empty = Some m"
  using assms by (intro member_json.dec_enc_map) (auto simp: valid_keys_def)

lemma dec_enc_Assignments [codec_simps]:
  assumes "valid_keys m" "\<forall>x \<in> ran m. valid_PartitionTopics x"
  shows "dec_map Some (dec_slice dec_PartitionTopic zero_PartitionTopic) []
    (enc_map coerce_utf8 (enc_slice enc_PartitionTopic) m) Map.empty = Some m"
  using assms by (intro partition_topics_json.dec_enc_map) (auto simp: valid_keys_def)

interpretation group_json: json_codec enc_ConsumerGroupState "dec_ref dec_ConsumerGroupState"
  zero_ConsumerGroupState valid_ConsumerGroupState
  by unfold_locales
     (simp add: enc_ConsumerGroupState_def dec_ConsumerGroupState_def zero_ConsumerGroupState_def
        valid_ConsumerGroupState_def struct_simps codec_simps)

lemma dec_enc_state_maps [codec_simps]:
  "finite (dom bs) \<Longrightarrow> \<forall>b \<in> ran bs. valid_utf8 (Host b) \<Longrightarrow>
     dec_map parse_u32 (dec_ref dec_BrokerStatus) zero_BrokerStatus
       (enc_map show_u32 enc_BrokerStatus bs) Map.empty = Some bs"
  "valid_keys ts \<Longrightarrow> \<forall>t \<in> ran ts. valid_TopicState t \<Longrightarrow>
     dec_map Some (dec_ref dec_TopicState) zero_TopicState
       (enc_map coerce_utf8 enc_TopicState ts) Map.empty = Some ts"
  "valid_keys gs \<Longrightarrow> \<forall>g \<in> ran gs. valid_ConsumerGroupState g \<Longrightarrow>
     dec_map Some (dec_ref dec_ConsumerGroupState) zero_ConsumerGroupState
       (enc_map coerce_utf8 enc_ConsumerGroupState gs) Map.empty = Some gs"
  "valid_keys os \<Longrightarrow> dec_map Some dec_i64 0 (enc_map coerce_utf8 enc_i64 os) Map.empty = Some os"
     apply (intro broker_json.dec_enc_map; simp add: parse_show_u32)
    apply (intro topic_json.dec_enc_map; simp add: valid_keys_def)
   apply (intro group_json.dec_enc_map; simp add: valid_keys_def)
  apply (intro i64_json.dec_enc_map; simp add: valid_keys_def)
  done

definition zero_ClusterState :: ClusterState where
  "zero_ClusterState = \<lparr>Brokers = Map.empty, Topics = Map.empty, ConsumerGroups = Map.empty,
     Offsets = Map.empty\<rparr>"

interpretation cluster_json: json_codec enc_ClusterState dec_ClusterState
  zero_ClusterState valid_ClusterState
  by unfold_locales
     (simp add: enc_ClusterState_def dec_ClusterState_def zero_ClusterState_def
        valid_ClusterState_def struct_simps codec_simps)

end
