(* ===== verification/FSM.thy ===== *)
theory FSM
  imports FSM_Codec
begin

text \<open>
  The replicated state machine (\<open>go-controller/pkg/consensus/fsm.go\<close>): \<open>FSM.Apply\<close> with its
  dispatch on the command, \<open>GetMetadata\<close>, \<open>Snapshot\<close>, \<open>Restore\<close> and \<open>Persist\<close>.

  \<open>Apply\<close> reads the clock and ranges over maps, so its result depends on more than the log
  entry and the state: \<open>choices\<close> collects what the runtime decides during one call.
  \<open>choices_ok\<close> says that the visiting orders are possible ones.
\<close>

section \<open>Commands\<close>

definition CmdRegisterBroker :: string where "CmdRegisterBroker = ''register_broker''"
definition CmdBrokerHeartbeat :: string where "CmdBrokerHeartbeat = ''broker_heartbeat''"
definition CmdCreateTopic :: string where "CmdCreateTopic = ''create_topic''"
definition CmdAssignPartitions :: string where "CmdAssignPartitions = ''assign_partitions''"
definition CmdJoinConsumerGroup :: string where "CmdJoinConsumerGroup = ''join_consumer_group''"
definition CmdCommitOffset :: string where "CmdCommitOffset = ''commit_offset''"
definition CmdCleanInactive :: string where "CmdCleanInactive = ''clean_inactive''"

lemmas cmd_defs =
  CmdRegisterBroker_def CmdBrokerHeartbeat_def CmdCreateTopic_def CmdAssignPartitions_def
  CmdJoinConsumerGroup_def CmdCommitOffset_def CmdCleanInactive_def

text \<open>\<open>Payload\<close> is a \<open>json.RawMessage\<close>: any JSON value, or empty when the field is absent.\<close>

record Command =
  Op :: string
  Payload :: "json option"

definition enc_Command :: "string \<Rightarrow> json \<Rightarrow> json" where
  "enc_Command op payload = JObj [(''op'', enc_str op), (''payload'', payload)]"

definition dec_Command :: "Command decoder" where
  "dec_Command = dec_struct
     [(''op'', field dec_str Op Op_update),
      (''payload'', \<lambda>j r. Some (r\<lparr>Payload := Some j\<rparr>))]"

text \<open>The bytes of a log entry or a snapshot: a JSON text or something else.\<close>

datatype log_data = Malformed | Data json

definition json_error :: error where
  "json_error = ''json: cannot unmarshal''"

definition unmarshal :: "'r decoder \<Rightarrow> 'r \<Rightarrow> log_data \<Rightarrow> 'r option" where
  "unmarshal dec zero d = (case d of Malformed \<Rightarrow> None | Data j \<Rightarrow> dec j zero)"

definition unmarshal_payload :: "'r decoder \<Rightarrow> 'r \<Rightarrow> Command \<Rightarrow> 'r option" where
  "unmarshal_payload dec zero cmd =
     (case Payload cmd of None \<Rightarrow> None | Some j \<Rightarrow> dec j zero)"

section \<open>Apply\<close>

record choices =
  ch_now :: time
  ch_now_isr :: time
  ch_brokers :: "u32 list"
  ch_failover :: "u32 \<Rightarrow> u32 list"
  ch_failover_visit :: "u32 \<Rightarrow> visit"
  ch_visit :: visit
  ch_members :: "string list"
  ch_subscribed :: "string list"
  ch_group_parts :: "string \<Rightarrow> u32 list"
  ch_payload :: "u32 list"

text \<open>The switch of \<open>Apply\<close>; a payload that does not decode leaves the state alone.\<close>

definition apply_command :: "choices \<Rightarrow> Command \<Rightarrow> ClusterState \<Rightarrow> go_panic + ClusterState" where
  "apply_command ch cmd s =
     (if Op cmd = CmdRegisterBroker then
        Inr (case unmarshal_payload dec_RegisterBroker zero_RegisterBroker cmd of
               None \<Rightarrow> s
             | Some payload \<Rightarrow> register_broker (ch_now ch) payload s)
      else if Op cmd = CmdBrokerHeartbeat then
        Inr (case unmarshal_payload dec_Heartbeat zero_Heartbeat cmd of
               None \<Rightarrow> s
             | Some payload \<Rightarrow>
                 broker_heartbeat (ch_now ch) (ch_now_isr ch) (ch_visit ch) payload s)
      else if Op cmd = CmdCreateTopic then
        Inr (case unmarshal_payload dec_CreateTopic zero_CreateTopic cmd of
               None \<Rightarrow> s
             | Some payload \<Rightarrow>
                 create_topic (ch_brokers ch) (ch_now_isr ch) (ch_visit ch) payload s)
      else if Op cmd = CmdAssignPartitions then
        (case unmarshal_payload dec_AssignPartitions zero_AssignPartitions cmd of
           None \<Rightarrow> Inr s
         | Some payload \<Rightarrow>
             assign_partitions (ch_payload ch) (ch_now_isr ch) (ch_visit ch) payload s)
      else if Op cmd = CmdJoinConsumerGroup then
        Inr (case unmarshal_payload dec_JoinGroup zero_JoinGroup cmd of
               None \<Rightarrow> s
             | Some payload \<Rightarrow>
                 join_consumer_group (ch_now ch) (ch_members ch) (ch_subscribed ch)
                   (ch_group_parts ch) payload s)
      else if Op cmd = CmdCommitOffset then
        Inr (case unmarshal_payload dec_CommitOffset zero_CommitOffset cmd of
               None \<Rightarrow> s
             | Some payload \<Rightarrow> commit_offset payload s)
      else if Op cmd = CmdCleanInactive then
        Inr (clean_inactive (ch_brokers ch) (ch_failover ch) (ch_failover_visit ch) (ch_now ch)
               (ch_now_isr ch) (ch_visit ch) s)
      else Inr s)"

definition Apply ::
  "choices \<Rightarrow> log_data \<Rightarrow> ClusterState \<Rightarrow> go_panic + (error option \<times> ClusterState)"
where
  "Apply ch log s =
     (case unmarshal dec_Command \<lparr>Op = [], Payload = None\<rparr> log of
        None \<Rightarrow> Inr (Some json_error, s)
      | Some cmd \<Rightarrow> map_sum (\<lambda>e. e) (Pair None) (apply_command ch cmd s))"

section \<open>GetMetadata\<close>

definition copy_BrokerStatus :: "BrokerStatus \<Rightarrow> BrokerStatus" where
  "copy_BrokerStatus v = \<lparr>ID = ID v, Host = Host v, Port = Port v, LastSeen = LastSeen v,
     Active = Active v\<rparr>"

definition copy_PartitionState :: "PartitionState \<Rightarrow> PartitionState" where
  "copy_PartitionState p = \<lparr>PartitionID = PartitionID p, LeaderID = LeaderID p,
     ReplicaIDs = ReplicaIDs p, ISR = ISR p, HighWatermark = HighWatermark p,
     ReplicaOffsets = Some (copy_map (\<lambda>rv. rv) (offsets_of p))\<rparr>"

definition copy_TopicState :: "TopicState \<Rightarrow> TopicState" where
  "copy_TopicState t = \<lparr>Name = Name t, Partitions = copy_map copy_PartitionState (Partitions t)\<rparr>"

definition copy_GroupMember :: "GroupMember \<Rightarrow> GroupMember" where
  "copy_GroupMember m = \<lparr>GM_ID = GM_ID m, GM_Topics = GM_Topics m, GM_LastSeen = GM_LastSeen m\<rparr>"

definition copy_ConsumerGroupState :: "ConsumerGroupState \<Rightarrow> ConsumerGroupState" where
  "copy_ConsumerGroupState g = \<lparr>GroupID = GroupID g, Generation = Generation g,
     Members = copy_map copy_GroupMember (Members g),
     Assignments = copy_map (\<lambda>av. av) (Assignments g)\<rparr>"

definition GetMetadata :: "string list \<Rightarrow> ClusterState \<Rightarrow> ClusterState" where
  "GetMetadata topics s =
     \<lparr>Brokers = copy_map copy_BrokerStatus (Brokers s),
      Topics = (\<lambda>k. if length topics > 0 \<and> k \<notin> set topics then None
                    else copy_map copy_TopicState (Topics s) k),
      ConsumerGroups = copy_map copy_ConsumerGroupState (ConsumerGroups s),
      Offsets = copy_map (\<lambda>v. v) (Offsets s)\<rparr>"

section \<open>Snapshots\<close>

text \<open>\<open>time.Time.MarshalJSON\<close> refuses years outside 0 to 9999.\<close>

definition json_time_ok :: "time \<Rightarrow> bool" where
  "json_time_ok t \<longleftrightarrow> - seconds 62167219200 \<le> t \<and> t < seconds 253402300800"

definition member_times :: "ConsumerGroupState \<Rightarrow> time list" where
  "member_times g =
     map (\<lambda>(_, m). GM_LastSeen m) (range_entries (marshal_keys coerce_utf8 (Members g)) (Members g))"

definition state_times :: "ClusterState \<Rightarrow> time list" where
  "state_times s =
     map (\<lambda>(_, b). LastSeen b) (range_entries (marshal_keys show_u32 (Brokers s)) (Brokers s)) @
     concat (map (\<lambda>(_, g). member_times g)
       (range_entries (marshal_keys coerce_utf8 (ConsumerGroups s)) (ConsumerGroups s)))"

definition Snapshot :: "ClusterState \<Rightarrow> error + json" where
  "Snapshot s =
     (if list_all json_time_ok (state_times s) then Inr (enc_ClusterState s)
      else Inl ''Time.MarshalJSON: year outside of range [0,9999]'')"

text \<open>\<open>rc\<close> is what reading the snapshot to its end yields.\<close>

definition Restore :: "error + log_data \<Rightarrow> ClusterState \<Rightarrow> error option \<times> ClusterState" where
  "Restore rc s =
     (case rc of
        Inl err \<Rightarrow> (Some err, s)
      | Inr data \<Rightarrow>
          (case unmarshal dec_ClusterState zero_ClusterState data of
             None \<Rightarrow> (Some json_error, s)
           | Some state \<Rightarrow> (None, state)))"

text \<open>
  The sink is part of the Raft library: the results of its \<open>Write\<close> and \<open>Close\<close> are
  arguments, and the calls made on it are recorded.
\<close>

datatype sink_call = Write json | Close | Cancel

definition Persist :: "error option \<Rightarrow> error option \<Rightarrow> json \<Rightarrow> error option \<times> sink_call list" where
  "Persist write_result close_result stateData =
     (case write_result of
        Some err \<Rightarrow> (Some err, [Write stateData, Cancel])
      | None \<Rightarrow>
          (case close_result of
             Some err \<Rightarrow> (Some err, [Write stateData, Close, Cancel])
           | None \<Rightarrow> (None, [Write stateData, Close])))"

end
