(* ===== verification/Machine.thy ===== *)
theory Machine
  imports Main
begin

text \<open>
  State machines given by a step relation: the states a run can reach when every state it
  enters satisfies a guard, and the interface of an inductive invariant.
\<close>

inductive reach :: "('s \<Rightarrow> bool) \<Rightarrow> ('s \<Rightarrow> 's \<Rightarrow> bool) \<Rightarrow> 's \<Rightarrow> 's \<Rightarrow> bool"
  for guard :: "'s \<Rightarrow> bool" and step :: "'s \<Rightarrow> 's \<Rightarrow> bool" and init :: 's
where
  reach_init: "reach guard step init init"
| reach_step: "reach guard step init s \<Longrightarrow> step s t \<Longrightarrow> guard t \<Longrightarrow> reach guard step init t"

locale inductive_invariant =
  fixes guard :: "'s \<Rightarrow> bool"
    and step :: "'s \<Rightarrow> 's \<Rightarrow> bool"
    and init :: 's
    and inv :: "'s \<Rightarrow> bool"
  assumes inv_init: "inv init"
    and inv_step: "inv s \<Longrightarrow> step s t \<Longrightarrow> guard t \<Longrightarrow> inv t"
begin

lemma reach_inv: "reach guard step init s \<Longrightarrow> inv s"
  by (induction rule: reach.induct) (auto intro: inv_init inv_step)

end

lemma reach_weaken:
  assumes "reach guard step init s" "\<And>t. guard t \<Longrightarrow> guard' t"
  shows "reach guard' step init s"
  using assms(1) by (induction rule: reach.induct) (auto intro: reach.intros assms(2))

text \<open>Without a guard, the states reached are those of the closure of the step relation.\<close>

lemma reach_closure: "reach (\<lambda>_. True) step s t \<longleftrightarrow> step\<^sup>*\<^sup>* s t"
proof
  show "step\<^sup>*\<^sup>* s t" if "reach (\<lambda>_. True) step s t"
    using that by (induction rule: reach.induct) (auto intro: rtranclp.rtrancl_into_rtrancl)
  show "reach (\<lambda>_. True) step s t" if "step\<^sup>*\<^sup>* s t"
    using that by (induction rule: rtranclp.induct) (auto intro: reach.intros)
qed

text \<open>
  A forward simulation: a step of the detailed machine is some steps of the abstract one, so the
  runs of the one are mapped to runs of the other.
\<close>

locale forward_simulation =
  fixes step :: "'s \<Rightarrow> 's \<Rightarrow> bool"
    and abs_step :: "'a \<Rightarrow> 'a \<Rightarrow> bool"
    and abstraction :: "'s \<Rightarrow> 'a"
  assumes simulates: "step s t \<Longrightarrow> abs_step\<^sup>*\<^sup>* (abstraction s) (abstraction t)"
begin

lemma run_simulates: "step\<^sup>*\<^sup>* s t \<Longrightarrow> abs_step\<^sup>*\<^sup>* (abstraction s) (abstraction t)"
  by (induction rule: rtranclp.induct) (auto intro: rtranclp_trans dest: simulates)

end

end
