(* ===== verification/FSM_Invariants.thy ===== *)
theory FSM_Invariants
  imports FSM Machine
begin

text \<open>
  The typed view of the state machine and its invariants.

  \<open>proposal\<close> lists the commands the controller proposes, \<open>exec\<close> their effect; \<open>Apply\<close> on the
  encoded form of a proposal is \<open>exec\<close> (\<open>Apply_encode\<close>), and whatever a log entry holds, the
  switch either leaves the state alone, executes a proposal or assigns partitions
  (\<open>apply_command_cases\<close>).  \<open>cluster_step\<close> is the step relation of the cluster state.
\<close>

section \<open>Proposals\<close>

datatype proposal =
    PRegister RegisterBrokerPayload
  | PHeartbeat HeartbeatPayload
  | PCreateTopic CreateTopicPayload
  | PJoinGroup JoinGroupPayload
  | PCommitOffset CommitOffsetPayload
  | PCleanInactive

text \<open>
  The commands that the program proposes.  \<open>CmdAssignPartitions\<close>, which \<open>FSM.Apply\<close> handles as well
  (\<open>assign_partitions\<close>), is proposed by no part of it.
\<close>

fun exec :: "choices \<Rightarrow> proposal \<Rightarrow> ClusterState \<Rightarrow> ClusterState" where
  "exec ch (PRegister p) s = register_broker (ch_now ch) p s"
| "exec ch (PHeartbeat p) s = broker_heartbeat (ch_now ch) (ch_now_isr ch) (ch_visit ch) p s"
| "exec ch (PCreateTopic p) s = create_topic (ch_brokers ch) (ch_now_isr ch) (ch_visit ch) p s"
| "exec ch (PJoinGroup p) s =
     join_consumer_group (ch_now ch) (ch_members ch) (ch_subscribed ch) (ch_group_parts ch) p s"
| "exec ch (PCommitOffset p) s = commit_offset p s"
| "exec ch PCleanInactive s =
     clean_inactive (ch_brokers ch) (ch_failover ch) (ch_failover_visit ch) (ch_now ch)
       (ch_now_isr ch) (ch_visit ch) s"

fun encode :: "proposal \<Rightarrow> json" where
  "encode (PRegister p) = enc_Command CmdRegisterBroker (enc_RegisterBroker p)"
| "encode (PHeartbeat p) = enc_Command CmdBrokerHeartbeat (enc_Heartbeat p)"
| "encode (PCreateTopic p) = enc_Command CmdCreateTopic (enc_CreateTopic p)"
| "encode (PJoinGroup p) = enc_Command CmdJoinConsumerGroup (enc_JoinGroup p)"
| "encode (PCommitOffset p) = enc_Command CmdCommitOffset (enc_CommitOffset p)"
| "encode PCleanInactive = enc_Command CmdCleanInactive JNull"

fun valid_proposal :: "proposal \<Rightarrow> bool" where
  "valid_proposal (PRegister p) = valid_utf8 (rb_Host p)"
| "valid_proposal (PHeartbeat p) = (\<forall>ro \<in> set (hb_ReplicaOffsets p). valid_utf8 (ro_Topic ro))"
| "valid_proposal (PCreateTopic p) = valid_utf8 (ct_Name p)"
| "valid_proposal (PJoinGroup p) =
     (valid_utf8 (jg_GroupID p) \<and> valid_utf8 (jg_MemberID p) \<and> (\<forall>t \<in> set (jg_Topics p). valid_utf8 t))"
| "valid_proposal (PCommitOffset p) = (valid_utf8 (co_GroupID p) \<and> valid_utf8 (co_Topic p))"
| "valid_proposal PCleanInactive = True"

lemma valid_cmds [simp]:
  "valid_utf8 CmdRegisterBroker" "valid_utf8 CmdBrokerHeartbeat" "valid_utf8 CmdCreateTopic"
  "valid_utf8 CmdAssignPartitions" "valid_utf8 CmdJoinConsumerGroup" "valid_utf8 CmdCommitOffset"
  "valid_utf8 CmdCleanInactive"
  by (simp_all add: cmd_defs)

lemma dec_enc_Command [codec_simps]:
  "valid_utf8 op \<Longrightarrow>
     dec_Command (enc_Command op j) \<lparr>Op = [], Payload = None\<rparr> = Some \<lparr>Op = op, Payload = Some j\<rparr>"
  by (simp add: dec_Command_def enc_Command_def struct_simps codec_simps)

lemmas payload_codecs =
  register_json.dec_enc heartbeat_json.dec_enc create_topic_json.dec_enc
  join_group_json.dec_enc commit_offset_json.dec_enc

lemma Apply_encode:
  "valid_proposal p \<Longrightarrow> Apply ch (Data (encode p)) s = Inr (None, exec ch p s)"
  by (cases p)
     (simp_all add: Apply_def unmarshal_def codec_simps payload_codecs apply_command_def
        unmarshal_payload_def, simp_all add: cmd_defs)

lemma apply_command_cases:
  obtains (skip) "apply_command ch cmd s = Inr s"
  | (exec) p where "apply_command ch cmd s = Inr (exec ch p s)"
  | (assign) p where "Op cmd = CmdAssignPartitions"
      "apply_command ch cmd s = assign_partitions (ch_payload ch) (ch_now_isr ch) (ch_visit ch) p s"
proof (cases "Op cmd = CmdAssignPartitions")
  case True
  show ?thesis
  proof (cases "unmarshal_payload dec_AssignPartitions zero_AssignPartitions cmd")
    case None
    with True show ?thesis
      by (intro skip) (simp add: apply_command_def, simp add: cmd_defs)
  next
    case (Some p)
    with True show ?thesis
      by (intro assign) (simp_all add: apply_command_def, simp_all add: cmd_defs)
  qed
next
  case False
  define D where "D r \<longleftrightarrow> r = (Inr s :: go_panic + ClusterState) \<or> (\<exists>p. r = Inr (exec ch p s))" for r
  have D: "D (Inr s)" "D (Inr (exec ch p s))" for p by (auto simp: D_def)
  have opt: "D (Inr (case x of None \<Rightarrow> s | Some p \<Rightarrow> exec ch (C p) s))" for x and C :: "'b \<Rightarrow> proposal"
    using D by (cases x) auto
  note opts = opt [of PRegister, unfolded exec.simps] opt [of PHeartbeat, unfolded exec.simps]
    opt [of PCreateTopic, unfolded exec.simps] opt [of PJoinGroup, unfolded exec.simps]
    opt [of PCommitOffset, unfolded exec.simps] D(2) [of PCleanInactive, unfolded exec.simps]
  have "D (apply_command ch cmd s)"
    unfolding apply_command_def using False opts D(1) by simp
  then show ?thesis using skip exec by (auto simp: D_def)
qed

section \<open>Steps\<close>

text \<open>
  The visiting orders of one call are possible ones: those of the final pass and of a rebalance
  are stated over the resulting state, which has the keys the loops meet.
\<close>

definition choices_ok :: "choices \<Rightarrow> ClusterState \<Rightarrow> ClusterState \<Rightarrow> bool" where
  "choices_ok ch s s' \<longleftrightarrow>
     range_ok (ch_brokers ch) (Brokers s) \<and>
     (\<forall>k. range_ok (ch_failover ch k) (Brokers s)) \<and>
     (\<forall>k. visit_ok (ch_failover_visit ch k) s) \<and>
     visit_ok (ch_visit ch) s' \<and>
     (\<forall>gid g. ConsumerGroups s' gid = Some g \<and> ConsumerGroups s' gid \<noteq> ConsumerGroups s gid \<longrightarrow>
        rebalance_ok (ch_members ch) (ch_subscribed ch) (ch_group_parts ch) s g)"

definition cluster_step :: "ClusterState \<Rightarrow> ClusterState \<Rightarrow> bool" where
  "cluster_step s s' \<longleftrightarrow> (\<exists>ch p. choices_ok ch s s' \<and> s' = exec ch p s)"

section \<open>Invariants\<close>

text \<open>What holds of a partition at any time, and what the final pass establishes.\<close>

definition partition_core :: "u32 \<Rightarrow> PartitionState \<Rightarrow> bool" where
  "partition_core p q \<longleftrightarrow> PartitionID q = p \<and> distinct (ReplicaIDs q)"

definition partition_wf :: "u32 \<Rightarrow> PartitionState \<Rightarrow> bool" where
  "partition_wf p q \<longleftrightarrow>
     partition_core p q \<and> ReplicaOffsets q \<noteq> None \<and>
     distinct (ISR q) \<and> set (ISR q) \<subseteq> insert (LeaderID q) (set (ReplicaIDs q)) \<and>
     (if ISR q = [] then HighWatermark q = 0
      else HighWatermark q \<in> replica_offset (offsets_of q) ` set (ISR q) \<and>
           (\<forall>r \<in> set (ISR q). sint (HighWatermark q) \<le> sint (replica_offset (offsets_of q) r)))"

definition group_wf :: "ClusterState \<Rightarrow> string \<Rightarrow> ConsumerGroupState \<Rightarrow> bool" where
  "group_wf s gid g \<longleftrightarrow>
     GroupID g = gid \<and>
     (\<forall>m gm. Members g m = Some gm \<longrightarrow> GM_ID gm = m) \<and>
     (\<forall>m. distinct (get_slice (Assignments g) m)) \<and>
     (\<forall>m pt. pt \<in> set (get_slice (Assignments g) m) \<longrightarrow>
        subscribes (Members g) (Topic pt) m \<and> partition_of s (Topic pt) (Partition pt) \<noteq> None) \<and>
     (\<forall>m m' pt. pt \<in> set (get_slice (Assignments g) m) \<longrightarrow>
        pt \<in> set (get_slice (Assignments g) m') \<longrightarrow> m = m')"

definition partitions_all :: "(u32 \<Rightarrow> PartitionState \<Rightarrow> bool) \<Rightarrow> ClusterState \<Rightarrow> bool" where
  "partitions_all P s \<longleftrightarrow> (\<forall>n p q. partition_of s n p = Some q \<longrightarrow> P p q)"

definition topic_names_ok :: "ClusterState \<Rightarrow> bool" where
  "topic_names_ok s \<longleftrightarrow> (\<forall>n t. Topics s n = Some t \<longrightarrow> Name t = n)"

definition groups_wf :: "ClusterState \<Rightarrow> bool" where
  "groups_wf s \<longleftrightarrow> (\<forall>gid g. ConsumerGroups s gid = Some g \<longrightarrow> group_wf s gid g)"

definition wf_state :: "ClusterState \<Rightarrow> bool" where
  "wf_state s \<longleftrightarrow>
     broker_ids_ok s \<and> topic_names_ok s \<and> partitions_all partition_wf s \<and> groups_wf s"

lemma partitions_all_mono:
  "partitions_all P s \<Longrightarrow> (\<And>p q. P p q \<Longrightarrow> Q p q) \<Longrightarrow> partitions_all Q s"
  by (auto simp: partitions_all_def)

lemma partition_wf_core: "partition_wf p q \<Longrightarrow> partition_core p q"
  by (simp add: partition_wf_def)

lemma update_partition_wf:
  assumes "partition_core p q"
  shows "partition_wf p (update_partition now bs q)"
proof -
  let ?q = "update_partition now bs q"
  have "set (ISR ?q) \<subseteq> insert (LeaderID ?q) (set (ReplicaIDs ?q))"
    by (auto simp: set_ISR_update_partition in_sync_def)
  then show ?thesis
    using assms distinct_ISR_update_partition [of q now bs] HighWatermark_empty_ISR [of now bs q]
      HighWatermark_update_partition [of now bs q]
    by (auto simp: partition_wf_def partition_core_def)
qed

lemma updateISRAndHW_wf:
  assumes "partitions_all partition_core s" "visit_ok v s"
  shows "partitions_all partition_wf (updateISRAndHW now v s)"
  using assms
  by (auto simp: partitions_all_def partition_of_updateISRAndHW intro: update_partition_wf)

lemma updateISRAndHW_shape [simp]: "shape (updateISRAndHW now v s) = shape s"
  by (simp add: updateISRAndHW_def)

lemma visit_ok_updateISRAndHW [simp]: "visit_ok w (updateISRAndHW now v s) \<longleftrightarrow> visit_ok w s"
  by (simp add: visit_ok_shape)

lemma partition_of_updateISRAndHW_None [simp]:
  "partition_of (updateISRAndHW now v s) n p = None \<longleftrightarrow> partition_of s n p = None"
  by (rule partition_of_None_shape) simp

lemma updateISRAndHW_names: "topic_names_ok s \<Longrightarrow> topic_names_ok (updateISRAndHW now v s)"
  unfolding topic_names_ok_def updateISRAndHW_def using each_partition_Name by blast

section \<open>Each operation keeps the partitions well-formed\<close>

lemma store_core:
  "partitions_all partition_core s \<Longrightarrow> partitions_all partition_core (store_replica_offset b ro s)"
  by (auto simp: partitions_all_def partition_of_store_replica_offset partition_core_def
      split: if_splits)

lemma fold_store_core:
  "partitions_all partition_core s \<Longrightarrow>
     partitions_all partition_core (fold (store_replica_offset b) ros s)"
  by (rule fold_invariant_mem) (auto intro: store_core)

lemma store_shape [simp]: "shape (store_replica_offset b ro s) = shape s"
  by (auto simp: shape_def store_replica_offset_def fun_eq_iff split: option.splits)

lemma fold_store_shape [simp]: "shape (fold (store_replica_offset b) ros s) = shape s"
  by (induction ros arbitrary: s) simp_all

lemma clean_broker_core:
  "partitions_all partition_core s \<Longrightarrow> partitions_all partition_core (clean_broker aks vs now k s)"
proof -
  assume core: "partitions_all partition_core s"
  have "partitions_all partition_core (handleBrokerFailure ks v f (s\<lparr>Brokers := bs\<rparr>))" for ks v f bs
    using core
    by (auto simp: partitions_all_def handleBrokerFailure_def Let_def
        elim!: each_partition_invariant [where P = "\<lambda>_. partition_core", rotated 2])
       (simp add: partition_core_def)
  with core show ?thesis by (auto simp: clean_broker_def split: option.splits)
qed

lemma fold_clean_core:
  "partitions_all partition_core s \<Longrightarrow>
     partitions_all partition_core (fold (clean_broker aks vs now) bks s)"
  by (rule fold_invariant_mem) (auto intro: clean_broker_core)

lemma fold_clean_shape [simp]: "shape (fold (clean_broker aks vs now) bks s) = shape s"
  by (induction bks arbitrary: s) simp_all

lemma shape_heartbeat [simp]: "shape (broker_heartbeat now now_isr v p s) = shape s"
  by (simp add: broker_heartbeat_def Let_def split: option.split)

lemma visit_ok_heartbeat:
  "visit_ok w (broker_heartbeat now now_isr v p s) \<longleftrightarrow> visit_ok w s"
  by (simp add: visit_ok_shape)

lemma broker_heartbeat_wf:
  assumes "partitions_all partition_core s" "visit_ok v s"
  shows "partitions_all partition_wf (broker_heartbeat now now_isr v p s)"
proof -
  have *: "partitions_all partition_wf
      (updateISRAndHW now_isr v (fold (store_replica_offset b) ros (s\<lparr>Brokers := bs\<rparr>)))" for b ros bs
    using assms
    by (intro updateISRAndHW_wf fold_store_core) (simp_all add: partitions_all_def visit_ok_shape)
  from * [of _ _ "Brokers s"] have
    "partitions_all partition_wf (updateISRAndHW now_isr v (fold (store_replica_offset b) ros s))"
    for b ros by simp
  with * show ?thesis by (simp add: broker_heartbeat_def Let_def split: option.split)
qed

lemma shape_clean_inactive [simp]: "shape (clean_inactive bks aks vs now now_isr v s) = shape s"
  by (simp add: clean_inactive_def)

lemma visit_ok_clean_inactive:
  "visit_ok w (clean_inactive bks aks vs now now_isr v s) \<longleftrightarrow> visit_ok w s"
  by (simp add: visit_ok_shape)

lemma clean_inactive_wf:
  assumes "partitions_all partition_core s" "visit_ok v s"
  shows "partitions_all partition_wf (clean_inactive bks aks vs now now_isr v s)"
  unfolding clean_inactive_def
  using assms by (intro updateISRAndHW_wf fold_clean_core) (simp_all add: visit_ok_shape)

lemma new_partition_core:
  assumes "distinct act"
  shows "partition_core i (new_partition act rf i)"
  using assms
  by (cases "act = []") (auto simp: partition_core_def distinct_place_replicas)

lemma create_topic_wf:
  assumes "partitions_all partition_wf s" "distinct ks"
    and "visit_ok v (create_topic ks now v payload s)"
  shows "partitions_all partition_wf (create_topic ks now v payload s)"
proof (cases "Topics s (ct_Name payload)")
  case (Some t)
  with assms(1) show ?thesis by (simp add: create_topic_def)
next
  case None
  have "partition_core p (new_partition (getActiveBrokerIDs ks s) rf p)" for rf p
    using assms(2) by (intro new_partition_core distinct_getActiveBrokerIDs)
  with assms(1) show ?thesis
    unfolding partitions_all_def partition_of_create_topic [OF None assms(3)]
    by (auto intro!: update_partition_wf dest: partition_wf_core split: if_splits)
qed

lemma exec_partitions_wf:
  assumes wf: "partitions_all partition_wf s" and ok: "choices_ok ch s (exec ch p s)"
  shows "partitions_all partition_wf (exec ch p s)"
proof -
  have core: "partitions_all partition_core s"
    using wf by (rule partitions_all_mono) (rule partition_wf_core)
  show ?thesis
  proof (cases p)
    case (PRegister p)
    with wf show ?thesis by (simp add: partitions_all_def)
  next
    case (PHeartbeat p)
    with ok core show ?thesis
      by (simp add: choices_ok_def visit_ok_heartbeat broker_heartbeat_wf)
  next
    case (PCreateTopic p)
    with wf ok show ?thesis
      by (auto simp: choices_ok_def intro: create_topic_wf)
  next
    case (PJoinGroup p)
    with wf show ?thesis by (simp add: partitions_all_def join_consumer_group_def Let_def)
  next
    case (PCommitOffset p)
    with wf show ?thesis by (simp add: partitions_all_def)
  next
    case PCleanInactive
    with ok core show ?thesis
      by (simp add: choices_ok_def visit_ok_clean_inactive clean_inactive_wf)
  qed
qed

section \<open>Names and identifiers\<close>

lemma topic_names_each_partition:
  "topic_names_ok s \<Longrightarrow> topic_names_ok (each_partition v f s)"
  unfolding topic_names_ok_def using each_partition_Name by blast

lemma topic_names_Brokers [simp]: "topic_names_ok (s\<lparr>Brokers := bs\<rparr>) = topic_names_ok s"
  by (simp add: topic_names_ok_def)

lemma fold_store_names:
  "topic_names_ok s \<Longrightarrow> topic_names_ok (fold (store_replica_offset b) ros s)"
  by (rule fold_invariant_mem)
     (auto simp: topic_names_ok_def store_replica_offset_def split: option.splits if_splits)

lemma fold_clean_names:
  "topic_names_ok s \<Longrightarrow> topic_names_ok (fold (clean_broker aks vs now) bks s)"
  by (rule fold_invariant_mem)
     (auto simp: clean_broker_def handleBrokerFailure_def Let_def
        intro: topic_names_each_partition split: option.splits)

lemma exec_names:
  assumes "topic_names_ok s"
  shows "topic_names_ok (exec ch p s)"
proof (cases p)
  case (PHeartbeat p)
  with assms show ?thesis
    by (auto simp: broker_heartbeat_def Let_def intro!: updateISRAndHW_names fold_store_names
        split: option.split)
next
  case (PCreateTopic p)
  with assms show ?thesis
    by (auto simp: create_topic_def new_topic_def intro!: updateISRAndHW_names split: option.split)
       (auto simp: topic_names_ok_def)
next
  case PCleanInactive
  with assms show ?thesis
    by (auto simp: clean_inactive_def intro!: updateISRAndHW_names fold_clean_names)
qed (use assms in \<open>simp_all add: topic_names_ok_def join_consumer_group_def Let_def\<close>)

lemma exec_broker_ids: "broker_ids_ok s \<Longrightarrow> broker_ids_ok (exec ch p s)"
proof (cases p)
  case PCleanInactive
  assume "broker_ids_ok s"
  then have "broker_ids_ok (fold (clean_broker aks vs now) bks s)" for aks vs now bks
    by (rule fold_invariant_mem) (rule broker_ids_clean_broker)
  with PCleanInactive show ?thesis by (simp add: clean_inactive_def broker_ids_ok_def)
qed (auto simp: broker_ids_ok_def register_broker_def broker_heartbeat_def Let_def
      join_consumer_group_def split: option.splits)

section \<open>Groups\<close>

lemma exec_partition_mono:
  assumes "partition_of s n p \<noteq> None"
  shows "partition_of (exec ch pr s) n p \<noteq> None"
proof (cases pr)
  case (PCreateTopic payload)
  let ?s1 = "s\<lparr>Topics := (Topics s)(ct_Name payload \<mapsto>
    new_topic (getActiveBrokerIDs (ch_brokers ch) s) payload)\<rparr>"
  have "partition_of ?s1 n p \<noteq> None" if "Topics s (ct_Name payload) = None"
    using that assms by (auto simp: partition_of_def split: option.splits)
  with PCreateTopic assms show ?thesis
    by (cases "Topics s (ct_Name payload)") (simp_all add: create_topic_def)
next
  case (PHeartbeat p)
  with assms show ?thesis by (simp add: partition_of_None_shape [OF shape_heartbeat])
next
  case PCleanInactive
  with assms show ?thesis by (simp add: partition_of_None_shape [OF shape_clean_inactive])
qed (use assms in \<open>simp_all add: join_consumer_group_def Let_def\<close>)

lemma group_wf_mono:
  assumes "group_wf s gid g" "\<And>n p. partition_of s n p \<noteq> None \<Longrightarrow> partition_of s' n p \<noteq> None"
  shows "group_wf s' gid g"
  using assms by (auto simp: group_wf_def)

lemma rebalanceGroup_frame [simp, frame_simps]:
  "GroupID (rebalanceGroup mks tks gps s g) = GroupID g"
  "Members (rebalanceGroup mks tks gps s g) = Members g"
  "Generation (rebalanceGroup mks tks gps s g) = Generation g + 1"
  by (simp_all add: rebalanceGroup_def)

lemma rebalance_ok_rebalanced [simp]:
  "rebalance_ok mks tks gps s (rebalanceGroup mks' tks' gps' s' g) = rebalance_ok mks tks gps s g"
  by (simp add: rebalance_ok_def)

lemma rebalanceGroup_wf:
  assumes ok: "rebalance_ok mks tks gps s g" and "GroupID g = gid"
    and "\<forall>m gm. Members g m = Some gm \<longrightarrow> GM_ID gm = m"
  shows "group_wf s gid (rebalanceGroup mks tks gps s g)"
  using assms(2,3) assigned_subscribes [OF ok] distinct_assigned [OF ok] assigned_iff [OF ok]
  by (simp add: group_wf_def)

lemma join_groups_wf:
  assumes wf: "groups_wf s"
    and ok: "\<And>g. ConsumerGroups (join_consumer_group now mks tks gps p s) (jg_GroupID p) = Some g \<Longrightarrow>
      rebalance_ok mks tks gps s g"
  shows "groups_wf (join_consumer_group now mks tks gps p s)"
proof -
  obtain g where g: "ConsumerGroups (join_consumer_group now mks tks gps p s) =
      (ConsumerGroups s)(jg_GroupID p \<mapsto> rebalanceGroup mks tks gps s g)"
    and "GroupID g = jg_GroupID p" "\<forall>m gm. Members g m = Some gm \<longrightarrow> GM_ID gm = m"
    using wf
    by (cases "ConsumerGroups s (jg_GroupID p)")
       (auto simp: join_consumer_group_def Let_def groups_wf_def group_wf_def)
  moreover from ok [unfolded g] have "rebalance_ok mks tks gps s g" by simp
  ultimately have "group_wf s (jg_GroupID p) (rebalanceGroup mks tks gps s g)"
    by (intro rebalanceGroup_wf)
  moreover have "partition_of (join_consumer_group now mks tks gps p s) = partition_of s"
    by (simp add: join_consumer_group_def Let_def)
  ultimately show ?thesis
    using wf by (simp add: groups_wf_def g group_wf_def)
qed

lemma exec_groups_frame:
  "(\<And>p. pr \<noteq> PJoinGroup p) \<Longrightarrow> ConsumerGroups (exec ch pr s) = ConsumerGroups s"
  by (cases pr)
     (auto simp: broker_heartbeat_def clean_inactive_def Let_def split: option.splits)

lemma join_group_changes:
  "ConsumerGroups (join_consumer_group now mks tks gps p s) (jg_GroupID p) \<noteq>
     ConsumerGroups s (jg_GroupID p)"
proof
  assume eq: "ConsumerGroups (join_consumer_group now mks tks gps p s) (jg_GroupID p) =
    ConsumerGroups s (jg_GroupID p)"
  then obtain g where "ConsumerGroups s (jg_GroupID p) = Some g"
    by (auto simp: join_consumer_group_def Let_def split: option.splits)
  with eq have "Generation g + 1 = Generation g"
    by (auto simp: join_consumer_group_def Let_def dest: arg_cong [where f = Generation])
  then show False by simp
qed

lemma exec_groups_wf:
  assumes wf: "groups_wf s" and ok: "choices_ok ch s (exec ch pr s)"
  shows "groups_wf (exec ch pr s)"
proof (cases "\<exists>p. pr = PJoinGroup p")
  case True
  then obtain p where pr: "pr = PJoinGroup p" by blast
  let ?s = "join_consumer_group (ch_now ch) (ch_members ch) (ch_subscribed ch) (ch_group_parts ch) p s"
  have "rebalance_ok (ch_members ch) (ch_subscribed ch) (ch_group_parts ch) s g"
    if "ConsumerGroups ?s (jg_GroupID p) = Some g" for g
    using ok that join_group_changes [of "ch_now ch" "ch_members ch" "ch_subscribed ch" "ch_group_parts ch" p s]
    unfolding choices_ok_def pr exec.simps by blast
  then show ?thesis unfolding pr exec.simps by (intro join_groups_wf wf)
next
  case False
  then have "ConsumerGroups (exec ch pr s) = ConsumerGroups s" by (simp add: exec_groups_frame)
  moreover have "group_wf (exec ch pr s) gid g" if "group_wf s gid g" for gid g
    using that exec_partition_mono by (rule group_wf_mono)
  ultimately show ?thesis using wf by (simp add: groups_wf_def)
qed

theorem exec_wf_state: "wf_state s \<Longrightarrow> choices_ok ch s (exec ch p s) \<Longrightarrow> wf_state (exec ch p s)"
  unfolding wf_state_def
  by (blast intro: exec_broker_ids exec_names exec_partitions_wf exec_groups_wf)

lemma wf_NewFSM: "wf_state NewFSM"
  by (simp add: wf_state_def NewFSM_def broker_ids_ok_def topic_names_ok_def partitions_all_def
      partition_of_def groups_wf_def)

interpretation cluster_wf: inductive_invariant "\<lambda>_. True" cluster_step NewFSM wf_state
  by unfold_locales (auto simp: cluster_step_def intro: wf_NewFSM exec_wf_state)

section \<open>Leaders\<close>

lemma active_heartbeat:
  "broker_active (Brokers s) r \<Longrightarrow> broker_active (Brokers (broker_heartbeat now now_isr v p s)) r"
  by (auto simp: broker_heartbeat_def Let_def broker_active_def split: option.splits)

lemma LeaderID_store:
  assumes "partition_of (fold (store_replica_offset b) ros s) n p = Some q"
  shows "\<exists>q0. partition_of s n p = Some q0 \<and> LeaderID q = LeaderID q0"
  using assms
proof (induction ros arbitrary: s)
  case (Cons ro ros)
  then obtain q1 where "partition_of (store_replica_offset b ro s) n p = Some q1"
    "LeaderID q = LeaderID q1" by auto
  then show ?case
    by (auto simp: partition_of_store_replica_offset split: if_splits)
qed simp

lemma LeaderID_updateISRAndHW:
  assumes "visit_ok v s" "partition_of (updateISRAndHW now v s) n p = Some q"
  shows "\<exists>q0. partition_of s n p = Some q0 \<and> LeaderID q = LeaderID q0"
  using assms by (auto simp: partition_of_updateISRAndHW)

lemma LeaderID_heartbeat:
  assumes "visit_ok v s" "partition_of (broker_heartbeat now now_isr v hb s) n p = Some q"
  shows "\<exists>q0. partition_of s n p = Some q0 \<and> LeaderID q = LeaderID q0"
proof -
  obtain bs where bs: "(case Brokers s (hb_ID hb) of None \<Rightarrow> s
      | Some b \<Rightarrow> s\<lparr>Brokers := (Brokers s)(hb_ID hb \<mapsto> b\<lparr>LastSeen := now, Active := True\<rparr>)\<rparr>) =
      s\<lparr>Brokers := bs\<rparr>"
    using that [of "Brokers s"] that by (cases "Brokers s (hb_ID hb)") simp_all
  from assms(2) have "partition_of (updateISRAndHW now_isr v
      (fold (store_replica_offset (hb_ID hb)) (hb_ReplicaOffsets hb) (s\<lparr>Brokers := bs\<rparr>))) n p = Some q"
    unfolding broker_heartbeat_def Let_def bs .
  then obtain q1 where "partition_of (fold (store_replica_offset (hb_ID hb)) (hb_ReplicaOffsets hb)
      (s\<lparr>Brokers := bs\<rparr>)) n p = Some q1" "LeaderID q = LeaderID q1"
    using assms(1) by (auto simp: visit_ok_shape dest!: LeaderID_updateISRAndHW [rotated])
  then show ?thesis using LeaderID_store by fastforce
qed

lemma leaders_activeI:
  assumes "leaders_active s"
    and "\<And>n p q. partition_of s' n p = Some q \<Longrightarrow>
      broker_active (Brokers s') (LeaderID q) \<or>
      (\<exists>q0. partition_of s n p = Some q0 \<and> LeaderID q = LeaderID q0)"
    and "\<And>r. broker_active (Brokers s) r \<Longrightarrow> broker_active (Brokers s') r"
  shows "leaders_active s'"
  using assms unfolding leaders_active_def by metis

lemma create_topic_leaders:
  assumes la: "leaders_active s" and act: "some_active s" and ks: "range_ok ks (Brokers s)"
    and v: "visit_ok v (create_topic ks now v payload s)"
  shows "leaders_active (create_topic ks now v payload s)"
proof (cases "Topics s (ct_Name payload)")
  case (Some t)
  with la show ?thesis by (simp add: create_topic_def)
next
  case None
  let ?act = "getActiveBrokerIDs ks s"
  have ne: "?act \<noteq> []" using act ks by (simp add: getActiveBrokerIDs_Nil)
  then have "?act ! (i mod length ?act) \<in> set ?act" for i by simp
  then have "broker_active (Brokers s) (?act ! (i mod length ?act))" for i
    by (simp add: set_getActiveBrokerIDs)
  with la ne show ?thesis
    unfolding leaders_active_def partition_of_create_topic [OF None v]
    by (auto split: if_splits)
qed

lemma clean_inactive_leaders:
  assumes "broker_ids_ok s" "leaders_active s" "\<forall>k. visit_ok (vs k) s"
    "\<forall>k. range_ok (aks k) (Brokers s)" "visit_ok v s"
    and "some_active (clean_inactive bks aks vs now now_isr v s)"
  shows "leaders_active (clean_inactive bks aks vs now now_isr v s)"
  unfolding leaders_active_def
proof (intro allI impI)
  fix n p q
  let ?F = "fold (clean_broker aks vs now) bks s"
  assume "partition_of (clean_inactive bks aks vs now now_isr v s) n p = Some q"
  then obtain q1 where q1: "partition_of ?F n p = Some q1" "LeaderID q = LeaderID q1"
    unfolding clean_inactive_def using assms(5)
    by (auto simp: visit_ok_shape dest!: LeaderID_updateISRAndHW [rotated])
  have "some_active ?F" using assms(6) by (simp add: clean_inactive_def some_active_def)
  from fold_clean_leader [OF assms(1,3,4) this q1(1)] assms(2) q1(2)
  show "broker_active (Brokers (clean_inactive bks aks vs now now_isr v s)) (LeaderID q)"
    by (auto simp: leaders_active_def clean_inactive_def)
qed

lemma exec_leaders_active:
  assumes "broker_ids_ok s" "leaders_active s" "choices_ok ch s (exec ch pr s)"
    "some_active (exec ch pr s)"
  shows "leaders_active (exec ch pr s)"
proof (cases pr)
  case (PRegister p)
  show ?thesis
    by (rule leaders_activeI [OF assms(2)])
       (auto simp: PRegister register_broker_def broker_active_def)
next
  case (PHeartbeat p)
  have v: "visit_ok (ch_visit ch) s"
    using assms(3) by (simp add: choices_ok_def PHeartbeat visit_ok_heartbeat)
  show ?thesis
    by (rule leaders_activeI [OF assms(2)])
       (auto simp: PHeartbeat intro: active_heartbeat dest: LeaderID_heartbeat [OF v])
next
  case (PCreateTopic p)
  then show ?thesis
    using assms by (auto simp: choices_ok_def some_active_def intro!: create_topic_leaders)
next
  case PCleanInactive
  then show ?thesis
    using assms by (auto simp: choices_ok_def visit_ok_clean_inactive intro!: clean_inactive_leaders)
qed (use assms(2) in \<open>simp_all add: leaders_active_def join_consumer_group_def Let_def\<close>)

interpretation cluster_leaders:
  inductive_invariant some_active cluster_step NewFSM "\<lambda>s. broker_ids_ok s \<and> leaders_active s"
proof
  show "broker_ids_ok NewFSM \<and> leaders_active NewFSM"
    by (simp add: NewFSM_def broker_ids_ok_def leaders_active_def partition_of_def)
qed (auto simp: cluster_step_def intro: exec_broker_ids exec_leaders_active)

section \<open>Properties\<close>

text \<open>
  C1: whatever commands the controller's cluster executes, in any order and with any clock and
  visiting orders, the state is well-formed: brokers, topics, partitions and members are filed
  under their own identifiers; replicas are distinct; the in-sync replicas are distinct, drawn from
  leader and replicas, and the high watermark is the minimum of their offsets (0 without any);
  the assignments of a group are distinct, name existing partitions of topics their owner
  subscribes to, and no partition has two owners in a group.
\<close>

theorem reachable_wf_state:
  assumes "reach (\<lambda>_. True) cluster_step NewFSM s"
  shows "wf_state s"
  using assms by (rule cluster_wf.reach_inv)

text \<open>
  C2: along every run in which each state entered has an active broker, every partition is led by
  an active broker.
\<close>

theorem reachable_leaders_active:
  assumes "reach some_active cluster_step NewFSM s" "partition_of s n p = Some q"
  shows "broker_active (Brokers s) (LeaderID q)"
  using cluster_leaders.reach_inv [OF assms(1)] assms(2) by (auto simp: leaders_active_def)

text \<open>
  C15: the log.  Applying the encoded form of a command is executing it: the field names and
  types that the proposing side writes are those that \<open>FSM.Apply\<close> reads, for every command.
\<close>

theorem Apply_refines_exec:
  assumes "valid_proposal p"
  shows "Apply ch (Data (encode p)) s = Inr (None, exec ch p s)"
  using assms by (rule Apply_encode)

text \<open>
  What \<open>FSM.Apply\<close> does with entries it cannot read.  An entry that is no JSON text or no
  command object yields an error; a command with an unknown name, or one whose payload does not
  decode, is reported as applied; the state is the same in each case.
\<close>

lemma Apply_unreadable:
  "Apply ch Malformed s = Inr (Some json_error, s) \<and>
   (\<forall>d. unmarshal dec_Command \<lparr>Op = [], Payload = None\<rparr> d = None \<longrightarrow> Apply ch d s = Inr (Some json_error, s)) \<and>
   (\<forall>d cmd. unmarshal dec_Command \<lparr>Op = [], Payload = None\<rparr> d = Some cmd \<and>
      (Op cmd \<notin> {CmdRegisterBroker, CmdBrokerHeartbeat, CmdCreateTopic, CmdAssignPartitions,
         CmdJoinConsumerGroup, CmdCommitOffset, CmdCleanInactive} \<or>
       Op cmd = CmdRegisterBroker \<and> unmarshal_payload dec_RegisterBroker zero_RegisterBroker cmd = None \<or>
       Op cmd = CmdBrokerHeartbeat \<and> unmarshal_payload dec_Heartbeat zero_Heartbeat cmd = None \<or>
       Op cmd = CmdCreateTopic \<and> unmarshal_payload dec_CreateTopic zero_CreateTopic cmd = None \<or>
       Op cmd = CmdAssignPartitions \<and> unmarshal_payload dec_AssignPartitions zero_AssignPartitions cmd = None \<or>
       Op cmd = CmdJoinConsumerGroup \<and> unmarshal_payload dec_JoinGroup zero_JoinGroup cmd = None \<or>
       Op cmd = CmdCommitOffset \<and> unmarshal_payload dec_CommitOffset zero_CommitOffset cmd = None) \<longrightarrow>
      Apply ch d s = Inr (None, s))"
proof (intro conjI allI impI)
  fix d cmd
  let ?un = "unmarshal dec_Command \<lparr>Op = [], Payload = None\<rparr> d = Some cmd"
  assume a: "?un \<and> (Op cmd \<notin> {CmdRegisterBroker, CmdBrokerHeartbeat, CmdCreateTopic, CmdAssignPartitions,
         CmdJoinConsumerGroup, CmdCommitOffset, CmdCleanInactive} \<or>
       Op cmd = CmdRegisterBroker \<and> unmarshal_payload dec_RegisterBroker zero_RegisterBroker cmd = None \<or>
       Op cmd = CmdBrokerHeartbeat \<and> unmarshal_payload dec_Heartbeat zero_Heartbeat cmd = None \<or>
       Op cmd = CmdCreateTopic \<and> unmarshal_payload dec_CreateTopic zero_CreateTopic cmd = None \<or>
       Op cmd = CmdAssignPartitions \<and> unmarshal_payload dec_AssignPartitions zero_AssignPartitions cmd = None \<or>
       Op cmd = CmdJoinConsumerGroup \<and> unmarshal_payload dec_JoinGroup zero_JoinGroup cmd = None \<or>
       Op cmd = CmdCommitOffset \<and> unmarshal_payload dec_CommitOffset zero_CommitOffset cmd = None)"
  then have "apply_command ch cmd s = Inr s"
    by (elim conjE disjE) (simp_all add: apply_command_def, simp_all add: cmd_defs)
  with a show "Apply ch d s = Inr (None, s)" by (simp add: Apply_def)
qed (simp_all add: Apply_def unmarshal_def)

text \<open>
  Snapshots.  The state that \<open>Snapshot\<close> serializes is the state \<open>Restore\<close> installs, whatever
  state the restoring node had; \<open>Persist\<close> hands the sink exactly those bytes and closes it.
\<close>

lemma snapshot_restore:
  assumes "valid_ClusterState s" "Snapshot s = Inr stateData"
  shows "Restore (Inr (Data stateData)) s0 = (None, s) \<and>
    Persist None None stateData = (None, [Write stateData, Close])"
  using assms cluster_json.dec_enc [of s]
  by (simp add: Snapshot_def Restore_def unmarshal_def Persist_def split: if_splits)

text \<open>A run: a broker registers, then a topic with one partition is created.\<close>

definition demo_choices :: "u32 list \<Rightarrow> visit \<Rightarrow> choices" where
  "demo_choices bks v = \<lparr>ch_now = 0, ch_now_isr = 0, ch_brokers = bks, ch_failover = (\<lambda>_. bks),
     ch_failover_visit = (\<lambda>_. \<lparr>v_topics = [], v_parts = (\<lambda>_. [])\<rparr>), ch_visit = v,
     ch_members = [], ch_subscribed = [], ch_group_parts = (\<lambda>_. []), ch_payload = []\<rparr>"

definition no_visit :: visit where
  "no_visit = \<lparr>v_topics = [], v_parts = (\<lambda>_. [])\<rparr>"

definition demo_visit :: visit where
  "demo_visit = \<lparr>v_topics = [''t''], v_parts = (\<lambda>_. [0])\<rparr>"

definition demo_register :: proposal where
  "demo_register = PRegister \<lparr>rb_ID = 1, rb_Host = ''h'', rb_Port = 9091\<rparr>"

definition demo_create :: proposal where
  "demo_create = PCreateTopic \<lparr>ct_Name = ''t'', ct_Partitions = 1, ct_ReplicationFactor = 1\<rparr>"

definition demo_state1 :: ClusterState where
  "demo_state1 = exec (demo_choices [] no_visit) demo_register NewFSM"

definition demo_state2 :: ClusterState where
  "demo_state2 = exec (demo_choices [1] demo_visit) demo_create demo_state1"

lemma demo_state1_eq: "demo_state1 = NewFSM\<lparr>Brokers := [1 \<mapsto> \<lparr>ID = 1, Host = ''h'', Port = 9091,
    LastSeen = 0, Active = True\<rparr>]\<rparr>"
  by (simp add: demo_state1_def demo_register_def register_broker_def NewFSM_def demo_choices_def)

lemma demo_shape: "shape demo_state2 = [''t'' \<mapsto> {0}]"
proof -
  have "p < 1 \<longleftrightarrow> p = 0" for p :: u32 by (simp add: word_less_1)
  then have "dom (Partitions (new_topic act \<lparr>ct_Name = ''t'', ct_Partitions = 1, ct_ReplicationFactor = 1\<rparr>)) = {0}" for act
    by (auto simp: dom_def Partitions_new_topic)
  then show ?thesis
    by (auto simp: demo_state2_def demo_create_def demo_choices_def create_topic_def demo_state1_eq
        NewFSM_def updateISRAndHW_def fun_eq_iff shape_def)
qed

lemma demo_step_choices:
  "choices_ok (demo_choices [] no_visit) NewFSM demo_state1"
  "choices_ok (demo_choices [1] demo_visit) demo_state1 demo_state2"
proof -
  show "choices_ok (demo_choices [] no_visit) NewFSM demo_state1"
    by (simp add: choices_ok_def demo_state1_eq NewFSM_def demo_choices_def no_visit_def range_ok_def visit_ok_def)
  have "ConsumerGroups demo_state2 = ConsumerGroups demo_state1"
    unfolding demo_state2_def by (rule exec_groups_frame) (simp add: demo_create_def)
  moreover have "visit_ok demo_visit demo_state2"
    by (simp add: visit_ok_shape demo_shape demo_visit_def)
  ultimately show "choices_ok (demo_choices [1] demo_visit) demo_state1 demo_state2"
    by (simp add: choices_ok_def demo_state1_eq NewFSM_def demo_choices_def range_ok_def visit_ok_def)
qed

lemma demo_steps: "cluster_step NewFSM demo_state1" "cluster_step demo_state1 demo_state2"
  unfolding cluster_step_def using demo_step_choices demo_state1_def demo_state2_def by blast+

lemma demo_active: "some_active demo_state1" "some_active demo_state2"
proof -
  have 1: "broker_active (Brokers demo_state1) 1" by (simp add: demo_state1_eq broker_active_def)
  then show "some_active demo_state1" by (auto simp: some_active_def)
  have "Brokers demo_state2 = Brokers demo_state1" by (simp add: demo_state2_def demo_create_def)
  with 1 show "some_active demo_state2" by (auto simp: some_active_def)
qed

lemma demo_reach: "reach some_active cluster_step NewFSM demo_state2"
  by (blast intro: reach.intros demo_steps demo_active)

theorem reachable_wf_state_witness: "wf_state demo_state2"
  by (rule reachable_wf_state) (rule reach_weaken [OF demo_reach], simp)

theorem reachable_leaders_active_witness:
  "\<exists>q. partition_of demo_state2 ''t'' 0 = Some q \<and> broker_active (Brokers demo_state2) (LeaderID q)"
proof -
  obtain q where "partition_of demo_state2 ''t'' 0 = Some q"
    using partition_of_shape [of demo_state2 "''t''" 0] by (auto simp: demo_shape)
  with reachable_leaders_active [OF demo_reach this] show ?thesis by blast
qed

theorem Apply_refines_exec_witness:
  "Apply (demo_choices [] no_visit) (Data (encode demo_register)) NewFSM = Inr (None, demo_state1)"
  unfolding demo_state1_def by (rule Apply_refines_exec) (simp add: demo_register_def)

lemma Apply_unreadable_example:
  "Apply (demo_choices [] no_visit) (Data (JObj [(''op'', JStr ''drop_topic''), (''payload'', JNull)])) NewFSM =
     Inr (None, NewFSM)"
proof -
  have "unmarshal dec_Command \<lparr>Op = [], Payload = None\<rparr>
      (Data (JObj [(''op'', JStr ''drop_topic''), (''payload'', JNull)])) =
      Some \<lparr>Op = ''drop_topic'', Payload = Some JNull\<rparr>"
    by (simp add: unmarshal_def dec_Command_def struct_simps dec_str_def)
  moreover have "''drop_topic'' \<notin> {CmdRegisterBroker, CmdBrokerHeartbeat, CmdCreateTopic, CmdAssignPartitions,
      CmdJoinConsumerGroup, CmdCommitOffset, CmdCleanInactive}" by (simp add: cmd_defs)
  ultimately show ?thesis
    using Apply_unreadable [of "demo_choices [] no_visit" NewFSM] by simp
qed

lemma snapshot_restore_example:
  "Restore (Inr (Data (enc_ClusterState demo_state1))) NewFSM = (None, demo_state1)"
proof -
  have valid: "valid_ClusterState demo_state1"
    by (auto simp: valid_ClusterState_def demo_state1_eq NewFSM_def valid_keys_def)
  have "range_ok (marshal_keys show_u32 (Brokers demo_state1)) (Brokers demo_state1)"
    by (rule range_ok_marshal_keys) (simp add: demo_state1_eq)
  then have "Snapshot demo_state1 = Inr (enc_ClusterState demo_state1)"
    by (auto simp: Snapshot_def state_times_def list_all_iff range_entries_ok demo_state1_eq
        NewFSM_def json_time_ok_def seconds_def set_range_entries split: if_splits)
  from snapshot_restore [OF valid this] show ?thesis by simp
qed

end
