(* ===== verification/Raft_Node.thy ===== *)
theory Raft_Node
  imports FSM_Invariants
begin

text \<open>
  The Raft node (\<open>go-controller/pkg/consensus/raft.go\<close>): \<open>NewRaftNode\<close>, \<open>Propose\<close> and
  \<open>Join\<close>.

  The library \<open>hashicorp/raft\<close> is not part of the repository: its calls are the fields of
  \<open>raft_lib\<close>, and its state is a type variable.  A call may let other entries of the log
  reach the FSM, so it returns the FSM's state too.  What the code relies on is the hypothesis
  \<open>applies_log\<close>: when a future of \<open>Apply\<close> succeeds, the entry went through the node's
  \<open>FSM.Apply\<close>, possibly between other entries, and its response is what \<open>FSM.Apply\<close> returned.
\<close>

section \<open>The library\<close>

datatype RaftState = Follower | Candidate | Leader | Shutdown

fun RaftState_String :: "RaftState \<Rightarrow> string" where
  "RaftState_String Follower = ''Follower''"
| "RaftState_String Candidate = ''Candidate''"
| "RaftState_String Leader = ''Leader''"
| "RaftState_String Shutdown = ''Shutdown''"

text \<open>
  The result of \<open>Apply\<close>: the error of the future, or the response of the FSM (an error value
  or nil).
\<close>

record 'r raft_lib =
  raft_State :: "'r \<Rightarrow> RaftState"
  raft_Leader :: "'r \<Rightarrow> string"
  raft_Apply :: "log_data \<Rightarrow> 'r \<Rightarrow> ClusterState \<Rightarrow> (error + error option) \<times> 'r \<times> ClusterState"
  raft_AddVoter :: "string \<Rightarrow> string \<Rightarrow> 'r \<Rightarrow> ClusterState \<Rightarrow> error option \<times> 'r \<times> ClusterState"

record 'r RaftNode =
  RN_Raft :: 'r
  RN_FSM :: ClusterState
  RN_NodeID :: string

section \<open>Starting a node\<close>

record raft_config =
  LocalID :: string
  HeartbeatTimeout :: int
  ElectionTimeout :: int
  LeaderLeaseTimeout :: int
  CommitTimeout :: int

datatype snapshot_store = FileSnapshotStore string nat | DiscardSnapshotStore

text \<open>
  The calls of \<open>NewRaftNode\<close> into the library and the operating system.  \<open>NewRaft\<close> gets the
  configuration, the FSM, the snapshot store and the transport; it may call \<open>FSM.Restore\<close>, so it returns the
  FSM's state too.  \<open>BootstrapCluster\<close> gets the servers, by identifier and address (its result is dropped by the code).
\<close>

record ('r, 't) raft_env =
  DefaultConfig :: raft_config
  ResolveTCPAddr :: "string \<Rightarrow> error + string"
  NewTCPTransport :: "string \<Rightarrow> string \<Rightarrow> error + 't"
  LocalAddr :: "'t \<Rightarrow> string"
  MkdirAll :: "string \<Rightarrow> error option"
  NewFileSnapshotStore :: "string \<Rightarrow> nat \<Rightarrow> error option"
  NewRaft :: "raft_config \<Rightarrow> ClusterState \<Rightarrow> snapshot_store \<Rightarrow> 't \<Rightarrow> error + 'r \<times> ClusterState"
  BootstrapCluster :: "(string \<times> string) list \<Rightarrow> 'r \<Rightarrow> 'r"

definition milliseconds :: "int \<Rightarrow> int" where
  "milliseconds n = n * 1000000"

definition node_config :: "raft_config \<Rightarrow> string \<Rightarrow> raft_config" where
  "node_config dflt nodeID = dflt\<lparr>LocalID := nodeID, HeartbeatTimeout := milliseconds 200,
     ElectionTimeout := milliseconds 200, LeaderLeaseTimeout := milliseconds 150,
     CommitTimeout := milliseconds 50\<rparr>"

definition snapshot_store_for :: "('r, 't) raft_env \<Rightarrow> string \<Rightarrow> error + snapshot_store" where
  "snapshot_store_for env dataDir =
     (if dataDir \<noteq> [] then
        case MkdirAll env dataDir of
          Some err \<Rightarrow> Inl (''failed to create data dir: '' @ err)
        | None \<Rightarrow>
            (case NewFileSnapshotStore env dataDir 2 of
               Some err \<Rightarrow> Inl (''failed to create file snapshot store: '' @ err)
             | None \<Rightarrow> Inr (FileSnapshotStore dataDir 2))
      else Inr DiscardSnapshotStore)"

definition NewRaftNode ::
  "('r, 't) raft_env \<Rightarrow> string \<Rightarrow> string \<Rightarrow> string \<Rightarrow> bool \<Rightarrow> error + 'r RaftNode"
where
  "NewRaftNode env nodeID raftAddr dataDir bootstrap =
     (let config = node_config (DefaultConfig env) nodeID in
      case ResolveTCPAddr env raftAddr of
        Inl err \<Rightarrow> Inl (''failed to resolve raft addr '' @ raftAddr @ '': '' @ err)
      | Inr addr \<Rightarrow>
      case NewTCPTransport env raftAddr addr of
        Inl err \<Rightarrow> Inl (''failed to create tcp transport: '' @ err)
      | Inr transport \<Rightarrow>
      case snapshot_store_for env dataDir of
        Inl err \<Rightarrow> Inl err
      | Inr snapshotStore \<Rightarrow>
      case NewRaft env config NewFSM snapshotStore transport of
        Inl err \<Rightarrow> Inl (''failed to construct raft node: '' @ err)
      | Inr (r, fsm) \<Rightarrow>
          Inr \<lparr>RN_Raft = (if bootstrap
                 then BootstrapCluster env [(LocalID config, LocalAddr env transport)] r else r),
               RN_FSM = fsm, RN_NodeID = nodeID\<rparr>)"

section \<open>Proposals and membership\<close>

text \<open>
  \<open>Propose\<close> gets the marshalled payload: the structs the handlers pass consist of integers,
  strings and slices of them, for which \<open>json.Marshal\<close> does not fail.
\<close>

definition Propose ::
  "'r raft_lib \<Rightarrow> string \<Rightarrow> json \<Rightarrow> 'r RaftNode \<Rightarrow> error option \<times> 'r RaftNode"
where
  "Propose raft op rawPayload rn =
     (if raft_State raft (RN_Raft rn) \<noteq> Leader then
        (Some (''not the leader (current leader is '' @ raft_Leader raft (RN_Raft rn) @ '')''), rn)
      else
        case raft_Apply raft (Data (enc_Command op rawPayload)) (RN_Raft rn) (RN_FSM rn) of
          (future, r, s) \<Rightarrow>
            let rn' = rn\<lparr>RN_Raft := r, RN_FSM := s\<rparr> in
            (case future of
               Inl err \<Rightarrow> (Some (''raft apply error: '' @ err), rn')
             | Inr res \<Rightarrow> (res, rn')))"

definition Join ::
  "'r raft_lib \<Rightarrow> string \<Rightarrow> string \<Rightarrow> 'r RaftNode \<Rightarrow> error option \<times> 'r RaftNode"
where
  "Join raft nodeID addr rn =
     (if raft_State raft (RN_Raft rn) \<noteq> Leader then (Some ''cannot join node: not the leader'', rn)
      else
        case raft_AddVoter raft nodeID addr (RN_Raft rn) (RN_FSM rn) of
          (future, r, s) \<Rightarrow>
            let rn' = rn\<lparr>RN_Raft := r, RN_FSM := s\<rparr> in
            (case future of
               Some err \<Rightarrow>
                 (Some (''failed to add voter '' @ nodeID @ '' ('' @ addr @ ''): '' @ err), rn')
             | None \<Rightarrow> (None, rn')))"

section \<open>What the library promises\<close>

text \<open>One call of \<open>FSM.Apply\<close> that returns, with visiting orders that are possible.\<close>

definition applied ::
  "choices \<Rightarrow> log_data \<Rightarrow> ClusterState \<Rightarrow> error option \<Rightarrow> ClusterState \<Rightarrow> bool"
where
  "applied ch d s resp s' \<longleftrightarrow> Apply ch d s = Inr (resp, s') \<and> choices_ok ch s s'"

text \<open>The FSM after some further entries of the log.\<close>

inductive log_run :: "ClusterState \<Rightarrow> ClusterState \<Rightarrow> bool" where
  log_run_refl: "log_run s s"
| log_run_step: "log_run s s1 \<Longrightarrow> applied ch d s1 resp s2 \<Longrightarrow> log_run s s2"

definition applies_log :: "'r raft_lib \<Rightarrow> bool" where
  "applies_log raft \<longleftrightarrow>
     (\<forall>d r s resp r' s'. raft_Apply raft d r s = (Inr resp, r', s') \<longrightarrow>
        (\<exists>s1 s2 ch. log_run s s1 \<and> applied ch d s1 resp s2 \<and> log_run s2 s'))"

text \<open>
  The special case of a single proposer: no other entry reaches the FSM during the call, and
  the orders and clock readings of \<open>FSM.Apply\<close> are \<open>ch\<close>.
\<close>

definition applies_alone :: "(ClusterState \<Rightarrow> log_data \<Rightarrow> choices) \<Rightarrow> 'r raft_lib \<Rightarrow> bool" where
  "applies_alone ch raft \<longleftrightarrow>
     (\<forall>d r s. raft_State raft r = Leader \<longrightarrow>
        (\<forall>resp s'. applied (ch s d) d s resp s' \<longrightarrow>
           raft_Apply raft d r s = (Inr resp, r, s')))"

lemma log_run_trans: "log_run s t \<Longrightarrow> log_run r s \<Longrightarrow> log_run r t"
  by (induction rule: log_run.induct) (auto intro: log_run.intros)

text \<open>An unsuccessful proposal of a node that does not lead changes nothing.\<close>

lemma Propose_not_leader:
  "raft_State raft (RN_Raft rn) \<noteq> Leader \<Longrightarrow>
     Propose raft op j rn =
       (Some (''not the leader (current leader is '' @ raft_Leader raft (RN_Raft rn) @ '')''), rn)"
  by (simp add: Propose_def)

lemma Propose_ok:
  assumes "applies_log raft" "valid_proposal p"
    and "Propose raft op j rn = (None, rn')" "enc_Command op j = encode p"
  obtains s1 ch where "log_run (RN_FSM rn) s1" "choices_ok ch s1 (exec ch p s1)"
    "log_run (exec ch p s1) (RN_FSM rn')"
proof -
  from assms(3,4) have "raft_Apply raft (Data (encode p)) (RN_Raft rn) (RN_FSM rn) =
      (Inr None, RN_Raft rn', RN_FSM rn')"
    by (auto simp: Propose_def Let_def split: if_splits prod.splits sum.splits)
  with assms(1) obtain s1 s2 ch where "log_run (RN_FSM rn) s1"
    "applied ch (Data (encode p)) s1 None s2" "log_run s2 (RN_FSM rn')"
    unfolding applies_log_def by meson
  with that assms(2) show ?thesis by (auto simp: Apply_encode applied_def)
qed

lemma Propose_alone:
  assumes "applies_alone ch raft" "raft_State raft (RN_Raft rn) = Leader" "valid_proposal p"
    and "enc_Command op j = encode p"
  defines "s' \<equiv> exec (ch (RN_FSM rn) (Data (encode p))) p (RN_FSM rn)"
  assumes "choices_ok (ch (RN_FSM rn) (Data (encode p))) (RN_FSM rn) s'"
  shows "Propose raft op j rn = (None, rn\<lparr>RN_FSM := s'\<rparr>)"
proof -
  have "applied (ch (RN_FSM rn) (Data (encode p))) (Data (encode p)) (RN_FSM rn) None s'"
    using assms(6) Apply_encode [OF assms(3)] by (simp add: applied_def s'_def)
  with assms(1,2) have "raft_Apply raft (Data (encode p)) (RN_Raft rn) (RN_FSM rn) =
      (Inr None, RN_Raft rn, s')"
    unfolding applies_alone_def by blast
  then show ?thesis using assms(2,4) by (simp add: Propose_def)
qed

text \<open>
  A one-node cluster: the library of a leader that applies every entry at once.  It shows that
  the two hypotheses can hold.
\<close>

definition local_raft :: "(ClusterState \<Rightarrow> log_data \<Rightarrow> choices) \<Rightarrow> RaftState raft_lib" where
  "local_raft ch = \<lparr>raft_State = (\<lambda>r. r), raft_Leader = (\<lambda>_. ''127.0.0.1:7001''),
     raft_Apply = (\<lambda>d r s. if r \<noteq> Leader then (Inl ''node is not the leader'', r, s)
       else case Apply (ch s d) d s of Inl _ \<Rightarrow> (Inl ''raft is already shutdown'', Shutdown, s)
          | Inr (resp, s') \<Rightarrow> if choices_ok (ch s d) s s' then (Inr resp, r, s')
              else (Inl ''timed out enqueuing operation'', r, s)),
     raft_AddVoter = (\<lambda>_ _ r s. (None, r, s))\<rparr>"

lemma local_raft_alone: "applies_alone ch (local_raft ch)"
  by (simp add: applies_alone_def local_raft_def applied_def)

lemma local_raft_log: "applies_log (local_raft ch)"
  unfolding applies_log_def local_raft_def applied_def
  by (auto split: if_splits sum.splits prod.splits) (blast intro: log_run_refl)

section \<open>Invariants along the log\<close>

text \<open>
  Groups stay well-formed whatever the log holds, and no entry removes a partition.  (An
  \<open>assign_partitions\<close> entry, which no part of the program proposes, may store any partition
  state, so the invariant of the partitions is not stable under all entries.)
\<close>

lemma assign_loop_mono:
  "assign_loop ks ps m = Inr m' \<Longrightarrow> m p \<noteq> None \<Longrightarrow> m' p \<noteq> None"
  by (induction ks ps m rule: assign_loop.induct) (auto split: option.splits if_splits)

lemma assign_partitions_frame:
  assumes "assign_partitions pks now v payload s = Inr s'"
  shows "ConsumerGroups s' = ConsumerGroups s"
    and "partition_of s n p \<noteq> None \<Longrightarrow> partition_of s' n p \<noteq> None"
proof -
  show "ConsumerGroups s' = ConsumerGroups s"
    using assms by (auto simp: assign_partitions_def split: option.splits sum.splits)
  show "partition_of s' n p \<noteq> None" if some: "partition_of s n p \<noteq> None"
  proof (cases "Topics s (ap_Topic payload)")
    case None
    with assms that show ?thesis by (simp add: assign_partitions_def)
  next
    case (Some t)
    with assms obtain ps where ps: "assign_loop pks (ap_Partitions payload) (Partitions t) = Inr ps"
      and s': "s' = updateISRAndHW now v (s\<lparr>Topics := (Topics s)(ap_Topic payload \<mapsto> t\<lparr>Partitions := ps\<rparr>)\<rparr>)"
      by (auto simp: assign_partitions_def split: sum.splits)
    from some Some assign_loop_mono [OF ps, of p]
    have "partition_of (s\<lparr>Topics := (Topics s)(ap_Topic payload \<mapsto> t\<lparr>Partitions := ps\<rparr>)\<rparr>) n p \<noteq> None"
      by (auto simp: partition_of_def)
    then show ?thesis unfolding s' by simp
  qed
qed

lemma applied_cases:
  assumes "applied ch d s resp s'"
  obtains (same) "s' = s"
  | (run) p where "s' = exec ch p s" "choices_ok ch s (exec ch p s)"
  | (stored) p where
      "assign_partitions (ch_payload ch) (ch_now_isr ch) (ch_visit ch) p s = Inr s'"
proof (cases "unmarshal dec_Command \<lparr>Op = [], Payload = None\<rparr> d")
  case None
  with assms same show ?thesis by (simp add: applied_def Apply_def)
next
  case (Some cmd)
  with assms have cmd: "apply_command ch cmd s = Inr s'" and ok: "choices_ok ch s s'"
    by (cases "apply_command ch cmd s"; simp add: applied_def Apply_def)+
  show ?thesis
  proof (cases rule: apply_command_cases [of ch cmd s])
    case skip
    with cmd show ?thesis by (intro same) simp
  next
    case (exec p)
    with cmd ok show ?thesis by (intro run [of p]) simp_all
  next
    case (assign p)
    with cmd show ?thesis by (intro stored [of p]) simp
  qed
qed

lemma applied_groups_wf:
  assumes "applied ch d s resp s'" "groups_wf s"
  shows "groups_wf s'"
  using assms(1)
proof (cases rule: applied_cases)
  case (run p)
  with assms(2) show ?thesis by (simp add: exec_groups_wf)
next
  case (stored p)
  have "group_wf s' gid g" if "group_wf s gid g" for gid g
    using that assign_partitions_frame(2) [OF stored] by (rule group_wf_mono)
  with assms(2) show ?thesis by (simp add: groups_wf_def assign_partitions_frame(1) [OF stored])
qed (use assms(2) in simp)

lemma log_run_groups_wf: "log_run s s' \<Longrightarrow> groups_wf s \<Longrightarrow> groups_wf s'"
  by (induction rule: log_run.induct) (auto intro: applied_groups_wf)

text \<open>
  C38: replicas can diverge.  \<open>FSM.Apply\<close> ranges over Go maps, whose order is not fixed: two
  controllers that hold the same state and apply the same log entry at the same instant may end
  in different states, with different leaders for the same partition.
\<close>

theorem replicas_can_diverge:
  "\<exists>s p ch ch' n q q'. wf_state s \<and> valid_proposal p \<and> ch_now ch = ch_now ch' \<and> ch_now_isr ch = ch_now_isr ch' \<and>
     applied ch (Data (encode p)) s None (exec ch p s) \<and> applied ch' (Data (encode p)) s None (exec ch' p s) \<and>
     partition_of (exec ch p s) n 0 = Some q \<and> partition_of (exec ch' p s) n 0 = Some q' \<and>
     LeaderID q \<noteq> LeaderID q'"
proof -
  let ?s = "NewFSM\<lparr>Brokers := [1 \<mapsto> \<lparr>ID = 1, Host = ''a'', Port = 1, LastSeen = 0, Active = True\<rparr>,
    2 \<mapsto> \<lparr>ID = 2, Host = ''b'', Port = 2, LastSeen = 0, Active = True\<rparr>]\<rparr>"
  let ?c = "\<lparr>ct_Name = ''t'', ct_Partitions = 1, ct_ReplicationFactor = 1\<rparr>"
  let ?r = "\<lambda>ks. exec (demo_choices ks demo_visit) (PCreateTopic ?c) ?s"
  have "dom (Partitions (new_topic act ?c)) = {0}" for act
    by (auto simp: dom_def Partitions_new_topic word_less_1 split: if_splits)
  then have shape: "shape (?r ks) = [''t'' \<mapsto> {0}]" for ks
    by (auto simp: demo_choices_def create_topic_def NewFSM_def updateISRAndHW_def fun_eq_iff shape_def)
  then have visit: "visit_ok demo_visit (?r ks)" for ks
    by (simp add: visit_ok_shape demo_visit_def)
  have ok: "applied (demo_choices ks demo_visit) (Data (encode (PCreateTopic ?c))) ?s None (?r ks)"
    if "range_ok ks (Brokers ?s)" for ks
    using that visit [of ks] Apply_encode [of "PCreateTopic ?c"] exec_groups_frame [of "PCreateTopic ?c"]
    by (simp add: applied_def choices_ok_def demo_choices_def visit_ok_def NewFSM_def range_ok_def)
  have leader: "partition_of (?r ks) ''t'' 0 = Some (update_partition 0 (Brokers ?s) (new_partition ks 1 0))"
    if "ks = [1, 2] \<or> ks = [2, 1]" for ks
  proof -
    have "getActiveBrokerIDs ks ?s = ks" using that by (auto simp: getActiveBrokerIDs_def)
    then show ?thesis
      using visit [of ks] partition_of_create_topic [of ?s ?c demo_visit ks 0 "''t''" 0]
      by (simp add: demo_choices_def NewFSM_def)
  qed
  have "wf_state ?s"
    by (simp add: wf_state_def broker_ids_ok_def topic_names_ok_def partitions_all_def partition_of_def
        groups_wf_def NewFSM_def)
  moreover have "range_ok [1, 2] (Brokers ?s)" "range_ok [2, 1] (Brokers ?s)"
    by (auto simp: range_ok_def)
  ultimately show ?thesis
    using ok [of "[1, 2]"] ok [of "[2, 1]"] leader [of "[1, 2]"] leader [of "[2, 1]"]
    by (intro exI [of _ ?s] exI [of _ "PCreateTopic ?c"] exI [of _ "demo_choices [1, 2] demo_visit"]
          exI [of _ "demo_choices [2, 1] demo_visit"] exI [of _ "''t''"]
          exI [of _ "update_partition 0 (Brokers ?s) (new_partition [1, 2] 1 0)"]
          exI [of _ "update_partition 0 (Brokers ?s) (new_partition [2, 1] 1 0)"])
       (simp add: demo_choices_def)
qed

end
