(* ===== verification/Controller_Main.thy ===== *)
theory Controller_Main
  imports Raft_Node
begin

text \<open>
  The controller process (\<open>go-controller/cmd/controller/main.go\<close>): its flags, the HTTP
  handlers \<open>/join\<close> and \<open>/status\<close>, and the request a new node sends to join.  What
  \<open>net/url\<close> does with a query string is modelled here; the transport of a request is an
  argument.
\<close>

section \<open>Query strings\<close>

text \<open>\<open>strings.Cut\<close>: the parts before and after the first separator.\<close>

fun cut_at :: "char \<Rightarrow> string \<Rightarrow> string \<times> string" where
  "cut_at sep [] = ([], [])"
| "cut_at sep (c # cs) = (if c = sep then ([], cs) else apfst (Cons c) (cut_at sep cs))"

definition hex_value :: "char \<Rightarrow> nat option" where
  "hex_value c =
     (let n = of_char c in
      if 48 \<le> n \<and> n < 58 then Some (n - 48)
      else if 97 \<le> n \<and> n < 103 then Some (n - 87)
      else if 65 \<le> n \<and> n < 71 then Some (n - 55)
      else None)"

fun QueryUnescape :: "string \<Rightarrow> string option" where
  "QueryUnescape [] = Some []"
| "QueryUnescape (c # cs) =
     (if c = CHR ''%'' then
        (case cs of
           a # b # rest \<Rightarrow>
             (case (hex_value a, hex_value b) of
                (Some h, Some l) \<Rightarrow> map_option (Cons (char_of (16 * h + l))) (QueryUnescape rest)
              | _ \<Rightarrow> None)
         | _ \<Rightarrow> None)
      else map_option (Cons (if c = CHR ''+'' then CHR '' '' else c)) (QueryUnescape cs))"

lemma length_cut: "s \<noteq> [] \<Longrightarrow> length (snd (cut_at sep s)) < length s"
proof (induction s)
  case (Cons c cs)
  then show ?case by (cases cs) auto
qed simp

text \<open>\<open>url.ParseQuery\<close>, which drops the pairs it cannot read.\<close>

function parse_query :: "string \<Rightarrow> (string \<times> string) list" where
  "parse_query query =
     (if query = [] then []
      else
        let pair = fst (cut_at (CHR ''&'') query);
            more = parse_query (snd (cut_at (CHR ''&'') query))
        in if CHR '';'' \<in> set pair \<or> pair = [] then more
           else
             case (QueryUnescape (fst (cut_at (CHR ''='') pair)), QueryUnescape (snd (cut_at (CHR ''='') pair))) of
               (Some k, Some v) \<Rightarrow> (k, v) # more
             | _ \<Rightarrow> more)"
  by pat_completeness auto
termination
  by (relation "measure length") (simp_all add: length_cut)

declare parse_query.simps [simp del]

definition Values_Get :: "string \<Rightarrow> (string \<times> string) list \<Rightarrow> string" where
  "Values_Get k vs = (case map_of vs k of None \<Rightarrow> [] | Some v \<Rightarrow> v)"

text \<open>The query part of a URL, as \<open>url.Parse\<close> finds it.\<close>

definition raw_query :: "string \<Rightarrow> string" where
  "raw_query url = snd (cut_at (CHR ''?'') (fst (cut_at (CHR ''#'') url)))"

section \<open>Flags\<close>

record flags =
  fl_id :: string
  fl_raft_addr :: string
  fl_grpc_addr :: string
  fl_http_addr :: string
  fl_data_dir :: string
  fl_bootstrap :: bool
  fl_join :: string

definition default_flags :: flags where
  "default_flags = \<lparr>fl_id = ''node1'', fl_raft_addr = ''127.0.0.1:7001'',
     fl_grpc_addr = ''127.0.0.1:8001'', fl_http_addr = ''127.0.0.1:9001'', fl_data_dir = [],
     fl_bootstrap = False, fl_join = []\<rparr>"

section \<open>Handlers\<close>

record http_response =
  StatusCode :: nat
  Body :: string

definition newline :: string where "newline = [CHR 0x0A]"
definition quote :: string where "quote = [CHR 0x22]"

text \<open>\<open>http.Error\<close> ends the message with a newline.\<close>

definition http_error :: "string \<Rightarrow> nat \<Rightarrow> http_response" where
  "http_error msg code = \<lparr>StatusCode = code, Body = msg @ newline\<rparr>"

definition join_handler ::
  "'r raft_lib \<Rightarrow> string \<Rightarrow> 'r RaftNode \<Rightarrow> http_response \<times> 'r RaftNode"
where
  "join_handler raft rawQuery rn =
     (let id = Values_Get ''id'' (parse_query rawQuery);
          addr = Values_Get ''addr'' (parse_query rawQuery)
      in if id = [] \<or> addr = [] then (http_error ''missing id or addr parameters'' 400, rn)
         else case Join raft id addr rn of
                (Some err, rn') \<Rightarrow> (http_error err 500, rn')
              | (None, rn') \<Rightarrow> (\<lparr>StatusCode = 200, Body = ''joined successfully''\<rparr>, rn'))"

definition status_handler :: "'r raft_lib \<Rightarrow> string \<Rightarrow> 'r RaftNode \<Rightarrow> http_response" where
  "status_handler raft nodeID rn =
     (let meta = GetMetadata [] (RN_FSM rn);
          str = (\<lambda>k v. ''  '' @ quote @ k @ quote @ '': '' @ v)
      in \<lparr>StatusCode = 200,
          Body = ''{'' @ newline @
            str ''node_id'' (quote @ nodeID @ quote) @ '','' @ newline @
            str ''state'' (quote @ RaftState_String (raft_State raft (RN_Raft rn)) @ quote) @ '','' @ newline @
            str ''leader'' (quote @ raft_Leader raft (RN_Raft rn) @ quote) @ '','' @ newline @
            str ''brokers_count'' (show_nat (card (dom (Brokers meta)))) @ '','' @ newline @
            str ''topics_count'' (show_nat (card (dom (Topics meta)))) @ newline @ ''}'' @ newline\<rparr>)"

section \<open>Joining\<close>

definition join_url :: "flags \<Rightarrow> string" where
  "join_url fl = fl_join fl @ ''/join?id='' @ fl_id fl @ ''&addr='' @ fl_raft_addr fl"

datatype join_log = JoinFailed error | JoinNonOK nat | JoinOK | NoJoin

definition join_client :: "(string \<Rightarrow> error + http_response) \<Rightarrow> flags \<Rightarrow> join_log" where
  "join_client get fl =
     (if fl_join fl \<noteq> [] then
        case get (join_url fl) of
          Inl err \<Rightarrow> JoinFailed err
        | Inr resp \<Rightarrow> if StatusCode resp \<noteq> 200 then JoinNonOK (StatusCode resp) else JoinOK
      else NoJoin)"

section \<open>The process\<close>

text \<open>
  The default multiplexer with the two handlers.  Both patterns end without a slash, so they match
  their path only; \<open>http.NotFound\<close> answers the rest.
\<close>

definition serve_http ::
  "'r raft_lib \<Rightarrow> flags \<Rightarrow> string \<Rightarrow> string \<Rightarrow> 'r RaftNode \<Rightarrow> http_response \<times> 'r RaftNode"
where
  "serve_http raft fl path rawQuery rn =
     (if path = ''/join'' then join_handler raft rawQuery rn
      else if path = ''/status'' then (status_handler raft (fl_id fl) rn, rn)
      else (http_error ''404 page not found'' 404, rn))"

text \<open>
  What \<open>main\<close> leaves running: the node behind the gRPC services and the HTTP handlers, the
  addresses it serves, and the join request that is sent after a second.
\<close>

record 'r process =
  pr_node :: "'r RaftNode"
  pr_grpc_addr :: string
  pr_http_addr :: string
  pr_join :: "string option"

definition controller_main ::
  "('r, 't) raft_env \<Rightarrow> (string \<Rightarrow> error option) \<Rightarrow> flags \<Rightarrow> error + 'r process"
where
  "controller_main env listen fl =
     (case NewRaftNode env (fl_id fl) (fl_raft_addr fl) (fl_data_dir fl) (fl_bootstrap fl) of
        Inl err \<Rightarrow> Inl (''Failed to initialize Raft: '' @ err)
      | Inr raftNode \<Rightarrow>
          (case listen (fl_grpc_addr fl) of
             Some err \<Rightarrow> Inl (''gRPC listen failed: '' @ err)
           | None \<Rightarrow>
               Inr \<lparr>pr_node = raftNode, pr_grpc_addr = fl_grpc_addr fl, pr_http_addr = fl_http_addr fl,
                    pr_join = (if fl_join fl \<noteq> [] then Some (join_url fl) else None)\<rparr>))"

section \<open>The query of a join request\<close>

text \<open>Characters that stand for themselves in a query value.\<close>

definition plain_value :: "string \<Rightarrow> bool" where
  "plain_value s \<longleftrightarrow>
     CHR ''&'' \<notin> set s \<and> CHR '';'' \<notin> set s \<and> CHR ''%'' \<notin> set s \<and> CHR ''+'' \<notin> set s \<and> CHR ''#'' \<notin> set s"

lemma cut_none: "sep \<notin> set s \<Longrightarrow> cut_at sep s = (s, [])"
  by (induction s) auto

lemma cut_append: "sep \<notin> set s \<Longrightarrow> cut_at sep (s @ sep # t) = (s, t)"
  by (induction s) auto

lemma QueryUnescape_plain: "CHR ''%'' \<notin> set s \<Longrightarrow> CHR ''+'' \<notin> set s \<Longrightarrow> QueryUnescape s = Some s"
  by (induction s rule: QueryUnescape.induct) auto

lemma parse_query_pair:
  assumes "pair \<noteq> []" "CHR ''&'' \<notin> set pair" "CHR '';'' \<notin> set pair"
    and "cut_at (CHR ''='') pair = (k, v)" "QueryUnescape k = Some k'" "QueryUnescape v = Some v'"
  shows "parse_query (pair @ CHR ''&'' # rest) = (k', v') # parse_query rest"
    and "parse_query pair = [(k', v')]"
proof -
  show "parse_query (pair @ CHR ''&'' # rest) = (k', v') # parse_query rest"
    using assms by (subst parse_query.simps) (simp add: cut_append)
  have "parse_query [] = []" by (simp add: parse_query.simps)
  then show "parse_query pair = [(k', v')]"
    using assms by (subst parse_query.simps) (simp add: cut_none)
qed

lemma parse_join_query:
  assumes "plain_value i" "plain_value a"
  shows "parse_query (''id='' @ i @ ''&addr='' @ a) = [(''id'', i), (''addr'', a)]"
proof -
  have "parse_query ((''id='' @ i) @ CHR ''&'' # ''addr='' @ a) = (''id'', i) # parse_query (''addr='' @ a)"
    using assms(1) by (intro parse_query_pair) (auto simp: plain_value_def QueryUnescape_plain)
  moreover have "parse_query (''addr='' @ a) = [(''addr'', a)]"
    using assms(2) by (intro parse_query_pair) (auto simp: plain_value_def QueryUnescape_plain)
  ultimately show ?thesis by simp
qed

lemma raw_query_join_url:
  assumes "CHR ''?'' \<notin> set (fl_join fl)" "CHR ''#'' \<notin> set (fl_join fl)"
    and "plain_value (fl_id fl)" "plain_value (fl_raft_addr fl)"
  shows "raw_query (join_url fl) = ''id='' @ fl_id fl @ ''&addr='' @ fl_raft_addr fl"
proof -
  have "CHR ''#'' \<notin> set (join_url fl)"
    using assms by (auto simp: join_url_def plain_value_def)
  then have "raw_query (join_url fl) = snd (cut_at (CHR ''?'')
      ((fl_join fl @ ''/join'') @ CHR ''?'' # ''id='' @ fl_id fl @ ''&addr='' @ fl_raft_addr fl))"
    by (simp add: raw_query_def cut_none join_url_def)
  also have "\<dots> = ''id='' @ fl_id fl @ ''&addr='' @ fl_raft_addr fl"
    using assms(1) by (subst cut_append) auto
  finally show ?thesis .
qed

section \<open>Properties\<close>

text \<open>
  The request that a starting node sends reaches the leader's library unchanged.  For an
  identifier and an address without the characters that are special in a query, the handler reads
  back exactly the values of the flags: it answers 400 if one is empty, and otherwise adds that
  voter, answering 200 on success and 500 with the reason when the node does not lead or the library
  fails.
\<close>

lemma join_request_handled:
  assumes "CHR ''?'' \<notin> set (fl_join fl)" "CHR ''#'' \<notin> set (fl_join fl)"
    and "plain_value (fl_id fl)" "plain_value (fl_raft_addr fl)"
  shows "join_handler raft (raw_query (join_url fl)) rn =
    (if fl_id fl = [] \<or> fl_raft_addr fl = []
     then (http_error ''missing id or addr parameters'' 400, rn)
     else if raft_State raft (RN_Raft rn) \<noteq> Leader
     then (http_error ''cannot join node: not the leader'' 500, rn)
     else case raft_AddVoter raft (fl_id fl) (fl_raft_addr fl) (RN_Raft rn) (RN_FSM rn) of
            (None, r, s) \<Rightarrow> (\<lparr>StatusCode = 200, Body = ''joined successfully''\<rparr>, rn\<lparr>RN_Raft := r, RN_FSM := s\<rparr>)
          | (Some err, r, s) \<Rightarrow>
              (http_error (''failed to add voter '' @ fl_id fl @ '' ('' @ fl_raft_addr fl @ ''): '' @ err) 500,
               rn\<lparr>RN_Raft := r, RN_FSM := s\<rparr>))"
  using parse_join_query [OF assms(3,4)] raw_query_join_url [OF assms]
  by (auto simp: join_handler_def Values_Get_def Join_def Let_def split: prod.splits option.splits)

text \<open>
  The values are not escaped.  A node whose identifier contains an ampersand asks the leader to
  add a server under another identifier: the part before the ampersand.
\<close>

lemma join_id_not_escaped:
  assumes "CHR ''?'' \<notin> set (fl_join fl)" "CHR ''#'' \<notin> set (fl_join fl)"
    and "fl_id fl = i @ ''&'' @ j" "plain_value i" "plain_value j" "CHR ''='' \<notin> set j" "j \<noteq> []"
    and "plain_value (fl_raft_addr fl)"
  shows "Values_Get ''id'' (parse_query (raw_query (join_url fl))) = i"
proof -
  let ?rest = "j @ ''&addr='' @ fl_raft_addr fl"
  have "CHR ''#'' \<notin> set (join_url fl)"
    using assms by (auto simp: join_url_def plain_value_def)
  then have "raw_query (join_url fl) = snd (cut_at (CHR ''?'')
      ((fl_join fl @ ''/join'') @ CHR ''?'' # ''id='' @ i @ ''&'' @ ?rest))"
    by (simp add: raw_query_def cut_none join_url_def assms(3))
  also have "\<dots> = (''id='' @ i) @ CHR ''&'' # ?rest"
    using assms(1) by (subst cut_append) auto
  finally have "parse_query (raw_query (join_url fl)) = (''id'', i) # parse_query ?rest"
    using assms(4) by (simp only:)
      (rule parse_query_pair, auto simp: plain_value_def QueryUnescape_plain)
  then show ?thesis by (simp add: Values_Get_def)
qed

text \<open>
  A process that comes up serves the state that \<open>NewRaft\<close> left in the FSM under its own identifier, and asks to join
  exactly when a join address was given.
\<close>

lemma controller_main_starts:
  assumes "controller_main env listen fl = Inr p"
  shows "\<exists>store t r. NewRaft env (node_config (DefaultConfig env) (fl_id fl)) NewFSM store t = Inr (r, RN_FSM (pr_node p))"
    and "RN_NodeID (pr_node p) = fl_id fl"
    and "pr_join p = None \<longleftrightarrow> fl_join fl = []"
  using assms
  by (auto simp: controller_main_def NewRaftNode_def Let_def split: sum.splits option.splits if_splits) blast+

text \<open>
  The whole exchange: a node that starts with the leader's address is a voter afterwards, if the
  library adds it.
\<close>

lemma join_exchange:
  assumes "fl_join fl \<noteq> []" "CHR ''?'' \<notin> set (fl_join fl)" "CHR ''#'' \<notin> set (fl_join fl)"
    and "plain_value (fl_id fl)" "plain_value (fl_raft_addr fl)" "fl_id fl \<noteq> []" "fl_raft_addr fl \<noteq> []"
    and "raft_State raft (RN_Raft rn) = Leader"
    and "raft_AddVoter raft (fl_id fl) (fl_raft_addr fl) (RN_Raft rn) (RN_FSM rn) = (None, r, s)"
  shows "join_client (\<lambda>url. Inr (fst (serve_http raft fl' ''/join'' (raw_query url) rn))) fl = JoinOK"
    and "snd (serve_http raft fl' ''/join'' (raw_query (join_url fl)) rn) = rn\<lparr>RN_Raft := r, RN_FSM := s\<rparr>"
  using parse_join_query [OF assms(4,5)] raw_query_join_url [OF assms(2-5)] assms(1,6-)
  by (simp_all add: serve_http_def join_client_def join_handler_def Values_Get_def Join_def)

definition demo_flags :: flags where
  "demo_flags = default_flags\<lparr>fl_id := ''node2'', fl_raft_addr := ''127.0.0.1:7002'',
     fl_join := ''http://127.0.0.1:9001''\<rparr>"

lemma join_request_handled_example:
  "fst (join_handler (local_raft (\<lambda>_ _. demo_choices [] no_visit)) (raw_query (join_url demo_flags))
     \<lparr>RN_Raft = Leader, RN_FSM = NewFSM, RN_NodeID = ''node1''\<rparr>) =
   \<lparr>StatusCode = 200, Body = ''joined successfully''\<rparr>"
  by (subst join_request_handled)
     (simp_all add: demo_flags_def plain_value_def local_raft_def default_flags_def)

lemma join_id_not_escaped_example:
  "Values_Get ''id'' (parse_query (raw_query (join_url (demo_flags\<lparr>fl_id := ''a&b''\<rparr>)))) = ''a''"
  by (rule join_id_not_escaped [of _ _ "''b''"]) (simp_all add: demo_flags_def plain_value_def default_flags_def)

end
