(* ===== verification/Pb.thy ===== *)
theory Pb
  imports Prelude
begin

text \<open>
  The messages of \<open>ControlService\<close> and \<open>DiscoveryService\<close>
  (\<open>go-controller/proto/aeromq/control.pb.go\<close>, generated from \<open>proto/control.proto\<close>): the
  structs the handlers and the client read and build, without the bookkeeping fields of the
  protobuf runtime.  A prefix per message keeps the field names apart.
\<close>

datatype HeartbeatGroupResponse_Status = OK | REBALANCE_IN_PROGRESS | UNKNOWN_MEMBER

fun Status_value :: "HeartbeatGroupResponse_Status \<Rightarrow> i32" where
  "Status_value OK = 0"
| "Status_value REBALANCE_IN_PROGRESS = 1"
| "Status_value UNKNOWN_MEMBER = 2"

record BrokerInfo =
  bi_BrokerId :: u32
  bi_Host :: string
  bi_Port :: i32

record PartitionAssignment =
  pa_Topic :: string
  pa_Partition :: u32
  pa_LeaderId :: u32
  pa_ReplicaIds :: "u32 list"

section \<open>ControlService\<close>

record RegisterBrokerRequest =
  rbq_BrokerId :: u32
  rbq_Host :: string
  rbq_DataPort :: i32

record RegisterBrokerResponse =
  rbr_Success :: bool
  rbr_Message :: string

record ReplicaOffset =
  pro_Topic :: string
  pro_Partition :: u32
  pro_Offset :: i64

record HeartbeatRequest =
  hbq_BrokerId :: u32
  hbq_DiskUsageBytes :: u64
  hbq_DiskFreeBytes :: u64
  hbq_ReplicaOffsets :: "ReplicaOffset list"

record HeartbeatResponse =
  hbr_Success :: bool
  hbr_AssignedLeaders :: "PartitionAssignment list"
  hbr_AssignedFollowers :: "PartitionAssignment list"

section \<open>DiscoveryService\<close>

record MetadataRequest =
  mdq_Topics :: "string list"

record PartitionMetadata =
  pm_PartitionId :: u32
  pm_LeaderId :: u32
  pm_ReplicaIds :: "u32 list"
  pm_Isr :: "u32 list"
  pm_HighWatermark :: i64
  pm_ReplicaOffsets :: "u32 \<rightharpoonup> i64"

record TopicMetadata =
  tm_Topic :: string
  tm_Partitions :: "PartitionMetadata list"

record MetadataResponse =
  mdr_Brokers :: "BrokerInfo list"
  mdr_Topics :: "TopicMetadata list"

record CreateTopicRequest =
  ctq_Topic :: string
  ctq_Partitions :: u32
  ctq_ReplicationFactor :: u32

record CreateTopicResponse =
  ctr_Success :: bool
  ctr_Message :: string

record JoinGroupRequest =
  jgq_GroupId :: string
  jgq_MemberId :: string
  jgq_Topics :: "string list"

record JoinGroupResponse =
  jgr_MemberId :: string
  jgr_GenerationId :: u32
  jgr_Assignments :: "PartitionAssignment list"

record HeartbeatGroupRequest =
  hgq_GroupId :: string
  hgq_MemberId :: string
  hgq_GenerationId :: u32

record HeartbeatGroupResponse =
  hgr_Status :: HeartbeatGroupResponse_Status

record TopicPartitionOffset =
  tpo_Topic :: string
  tpo_Partition :: u32
  tpo_Offset :: i64

record CommitOffsetsRequest =
  coq_GroupId :: string
  coq_MemberId :: string
  coq_GenerationId :: u32
  coq_Offsets :: "TopicPartitionOffset list"

record CommitOffsetsResponse =
  cor_Success :: bool

record FetchOffsetsRequest =
  foq_GroupId :: string
  foq_Topics :: "string list"

record FetchOffsetsResponse =
  for_Offsets :: "TopicPartitionOffset list"

end
