(* ===== verification/Grpc_Server.thy ===== *)
theory Grpc_Server
  imports Raft_Node Pb
begin

text \<open>
  The gRPC handlers of the controller (\<open>go-controller/pkg/grpcserver/server.go\<close>).

  A handler takes the request and the node and returns the response or a status error,
  with the node afterwards.  Loops over maps get their visiting order as an argument, as in the
  FSM; the random bytes of a member identifier and the clock are arguments too.  Strings that
  arrive in a request are valid UTF-8, which the protobuf runtime checks: the hypotheses
  \<open>valid_proposal\<close> of the lemmas state this where it matters.
\<close>

section \<open>Handlers\<close>

datatype code = Unavailable | Internal

type_synonym 'a rpc = "(code \<times> string) + 'a"

definition generateMemberID :: "byte list \<Rightarrow> string" where
  "generateMemberID b = ''member-'' @ show_hex b"

definition checkLeader :: "'r raft_lib \<Rightarrow> 'r RaftNode \<Rightarrow> (code \<times> string) option" where
  "checkLeader raft rn =
     (if raft_State raft (RN_Raft rn) \<noteq> Leader
      then Some (Unavailable, ''node is not the cluster leader; current leader is: '' @
                   raft_Leader raft (RN_Raft rn))
      else None)"

text \<open>One tick of the failure detector, and the detector after \<open>n\<close> ticks.\<close>

definition failure_tick :: "'r raft_lib \<Rightarrow> 'r RaftNode \<Rightarrow> 'r RaftNode" where
  "failure_tick raft rn =
     (if raft_State raft (RN_Raft rn) = Leader then snd (Propose raft CmdCleanInactive JNull rn)
      else rn)"

definition startFailureDetection :: "'r raft_lib \<Rightarrow> nat \<Rightarrow> 'r RaftNode \<Rightarrow> 'r RaftNode" where
  "startFailureDetection raft n rn = (failure_tick raft ^^ n) rn"

definition RegisterBroker ::
  "'r raft_lib \<Rightarrow> RegisterBrokerRequest \<Rightarrow> 'r RaftNode \<Rightarrow> RegisterBrokerResponse rpc \<times> 'r RaftNode"
where
  "RegisterBroker raft req rn =
     (case checkLeader raft rn of
        Some err \<Rightarrow> (Inl err, rn)
      | None \<Rightarrow>
          let payload = \<lparr>rb_ID = rbq_BrokerId req, rb_Host = rbq_Host req, rb_Port = rbq_DataPort req\<rparr> in
          (case Propose raft CmdRegisterBroker (enc_RegisterBroker payload) rn of
             (Some err, rn') \<Rightarrow> (Inr \<lparr>rbr_Success = False, rbr_Message = err\<rparr>, rn')
           | (None, rn') \<Rightarrow>
               (Inr \<lparr>rbr_Success = True, rbr_Message = ''Broker registered successfully''\<rparr>, rn')))"

definition to_assignment :: "string \<Rightarrow> u32 \<Rightarrow> PartitionState \<Rightarrow> PartitionAssignment" where
  "to_assignment topicName pID p =
     \<lparr>pa_Topic = topicName, pa_Partition = pID, pa_LeaderId = LeaderID p, pa_ReplicaIds = ReplicaIDs p\<rparr>"

text \<open>The search for the broker among the replicas, with its \<open>break\<close>.\<close>

fun follower_loop ::
  "u32 \<Rightarrow> PartitionAssignment \<Rightarrow> u32 list \<Rightarrow> PartitionAssignment list \<Rightarrow> PartitionAssignment list"
where
  "follower_loop brokerId a [] acc = acc"
| "follower_loop brokerId a (repID # rs) acc =
     (if repID = brokerId then acc @ [a] else follower_loop brokerId a rs acc)"

type_synonym roles = "PartitionAssignment list \<times> PartitionAssignment list"

definition add_role :: "u32 \<Rightarrow> string \<Rightarrow> u32 \<times> PartitionState \<Rightarrow> roles \<Rightarrow> roles" where
  "add_role brokerId topicName = (\<lambda>(pID, p) (leaders, followers).
     let a = to_assignment topicName pID p in
     if LeaderID p = brokerId then (leaders @ [a], followers)
     else (leaders, follower_loop brokerId a (ReplicaIDs p) followers))"

definition broker_roles :: "visit \<Rightarrow> u32 \<Rightarrow> ClusterState \<Rightarrow> roles" where
  "broker_roles v brokerId meta =
     fold (\<lambda>(topicName, t). fold (add_role brokerId topicName)
              (range_entries (v_parts v topicName) (Partitions t)))
       (range_entries (v_topics v) (Topics meta)) ([], [])"

definition heartbeat_payload :: "HeartbeatRequest \<Rightarrow> HeartbeatPayload" where
  "heartbeat_payload req =
     \<lparr>hb_ID = hbq_BrokerId req,
      hb_ReplicaOffsets = map (\<lambda>ro. \<lparr>ro_Topic = pro_Topic ro, ro_Partition = pro_Partition ro,
        ro_Offset = pro_Offset ro\<rparr>) (hbq_ReplicaOffsets req)\<rparr>"

definition Heartbeat ::
  "'r raft_lib \<Rightarrow> visit \<Rightarrow> HeartbeatRequest \<Rightarrow> 'r RaftNode \<Rightarrow> HeartbeatResponse rpc \<times> 'r RaftNode"
where
  "Heartbeat raft v req rn =
     (case checkLeader raft rn of
        Some err \<Rightarrow> (Inl err, rn)
      | None \<Rightarrow>
          (case Propose raft CmdBrokerHeartbeat (enc_Heartbeat (heartbeat_payload req)) rn of
             (Some err, rn') \<Rightarrow> (Inl (Internal, ''failed to apply heartbeat: '' @ err), rn')
           | (None, rn') \<Rightarrow>
               let meta = GetMetadata [] (RN_FSM rn');
                   (assignedLeaders, assignedFollowers) = broker_roles v (hbq_BrokerId req) meta
               in (Inr \<lparr>hbr_Success = True, hbr_AssignedLeaders = assignedLeaders,
                        hbr_AssignedFollowers = assignedFollowers\<rparr>, rn')))"

definition to_PartitionMetadata :: "u32 \<Rightarrow> PartitionState \<Rightarrow> PartitionMetadata" where
  "to_PartitionMetadata pID p =
     \<lparr>pm_PartitionId = pID, pm_LeaderId = LeaderID p, pm_ReplicaIds = ReplicaIDs p, pm_Isr = ISR p,
      pm_HighWatermark = HighWatermark p, pm_ReplicaOffsets = copy_map (\<lambda>off. off) (offsets_of p)\<rparr>"

definition Server_GetMetadata ::
  "u32 list \<Rightarrow> visit \<Rightarrow> MetadataRequest \<Rightarrow> 'r RaftNode \<Rightarrow> MetadataResponse"
where
  "Server_GetMetadata bks v req rn =
     (let meta = GetMetadata (mdq_Topics req) (RN_FSM rn) in
      \<lparr>mdr_Brokers =
         map (\<lambda>(_, b). \<lparr>bi_BrokerId = ID b, bi_Host = Host b, bi_Port = Port b\<rparr>)
           (filter (\<lambda>(_, b). Active b) (range_entries bks (Brokers meta))),
       mdr_Topics =
         map (\<lambda>(topicName, t).
               \<lparr>tm_Topic = topicName,
                tm_Partitions = map (\<lambda>(pID, p). to_PartitionMetadata pID p)
                  (range_entries (v_parts v topicName) (Partitions t))\<rparr>)
           (range_entries (v_topics v) (Topics meta))\<rparr>)"

definition CreateTopic ::
  "'r raft_lib \<Rightarrow> CreateTopicRequest \<Rightarrow> 'r RaftNode \<Rightarrow> CreateTopicResponse rpc \<times> 'r RaftNode"
where
  "CreateTopic raft req rn =
     (case checkLeader raft rn of
        Some err \<Rightarrow> (Inl err, rn)
      | None \<Rightarrow>
          let payload = \<lparr>ct_Name = ctq_Topic req, ct_Partitions = ctq_Partitions req,
                         ct_ReplicationFactor = ctq_ReplicationFactor req\<rparr> in
          (case Propose raft CmdCreateTopic (enc_CreateTopic payload) rn of
             (Some err, rn') \<Rightarrow> (Inr \<lparr>ctr_Success = False, ctr_Message = err\<rparr>, rn')
           | (None, rn') \<Rightarrow>
               (Inr \<lparr>ctr_Success = True,
                     ctr_Message = ''Topic '' @ [CHR 0x27] @ ctq_Topic req @ [CHR 0x27] @
                       '' created successfully''\<rparr>, rn')))"

text \<open>The leader and the replicas of an assigned partition, with the defaults of the source.\<close>

definition assignment_details :: "ClusterState \<Rightarrow> PartitionTopic \<Rightarrow> PartitionAssignment" where
  "assignment_details meta pt =
     (let (leaderID, replicaIDs) =
        (case Topics meta (Topic pt) of
           None \<Rightarrow> (0, [])
         | Some tState \<Rightarrow>
             (case Partitions tState (Partition pt) of
                None \<Rightarrow> (0, [])
              | Some pState \<Rightarrow> (LeaderID pState, ReplicaIDs pState)))
      in \<lparr>pa_Topic = Topic pt, pa_Partition = Partition pt, pa_LeaderId = leaderID,
          pa_ReplicaIds = replicaIDs\<rparr>)"

definition JoinGroup ::
  "'r raft_lib \<Rightarrow> byte list \<Rightarrow> JoinGroupRequest \<Rightarrow> 'r RaftNode \<Rightarrow> JoinGroupResponse rpc \<times> 'r RaftNode"
where
  "JoinGroup raft rnd req rn =
     (case checkLeader raft rn of
        Some err \<Rightarrow> (Inl err, rn)
      | None \<Rightarrow>
          let memberID = (if jgq_MemberId req = [] then generateMemberID rnd else jgq_MemberId req);
              payload = \<lparr>jg_GroupID = jgq_GroupId req, jg_MemberID = memberID,
                         jg_Topics = jgq_Topics req\<rparr>
          in
          (case Propose raft CmdJoinConsumerGroup (enc_JoinGroup payload) rn of
             (Some err, rn') \<Rightarrow> (Inl (Internal, ''rebalance/join group failed: '' @ err), rn')
           | (None, rn') \<Rightarrow>
               let meta = GetMetadata [] (RN_FSM rn') in
               (case ConsumerGroups meta (jgq_GroupId req) of
                  None \<Rightarrow> (Inl (Internal, ''group not found after join proposal''), rn')
                | Some cg \<Rightarrow>
                    (Inr \<lparr>jgr_MemberId = memberID, jgr_GenerationId = Generation cg,
                          jgr_Assignments =
                            (case Assignments cg memberID of
                               None \<Rightarrow> []
                             | Some pts \<Rightarrow> map (assignment_details meta) pts)\<rparr>, rn'))))"

text \<open>
  \<open>member\<close> points into the deep copy that \<open>GetMetadata\<close> made: the assignment to
  \<open>LastSeen\<close> changes the copy.
\<close>

definition HeartbeatGroup ::
  "time \<Rightarrow> HeartbeatGroupRequest \<Rightarrow> 'r RaftNode \<Rightarrow> HeartbeatGroupResponse \<times> 'r RaftNode"
where
  "HeartbeatGroup now req rn =
     (let meta = GetMetadata [] (RN_FSM rn) in
      case ConsumerGroups meta (hgq_GroupId req) of
        None \<Rightarrow> (\<lparr>hgr_Status = UNKNOWN_MEMBER\<rparr>, rn)
      | Some cg \<Rightarrow>
          (case Members cg (hgq_MemberId req) of
             None \<Rightarrow> (\<lparr>hgr_Status = UNKNOWN_MEMBER\<rparr>, rn)
           | Some member \<Rightarrow>
               let cg = cg\<lparr>Members := (Members cg)(hgq_MemberId req \<mapsto> member\<lparr>GM_LastSeen := now\<rparr>)\<rparr> in
               if Generation cg \<noteq> hgq_GenerationId req
               then (\<lparr>hgr_Status = REBALANCE_IN_PROGRESS\<rparr>, rn)
               else (\<lparr>hgr_Status = OK\<rparr>, rn)))"

definition commit_payload :: "string \<Rightarrow> TopicPartitionOffset \<Rightarrow> CommitOffsetPayload" where
  "commit_payload groupId off =
     \<lparr>co_GroupID = groupId, co_Topic = tpo_Topic off, co_Partition = tpo_Partition off,
      co_Offset = tpo_Offset off\<rparr>"

fun commit_loop ::
  "'r raft_lib \<Rightarrow> string \<Rightarrow> TopicPartitionOffset list \<Rightarrow> 'r RaftNode \<Rightarrow>
   CommitOffsetsResponse \<times> 'r RaftNode"
where
  "commit_loop raft groupId [] rn = (\<lparr>cor_Success = True\<rparr>, rn)"
| "commit_loop raft groupId (off # offs) rn =
     (case Propose raft CmdCommitOffset (enc_CommitOffset (commit_payload groupId off)) rn of
        (Some err, rn') \<Rightarrow> (\<lparr>cor_Success = False\<rparr>, rn')
      | (None, rn') \<Rightarrow> commit_loop raft groupId offs rn')"

definition CommitOffsets ::
  "'r raft_lib \<Rightarrow> CommitOffsetsRequest \<Rightarrow> 'r RaftNode \<Rightarrow> CommitOffsetsResponse rpc \<times> 'r RaftNode"
where
  "CommitOffsets raft req rn =
     (case checkLeader raft rn of
        Some err \<Rightarrow> (Inl err, rn)
      | None \<Rightarrow> apfst Inr (commit_loop raft (coq_GroupId req) (coq_Offsets req) rn))"

text \<open>\<open>pks i\<close> is the order in which the partitions of the \<open>i\<close>-th requested topic are visited.\<close>

definition fetch_offset :: "string \<Rightarrow> string \<Rightarrow> TopicState \<Rightarrow> ClusterState \<Rightarrow> u32 \<Rightarrow> TopicPartitionOffset" where
  "fetch_offset groupId topic tState s pID =
     (let offsetVal = GetOffset groupId topic pID s;
          offsetVal =
            (if 0 \<le> sint offsetVal then
               case Partitions tState pID of
                 None \<Rightarrow> offsetVal
               | Some pState \<Rightarrow>
                   if sint offsetVal > sint (HighWatermark pState) then HighWatermark pState
                   else offsetVal
             else offsetVal)
      in \<lparr>tpo_Topic = topic, tpo_Partition = pID, tpo_Offset = offsetVal\<rparr>)"

fun fetch_loop ::
  "(nat \<Rightarrow> u32 list) \<Rightarrow> nat \<Rightarrow> string \<Rightarrow> string list \<Rightarrow> ClusterState \<Rightarrow> TopicPartitionOffset list \<Rightarrow>
   TopicPartitionOffset list"
where
  "fetch_loop pks i groupId [] s offsets = offsets"
| "fetch_loop pks i groupId (topic # topics) s offsets =
     (let meta = GetMetadata [topic] s in
      case Topics meta topic of
        None \<Rightarrow> fetch_loop pks (Suc i) groupId topics s offsets
      | Some tState \<Rightarrow>
          fetch_loop pks (Suc i) groupId topics s
            (offsets @ map (\<lambda>(pID, _). fetch_offset groupId topic tState s pID)
                         (range_entries (pks i) (Partitions tState))))"

definition FetchOffsets ::
  "(nat \<Rightarrow> u32 list) \<Rightarrow> FetchOffsetsRequest \<Rightarrow> 'r RaftNode \<Rightarrow> FetchOffsetsResponse"
where
  "FetchOffsets pks req rn =
     \<lparr>for_Offsets = fetch_loop pks 0 (foq_GroupId req) (foq_Topics req) (RN_FSM rn) []\<rparr>"

section \<open>The copy\<close>

lemma copies [simp]:
  "copy_BrokerStatus = (\<lambda>b. b)"
  "copy_GroupMember = (\<lambda>m. m)"
  by (simp_all add: copy_BrokerStatus_def copy_GroupMember_def fun_eq_iff)

lemma copy_group [simp]: "copy_ConsumerGroupState = (\<lambda>g. g)"
  by (simp add: copy_ConsumerGroupState_def fun_eq_iff)

lemma copy_PartitionState_simps [simp]:
  "PartitionID (copy_PartitionState q) = PartitionID q"
  "LeaderID (copy_PartitionState q) = LeaderID q"
  "ReplicaIDs (copy_PartitionState q) = ReplicaIDs q"
  "ISR (copy_PartitionState q) = ISR q"
  "HighWatermark (copy_PartitionState q) = HighWatermark q"
  "offsets_of (copy_PartitionState q) = offsets_of q"
  by (simp_all add: copy_PartitionState_def offsets_of_def)

lemma GetMetadata_simps [simp]:
  "Brokers (GetMetadata ts s) = Brokers s"
  "ConsumerGroups (GetMetadata ts s) = ConsumerGroups s"
  "Offsets (GetMetadata ts s) = Offsets s"
  by (simp_all add: GetMetadata_def)

lemma Topics_GetMetadata:
  "Topics (GetMetadata ts s) n =
     (if ts = [] \<or> n \<in> set ts then map_option copy_TopicState (Topics s n) else None)"
  by (auto simp: GetMetadata_def copy_map_def)

lemma partition_of_GetMetadata:
  "partition_of (GetMetadata ts s) n p =
     (if ts = [] \<or> n \<in> set ts then map_option copy_PartitionState (partition_of s n p) else None)"
  by (simp add: partition_of_def Topics_GetMetadata copy_TopicState_def copy_map_def split: option.splits)

lemma to_assignment_copy [simp]: "to_assignment n p (copy_PartitionState q) = to_assignment n p q"
  by (simp add: to_assignment_def)

section \<open>Nodes that do not lead\<close>

lemma generateMemberID_inject:
  "length a = length b \<Longrightarrow> generateMemberID a = generateMemberID b \<longleftrightarrow> a = b"
  using show_hex_inject by (auto simp: generateMemberID_def)

lemma valid_generateMemberID: "valid_utf8 (generateMemberID b)"
proof (rule valid_utf8_ascii)
  have "(of_char (hex_digit n) :: nat) < 128" if "n < 16" for n
    using that by (auto simp: hex_digit_def)
  moreover have "unat x div 16 < 16" for x :: byte
    using unat_byte_less [of x] by (simp add: less_mult_imp_div_less)
  ultimately have "\<forall>c \<in> set (hex_byte x). (of_char c :: nat) < 128" for x
    by (simp add: hex_byte_def)
  then show "\<forall>c \<in> set (generateMemberID b). (of_char c :: nat) < 128"
    by (auto simp: generateMemberID_def show_hex_def)
qed

lemma not_leader_unavailable:
  assumes "raft_State raft (RN_Raft rn) \<noteq> Leader"
  defines "e \<equiv> (Unavailable, ''node is not the cluster leader; current leader is: '' @
    raft_Leader raft (RN_Raft rn))"
  shows "RegisterBroker raft a rn = (Inl e, rn)" "Heartbeat raft v b rn = (Inl e, rn)"
    "CreateTopic raft c rn = (Inl e, rn)" "JoinGroup raft rnd d rn = (Inl e, rn)"
    "CommitOffsets raft f rn = (Inl e, rn)" "failure_tick raft rn = rn"
  using assms
  by (simp_all add: RegisterBroker_def Heartbeat_def CreateTopic_def JoinGroup_def
      CommitOffsets_def failure_tick_def checkLeader_def)

section \<open>Roles of a broker\<close>

lemma follower_loop_eq:
  "follower_loop b a rs acc = (if b \<in> set rs then acc @ [a] else acc)"
  by (induction rs) auto

definition leads :: "u32 \<Rightarrow> PartitionState \<Rightarrow> bool" where
  "leads b q \<longleftrightarrow> LeaderID q = b"

definition follows :: "u32 \<Rightarrow> PartitionState \<Rightarrow> bool" where
  "follows b q \<longleftrightarrow> LeaderID q \<noteq> b \<and> b \<in> set (ReplicaIDs q)"

text \<open>The assignments a loop over the topics collects for one kind of role.\<close>

definition collect_roles ::
  "(PartitionState \<Rightarrow> bool) \<Rightarrow> visit \<Rightarrow> (string \<times> TopicState) list \<Rightarrow> PartitionAssignment list"
where
  "collect_roles P v ts =
     concat (map (\<lambda>(n, t). map (\<lambda>(p, q). to_assignment n p q)
       (filter (\<lambda>(p, q). P q) (range_entries (v_parts v n) (Partitions t)))) ts)"

lemma fold_add_role:
  "fold (add_role b n) es (ls, fs) =
     (ls @ map (\<lambda>(p, q). to_assignment n p q) (filter (\<lambda>(p, q). leads b q) es),
      fs @ map (\<lambda>(p, q). to_assignment n p q) (filter (\<lambda>(p, q). follows b q) es))"
  by (induction es arbitrary: ls fs)
     (auto simp: add_role_def Let_def follower_loop_eq leads_def follows_def)

lemma broker_roles_collect:
  "broker_roles v b meta =
     (collect_roles (leads b) v (range_entries (v_topics v) (Topics meta)),
      collect_roles (follows b) v (range_entries (v_topics v) (Topics meta)))"
proof -
  have "fold (\<lambda>(n, t). fold (add_role b n) (range_entries (v_parts v n) (Partitions t))) ts (ls, fs) =
      (ls @ collect_roles (leads b) v ts, fs @ collect_roles (follows b) v ts)" for ts ls fs
    by (induction ts arbitrary: ls fs) (auto simp: collect_roles_def fold_add_role)
  then show ?thesis by (simp add: broker_roles_def)
qed

lemma set_collect_roles:
  assumes "visit_ok v s"
  shows "set (collect_roles P v (range_entries (v_topics v) (Topics s))) =
    {to_assignment n p q | n p q. partition_of s n p = Some q \<and> P q}"
proof -
  have t: "(n, t) \<in> set (range_entries (v_topics v) (Topics s)) \<longleftrightarrow> Topics s n = Some t" for n t
    using assms by (simp add: visit_ok_def range_entries_ok)
  have p: "(p, q) \<in> set (range_entries (v_parts v n) (Partitions t)) \<longleftrightarrow> Partitions t p = Some q"
    if "Topics s n = Some t" for n t p q
    using assms that by (simp add: visit_ok_def range_entries_ok)
  have "a \<in> set (collect_roles P v (range_entries (v_topics v) (Topics s))) \<longleftrightarrow>
      (\<exists>n t p q. Topics s n = Some t \<and> Partitions t p = Some q \<and> P q \<and> a = to_assignment n p q)" for a
  proof -
    have "a \<in> set (collect_roles P v (range_entries (v_topics v) (Topics s))) \<longleftrightarrow>
        (\<exists>n t. Topics s n = Some t \<and>
          (\<exists>p q. (p, q) \<in> set (range_entries (v_parts v n) (Partitions t)) \<and> P q \<and> a = to_assignment n p q))"
      unfolding t [symmetric] by (force simp: collect_roles_def)
    also have "\<dots> \<longleftrightarrow> (\<exists>n t p q. Topics s n = Some t \<and> Partitions t p = Some q \<and> P q \<and>
        a = to_assignment n p q)"
      using p by blast
    finally show ?thesis .
  qed
  moreover have "partition_of s n p = Some q \<longleftrightarrow> (\<exists>t. Topics s n = Some t \<and> Partitions t p = Some q)"
    for n p q by (simp add: partition_of_def split: option.splits)
  ultimately show ?thesis by blast
qed

lemma visit_ok_GetMetadata [simp]: "visit_ok v (GetMetadata [] s) \<longleftrightarrow> visit_ok v s"
proof -
  have "shape (GetMetadata [] s) = shape s"
    by (rule ext)
       (auto simp: shape_def Topics_GetMetadata copy_TopicState_def copy_map_def dom_def
          map_option_case split: option.splits)
  then show ?thesis by (simp add: visit_ok_shape)
qed

lemma set_broker_roles:
  assumes "visit_ok v s"
  shows "set (fst (broker_roles v b (GetMetadata [] s))) =
      {to_assignment n p q | n p q. partition_of s n p = Some q \<and> leads b q}"
    and "set (snd (broker_roles v b (GetMetadata [] s))) =
      {to_assignment n p q | n p q. partition_of s n p = Some q \<and> follows b q}"
proof -
  have "{to_assignment n p q | n p q. partition_of (GetMetadata [] s) n p = Some q \<and> P q} =
      {to_assignment n p q | n p q. partition_of s n p = Some q \<and> P q}"
    if "\<And>q. P (copy_PartitionState q) = P q" for P
  proof (intro set_eqI iffI; clarify)
    fix n p q
    assume "partition_of (GetMetadata [] s) n p = Some q" "P q"
    then obtain q0 where "partition_of s n p = Some q0" "q = copy_PartitionState q0"
      by (auto simp: partition_of_GetMetadata)
    with \<open>P q\<close> that show "\<exists>n' p' q'. to_assignment n p q = to_assignment n' p' q' \<and>
        partition_of s n' p' = Some q' \<and> P q'" by auto
  next
    fix n p q
    assume "partition_of s n p = Some q" "P q"
    then show "\<exists>n' p' q'. to_assignment n p q = to_assignment n' p' q' \<and>
        partition_of (GetMetadata [] s) n' p' = Some q' \<and> P q'"
      using that by (intro exI [of _ n] exI [of _ p] exI [of _ "copy_PartitionState q"])
        (simp add: partition_of_GetMetadata)
  qed
  note this [of "leads b"] this [of "follows b"]
  with assms show "set (fst (broker_roles v b (GetMetadata [] s))) =
      {to_assignment n p q | n p q. partition_of s n p = Some q \<and> leads b q}"
    and "set (snd (broker_roles v b (GetMetadata [] s))) =
      {to_assignment n p q | n p q. partition_of s n p = Some q \<and> follows b q}"
    by (simp_all add: broker_roles_collect set_collect_roles leads_def follows_def)
qed

section \<open>Joining a group\<close>

lemma Propose_log_run:
  assumes "applies_log raft" "Propose raft op j rn = (None, rn')"
  shows "log_run (RN_FSM rn) (RN_FSM rn')"
proof -
  from assms(2) have "raft_Apply raft (Data (enc_Command op j)) (RN_Raft rn) (RN_FSM rn) =
      (Inr None, RN_Raft rn', RN_FSM rn')"
    by (auto simp: Propose_def Let_def split: if_splits prod.splits sum.splits)
  with assms(1) obtain s1 s2 ch where "log_run (RN_FSM rn) s1"
    "applied ch (Data (enc_Command op j)) s1 None s2" "log_run s2 (RN_FSM rn')"
    unfolding applies_log_def by meson
  then show ?thesis by (blast intro: log_run_trans log_run_step)
qed

lemma exec_groups_mono: "ConsumerGroups s gid \<noteq> None \<Longrightarrow> ConsumerGroups (exec ch p s) gid \<noteq> None"
  by (cases "\<exists>q. p = PJoinGroup q") (auto simp: exec_groups_frame join_consumer_group_def Let_def)

lemma log_run_groups_mono:
  "log_run s s' \<Longrightarrow> ConsumerGroups s gid \<noteq> None \<Longrightarrow> ConsumerGroups s' gid \<noteq> None"
proof (induction rule: log_run.induct)
  case (log_run_step s s1 ch d resp s2)
  from log_run_step.hyps(2) show ?case
  proof (cases rule: applied_cases)
    case (run p)
    with log_run_step show ?thesis by (simp add: exec_groups_mono del: not_None_eq)
  next
    case (stored p)
    with log_run_step show ?thesis by (simp add: assign_partitions_frame(1) [OF stored])
  qed (use log_run_step in simp)
qed

lemma assignment_details_eq:
  "assignment_details meta pt =
     (case partition_of meta (Topic pt) (Partition pt) of
        None \<Rightarrow> \<lparr>pa_Topic = Topic pt, pa_Partition = Partition pt, pa_LeaderId = 0, pa_ReplicaIds = []\<rparr>
      | Some q \<Rightarrow> to_assignment (Topic pt) (Partition pt) q)"
  by (simp add: assignment_details_def partition_of_def to_assignment_def split: option.splits)

lemma assignment_details_inj: "inj_on (assignment_details meta) X"
proof (rule inj_onI)
  have "pa_Topic (assignment_details meta pt) = Topic pt"
    "pa_Partition (assignment_details meta pt) = Partition pt" for pt
    by (simp_all add: assignment_details_eq to_assignment_def split: option.splits)
  then show "a = b" if "assignment_details meta a = assignment_details meta b" for a b
    using that by (metis PartitionTopic.equality old.unit.exhaust)
qed

text \<open>What a successful call returns, over the node's state at the moment it is read.\<close>

lemma JoinGroup_result:
  assumes "JoinGroup raft rnd req rn = (Inr resp, rn')"
  obtains cg op j where "Propose raft op j rn = (None, rn')"
    "ConsumerGroups (RN_FSM rn') (jgq_GroupId req) = Some cg"
    "jgr_MemberId resp = (if jgq_MemberId req = [] then generateMemberID rnd else jgq_MemberId req)"
    "jgr_GenerationId resp = Generation cg"
    "jgr_Assignments resp = map (assignment_details (GetMetadata [] (RN_FSM rn')))
       (get_slice (Assignments cg) (jgr_MemberId resp))"
  using assms
  by (auto simp: JoinGroup_def Let_def get_slice_def split: option.splits prod.splits if_splits)

text \<open>
  An assignment handed to member \<open>m\<close> of group \<open>gid\<close>: it describes a partition of the state,
  with its leader and replicas, of a topic the member subscribes to, and nobody else in the group
  has it.
\<close>

definition assignment_ok :: "ClusterState \<Rightarrow> string \<Rightarrow> string \<Rightarrow> PartitionAssignment \<Rightarrow> bool" where
  "assignment_ok s gid m a \<longleftrightarrow>
     (\<exists>q cg. partition_of s (pa_Topic a) (pa_Partition a) = Some q \<and>
        a = to_assignment (pa_Topic a) (pa_Partition a) q \<and>
        ConsumerGroups s gid = Some cg \<and> subscribes (Members cg) (pa_Topic a) m \<and>
        (\<forall>m'. \<lparr>Topic = pa_Topic a, Partition = pa_Partition a\<rparr> \<in> set (get_slice (Assignments cg) m')
               \<longrightarrow> m' = m))"

lemma JoinGroup_assignments:
  assumes "applies_log raft" "groups_wf (RN_FSM rn)" "JoinGroup raft rnd req rn = (Inr resp, rn')"
  shows "distinct (jgr_Assignments resp)"
    and "\<forall>a \<in> set (jgr_Assignments resp). assignment_ok (RN_FSM rn') (jgq_GroupId req) (jgr_MemberId resp) a"
proof -
  from assms(3) obtain cg op j where pr: "Propose raft op j rn = (None, rn')"
    and cg: "ConsumerGroups (RN_FSM rn') (jgq_GroupId req) = Some cg"
    and asg: "jgr_Assignments resp = map (assignment_details (GetMetadata [] (RN_FSM rn')))
      (get_slice (Assignments cg) (jgr_MemberId resp))"
    by (rule JoinGroup_result)
  from log_run_groups_wf [OF Propose_log_run [OF assms(1) pr] assms(2)] cg
  have wf: "group_wf (RN_FSM rn') (jgq_GroupId req) cg" by (simp add: groups_wf_def)
  then show "distinct (jgr_Assignments resp)"
    by (simp add: asg distinct_map assignment_details_inj group_wf_def)
  show "\<forall>a \<in> set (jgr_Assignments resp). assignment_ok (RN_FSM rn') (jgq_GroupId req) (jgr_MemberId resp) a"
  proof
    fix a
    assume "a \<in> set (jgr_Assignments resp)"
    then obtain pt where pt: "pt \<in> set (get_slice (Assignments cg) (jgr_MemberId resp))"
      and a: "a = assignment_details (GetMetadata [] (RN_FSM rn')) pt" by (auto simp: asg)
    from wf pt obtain q where q: "partition_of (RN_FSM rn') (Topic pt) (Partition pt) = Some q"
      and sub: "subscribes (Members cg) (Topic pt) (jgr_MemberId resp)"
      by (simp add: group_wf_def) blast
    have a': "a = to_assignment (Topic pt) (Partition pt) q"
      using q by (simp add: a assignment_details_eq partition_of_GetMetadata)
    have "\<lparr>Topic = Topic pt, Partition = Partition pt\<rparr> = pt" by simp
    then have "\<forall>m. \<lparr>Topic = Topic pt, Partition = Partition pt\<rparr> \<in> set (get_slice (Assignments cg) m)
        \<longrightarrow> m = jgr_MemberId resp"
      using wf pt by (simp only: group_wf_def) blast
    with q sub cg show "assignment_ok (RN_FSM rn') (jgq_GroupId req) (jgr_MemberId resp) a"
      by (simp add: assignment_ok_def a' to_assignment_def)
  qed
qed

text \<open>The branch \<open>group not found\<close> is not reached: no log entry removes a group.\<close>

lemma JoinGroup_group_found:
  assumes "applies_log raft"
    and "valid_utf8 (jgq_GroupId req)" "valid_utf8 (jgq_MemberId req)" "\<forall>t \<in> set (jgq_Topics req). valid_utf8 t"
  shows "fst (JoinGroup raft rnd req rn) \<noteq> Inl (Internal, ''group not found after join proposal'')"
proof
  assume err: "fst (JoinGroup raft rnd req rn) = Inl (Internal, ''group not found after join proposal'')"
  define payload where "payload = \<lparr>jg_GroupID = jgq_GroupId req,
    jg_MemberID = (if jgq_MemberId req = [] then generateMemberID rnd else jgq_MemberId req),
    jg_Topics = jgq_Topics req\<rparr>"
  from err obtain rn' where
    pr: "Propose raft CmdJoinConsumerGroup (enc_JoinGroup payload) rn = (None, rn')"
    and none: "ConsumerGroups (RN_FSM rn') (jgq_GroupId req) = None"
    by (auto simp: JoinGroup_def Let_def payload_def checkLeader_def
        split: option.splits prod.splits if_splits)
  have "valid_proposal (PJoinGroup payload)" using assms(2-4) valid_generateMemberID by (simp add: payload_def)
  then obtain s1 ch where "log_run (exec ch (PJoinGroup payload) s1) (RN_FSM rn')"
    by (rule Propose_ok [OF assms(1) _ pr]) simp
  moreover have "ConsumerGroups (exec ch (PJoinGroup payload) s1) (jgq_GroupId req) \<noteq> None"
    by (simp add: join_consumer_group_def Let_def payload_def)
  ultimately show False using none log_run_groups_mono by blast
qed

section \<open>Committed offsets\<close>

lemma choices_ok_Offsets [simp]:
  "choices_ok c (s\<lparr>Offsets := os\<rparr>) (s\<lparr>Offsets := os'\<rparr>) \<longleftrightarrow> choices_ok c s s"
  "choices_ok c s (s\<lparr>Offsets := os'\<rparr>) \<longleftrightarrow> choices_ok c s s"
  by (simp_all add: choices_ok_def visit_ok_def)

definition commit_all :: "string \<Rightarrow> TopicPartitionOffset list \<Rightarrow> ClusterState \<Rightarrow> ClusterState" where
  "commit_all g offs s = fold (\<lambda>off. commit_offset (commit_payload g off)) offs s"

lemma commit_loop_alone:
  assumes "applies_alone (\<lambda>_ _. c) raft" "raft_State raft (RN_Raft rn) = Leader"
    and "choices_ok c (RN_FSM rn) (RN_FSM rn)"
    and "valid_utf8 g" "\<forall>off \<in> set offs. valid_utf8 (tpo_Topic off)"
  shows "commit_loop raft g offs rn = (\<lparr>cor_Success = True\<rparr>, rn\<lparr>RN_FSM := commit_all g offs (RN_FSM rn)\<rparr>)"
  using assms(2,3,5)
proof (induction offs arbitrary: rn)
  case Nil
  then show ?case by (simp add: commit_all_def)
next
  case (Cons off offs)
  let ?p = "commit_payload g off"
  have ok: "choices_ok c (RN_FSM rn) (exec c (PCommitOffset ?p) (RN_FSM rn))"
    using Cons.prems(2) by (simp add: commit_offset_def)
  have "Propose raft CmdCommitOffset (enc_CommitOffset ?p) rn =
      (None, rn\<lparr>RN_FSM := commit_offset ?p (RN_FSM rn)\<rparr>)"
    using Propose_alone [OF assms(1) Cons.prems(1), of "PCommitOffset ?p"] ok assms(4) Cons.prems(3)
    by (simp add: commit_payload_def)
  moreover have "choices_ok c (commit_offset ?p (RN_FSM rn)) (commit_offset ?p (RN_FSM rn))"
    using Cons.prems(2) by (simp add: commit_offset_def)
  ultimately show ?case
    using Cons.prems Cons.IH [of "rn\<lparr>RN_FSM := commit_offset ?p (RN_FSM rn)\<rparr>"]
    by (simp add: commit_all_def)
qed

lemma commit_all_frame [simp, frame_simps]:
  "Brokers (commit_all g offs s) = Brokers s"
  "Topics (commit_all g offs s) = Topics s"
  "ConsumerGroups (commit_all g offs s) = ConsumerGroups s"
  "partition_of (commit_all g offs s) = partition_of s"
  unfolding commit_all_def by (induction offs arbitrary: s) simp_all

lemma GetOffset_commit_all:
  assumes "off \<in> set offs" "slash_free g" "valid_rune (unat (tpo_Partition off))"
    and "\<forall>o1 \<in> set offs. slash_free (tpo_Topic o1) \<and> valid_rune (unat (tpo_Partition o1))"
    and "distinct (map (\<lambda>o1. (tpo_Topic o1, tpo_Partition o1)) offs)"
  shows "GetOffset g (tpo_Topic off) (tpo_Partition off) (commit_all g offs s) = tpo_Offset off"
  using assms(1,4,5) unfolding commit_all_def
proof (induction offs rule: rev_induct)
  case (snoc x offs)
  show ?case
  proof (cases "off = x")
    case True
    then show ?thesis by (simp add: GetOffset_commit_offset commit_payload_def)
  next
    case False
    with snoc.prems(1) have mem: "off \<in> set offs" by simp
    have "(tpo_Topic x, tpo_Partition x) \<notin> (\<lambda>o1. (tpo_Topic o1, tpo_Partition o1)) ` set offs"
      using snoc.prems(3) by simp
    with imageI [OF mem, of "\<lambda>o1. (tpo_Topic o1, tpo_Partition o1)"]
    have "(tpo_Topic off, tpo_Partition off) \<noteq> (tpo_Topic x, tpo_Partition x)" by (intro notI) simp
    note mem this
    moreover have "offset_key g (tpo_Topic off) (tpo_Partition off) =
        offset_key g (tpo_Topic x) (tpo_Partition x) \<longleftrightarrow>
        tpo_Topic off = tpo_Topic x \<and> tpo_Partition off = tpo_Partition x"
      using assms(2) snoc.prems(1,2) by (subst offset_key_inject) auto
    ultimately show ?thesis
      using snoc by (auto simp: GetOffset_commit_offset commit_payload_def)
  qed
qed simp

text \<open>The value a consumer is told: the committed offset, at most the high watermark.\<close>

definition clamp :: "i64 \<Rightarrow> i64 \<Rightarrow> i64" where
  "clamp hw off = (if 0 \<le> sint off \<and> sint hw < sint off then hw else off)"

lemma sint_clamp: "0 \<le> sint off \<Longrightarrow> sint (clamp hw off) = min (sint hw) (sint off)"
  by (simp add: clamp_def min_def)

lemma fetch_loop_acc: "fetch_loop pks i g ts s acc = acc @ fetch_loop pks i g ts s []"
proof (induction ts arbitrary: i acc)
  case (Cons t ts)
  show ?case
    by (cases "Topics (GetMetadata [t] s) t") (simp_all add: Cons [of "Suc i" acc] Let_def Cons [of _ "_ @ _"] Cons [of _ "map _ _"])
qed simp

lemma set_fetch_loop:
  assumes "\<forall>j < length ts. \<forall>t. Topics s (ts ! j) = Some t \<longrightarrow> range_ok (pks (i + j)) (Partitions t)"
  shows "set (fetch_loop pks i g ts s []) =
    {\<lparr>tpo_Topic = n, tpo_Partition = p, tpo_Offset = clamp (HighWatermark q) (GetOffset g n p s)\<rparr>
     | n p q. n \<in> set ts \<and> partition_of s n p = Some q}"
  using assms
proof (induction ts arbitrary: i)
  case (Cons n ts)
  have IH: "set (fetch_loop pks (Suc i) g ts s []) =
    {\<lparr>tpo_Topic = n, tpo_Partition = p, tpo_Offset = clamp (HighWatermark q) (GetOffset g n p s)\<rparr>
     | n p q. n \<in> set ts \<and> partition_of s n p = Some q}"
    using Cons.prems by (intro Cons.IH) auto
  show ?case
  proof (cases "Topics s n")
    case None
    then show ?thesis by (auto simp: IH Topics_GetMetadata partition_of_def)
  next
    case (Some t)
    have ok: "range_ok (pks i) (Partitions t)" using Cons.prems [rule_format, of 0] Some by simp
    have ok': "range_ok (pks i) (Partitions (copy_TopicState t))"
      using ok by (rule iffD2 [OF range_ok_dom, rotated]) (auto simp: copy_TopicState_def copy_map_def dom_def)
    have "fetch_offset g n (copy_TopicState t) s p =
        \<lparr>tpo_Topic = n, tpo_Partition = p, tpo_Offset = clamp (HighWatermark q) (GetOffset g n p s)\<rparr>"
      if "Partitions t p = Some q" for p q
      using that by (simp add: fetch_offset_def clamp_def copy_TopicState_def copy_map_def Let_def)
    moreover have "Partitions (copy_TopicState t) p = Some q' \<longleftrightarrow>
        (\<exists>q. Partitions t p = Some q \<and> q' = copy_PartitionState q)" for p q'
      by (auto simp: copy_TopicState_def copy_map_def)
    ultimately have "set (map (\<lambda>(pID, _). fetch_offset g n (copy_TopicState t) s pID)
        (range_entries (pks i) (Partitions (copy_TopicState t)))) =
      {\<lparr>tpo_Topic = n, tpo_Partition = p, tpo_Offset = clamp (HighWatermark q) (GetOffset g n p s)\<rparr>
       | p q. Partitions t p = Some q}"
      by (auto simp: range_entries_ok [OF ok'] image_iff) metis+
    with Some IH show ?thesis
      by (subst fetch_loop.simps, subst Let_def, subst fetch_loop_acc)
         (auto simp: Topics_GetMetadata partition_of_def)
  qed
qed simp

section \<open>Properties\<close>

text \<open>
  \<open>FSM.GetMetadata\<close> is a faithful copy.  Brokers, groups and offsets are those of the
  state; a topic is present exactly if it exists and the filter is empty or names it; leader,
  replicas, in-sync replicas, high watermark and offsets of its partitions are those of the state.
\<close>

lemma GetMetadata_copy:
  "Brokers (GetMetadata ts s) = Brokers s \<and> ConsumerGroups (GetMetadata ts s) = ConsumerGroups s \<and>
   Offsets (GetMetadata ts s) = Offsets s \<and>
   (\<forall>n. (Topics (GetMetadata ts s) n \<noteq> None) = (Topics s n \<noteq> None \<and> (ts = [] \<or> n \<in> set ts))) \<and>
   (\<forall>n p. partition_of (GetMetadata ts s) n p =
      (if ts = [] \<or> n \<in> set ts
       then map_option (\<lambda>q. q\<lparr>ReplicaOffsets := Some (offsets_of q)\<rparr>) (partition_of s n p) else None))"
proof -
  have "copy_PartitionState = (\<lambda>q. q\<lparr>ReplicaOffsets := Some (offsets_of q)\<rparr>)"
    by (rule ext) (simp add: copy_PartitionState_def)
  then show ?thesis by (simp add: partition_of_GetMetadata Topics_GetMetadata)
qed

text \<open>
  The answer to a broker's heartbeat lists exactly the partitions the broker leads and exactly
  those it only replicates, with their leaders and replicas, in the state after the heartbeat.
\<close>

lemma Heartbeat_roles:
  assumes "Heartbeat raft v req rn = (Inr resp, rn')" "visit_ok v (RN_FSM rn')"
  shows "set (hbr_AssignedLeaders resp) =
      {to_assignment n p q | n p q. partition_of (RN_FSM rn') n p = Some q \<and> LeaderID q = hbq_BrokerId req} \<and>
    set (hbr_AssignedFollowers resp) =
      {to_assignment n p q | n p q. partition_of (RN_FSM rn') n p = Some q \<and>
         LeaderID q \<noteq> hbq_BrokerId req \<and> hbq_BrokerId req \<in> set (ReplicaIDs q)}"
proof -
  let ?roles = "broker_roles v (hbq_BrokerId req) (GetMetadata [] (RN_FSM rn'))"
  from assms(1) have "hbr_AssignedLeaders resp = fst ?roles" "hbr_AssignedFollowers resp = snd ?roles"
    by (auto simp: Heartbeat_def Let_def split: option.splits prod.splits)
  then show ?thesis using set_broker_roles [OF assms(2), of "hbq_BrokerId req"]
    by (simp add: leads_def follows_def)
qed

text \<open>
  C25: a successful \<open>JoinGroup\<close> returns, whatever else the log applies meanwhile, distinct
  assignments that exist, carry the current leader and replicas, belong to topics the member
  subscribes to, and are owned by nobody else in the group.
\<close>

theorem JoinGroup_response:
  assumes "applies_log raft" "groups_wf (RN_FSM rn)" "JoinGroup raft rnd req rn = (Inr resp, rn')"
  shows "distinct (jgr_Assignments resp) \<and>
    (\<forall>a \<in> set (jgr_Assignments resp). assignment_ok (RN_FSM rn') (jgq_GroupId req) (jgr_MemberId resp) a) \<and>
    (jgr_MemberId resp = (if jgq_MemberId req = [] then generateMemberID rnd else jgq_MemberId req)) \<and>
    (\<exists>cg. ConsumerGroups (RN_FSM rn') (jgq_GroupId req) = Some cg \<and> jgr_GenerationId resp = Generation cg)"
  using JoinGroup_assignments [OF assms] JoinGroup_result [OF assms(3)] by metis

text \<open>
  \<open>JoinGroup\<close> never answers that the group was not found after the proposal, because nothing
  removes a group.
\<close>

lemma JoinGroup_finds_group:
  assumes "applies_log raft" "valid_utf8 (jgq_GroupId req)" "valid_utf8 (jgq_MemberId req)"
    and "\<forall>t \<in> set (jgq_Topics req). valid_utf8 t"
  shows "fst (JoinGroup raft rnd req rn) \<noteq> Inl (Internal, ''group not found after join proposal'')"
  using assms by (rule JoinGroup_group_found)

text \<open>
  \<open>HeartbeatGroup\<close> answers \<open>OK\<close> exactly to a known member with the current generation, asks a
  known member with another generation to rebalance, and changes nothing: the time it notes for
  the member is lost.
\<close>

lemma HeartbeatGroup_status:
  "snd (HeartbeatGroup now req rn) = rn \<and>
   hgr_Status (fst (HeartbeatGroup now req rn)) =
     (case ConsumerGroups (RN_FSM rn) (hgq_GroupId req) of
        None \<Rightarrow> UNKNOWN_MEMBER
      | Some g \<Rightarrow>
          if Members g (hgq_MemberId req) = None then UNKNOWN_MEMBER
          else if Generation g = hgq_GenerationId req then OK else REBALANCE_IN_PROGRESS)"
  by (auto simp: HeartbeatGroup_def Let_def split: option.splits)


text \<open>
  \<open>FetchOffsets\<close> returns one entry for each partition of each requested topic that exists, and
  none of its offsets passes the partition's high watermark unless it is negative, that is, unless
  nothing was committed.
\<close>

lemma FetchOffsets_exact:
  assumes "\<forall>j < length (foq_Topics req). \<forall>t.
    Topics (RN_FSM rn) (foq_Topics req ! j) = Some t \<longrightarrow> range_ok (pks j) (Partitions t)"
  shows "(\<lambda>e. (tpo_Topic e, tpo_Partition e)) ` set (for_Offsets (FetchOffsets pks req rn)) =
      {(n, p). n \<in> set (foq_Topics req) \<and> partition_of (RN_FSM rn) n p \<noteq> None} \<and>
    (\<forall>e \<in> set (for_Offsets (FetchOffsets pks req rn)). \<forall>q.
       partition_of (RN_FSM rn) (tpo_Topic e) (tpo_Partition e) = Some q \<longrightarrow>
       0 \<le> sint (tpo_Offset e) \<longrightarrow> sint (tpo_Offset e) \<le> sint (HighWatermark q))"
proof
  have set: "set (for_Offsets (FetchOffsets pks req rn)) =
    {\<lparr>tpo_Topic = n, tpo_Partition = p,
      tpo_Offset = clamp (HighWatermark q) (GetOffset (foq_GroupId req) n p (RN_FSM rn))\<rparr>
     | n p q. n \<in> set (foq_Topics req) \<and> partition_of (RN_FSM rn) n p = Some q}"
    using assms by (simp add: FetchOffsets_def set_fetch_loop)
  show "(\<lambda>e. (tpo_Topic e, tpo_Partition e)) ` set (for_Offsets (FetchOffsets pks req rn)) =
      {(n, p). n \<in> set (foq_Topics req) \<and> partition_of (RN_FSM rn) n p \<noteq> None}"
    unfolding set by (force simp: image_iff)
  show "\<forall>e \<in> set (for_Offsets (FetchOffsets pks req rn)). \<forall>q.
      partition_of (RN_FSM rn) (tpo_Topic e) (tpo_Partition e) = Some q \<longrightarrow>
      0 \<le> sint (tpo_Offset e) \<longrightarrow> sint (tpo_Offset e) \<le> sint (HighWatermark q)"
    unfolding set by (auto simp: clamp_def)
qed

text \<open>
  A node that does not lead answers every request that would change the cluster with
  \<open>Unavailable\<close> and the leader's address, and its state and log stay untouched; its failure
  detector proposes nothing.
\<close>

lemma not_leader_refuses:
  assumes "raft_State raft (RN_Raft rn) \<noteq> Leader"
  shows "RegisterBroker raft a rn = (Inl (Unavailable,
      ''node is not the cluster leader; current leader is: '' @ raft_Leader raft (RN_Raft rn)), rn) \<and>
    Heartbeat raft v b rn = (Inl (Unavailable,
      ''node is not the cluster leader; current leader is: '' @ raft_Leader raft (RN_Raft rn)), rn) \<and>
    CreateTopic raft c rn = (Inl (Unavailable,
      ''node is not the cluster leader; current leader is: '' @ raft_Leader raft (RN_Raft rn)), rn) \<and>
    JoinGroup raft rnd d rn = (Inl (Unavailable,
      ''node is not the cluster leader; current leader is: '' @ raft_Leader raft (RN_Raft rn)), rn) \<and>
    CommitOffsets raft f rn = (Inl (Unavailable,
      ''node is not the cluster leader; current leader is: '' @ raft_Leader raft (RN_Raft rn)), rn) \<and>
    startFailureDetection raft n rn = rn"
proof -
  have "(failure_tick raft ^^ n) rn = rn"
    using not_leader_unavailable(6) [OF assms] by (induction n) simp_all
  then show ?thesis using not_leader_unavailable [OF assms] by (simp add: startFailureDetection_def)
qed

text \<open>
  The node of the run above, leading a one-node cluster: broker 1 leads partition 0 of topic \<open>t\<close>.
\<close>

definition demo_c :: choices where
  "demo_c = (demo_choices [1] demo_visit)\<lparr>ch_failover_visit := (\<lambda>_. demo_visit),
     ch_members := [''m''], ch_subscribed := [''t''], ch_group_parts := (\<lambda>_. [0])\<rparr>"

definition demo_node :: "RaftState RaftNode" where
  "demo_node = \<lparr>RN_Raft = Leader, RN_FSM = demo_state2, RN_NodeID = ''node1''\<rparr>"

definition demo_raft :: "RaftState raft_lib" where
  "demo_raft = local_raft (\<lambda>_ _. demo_c)"

lemma demo_raft_ok:
  "applies_alone (\<lambda>_ _. demo_c) demo_raft" "applies_log demo_raft"
  "raft_State demo_raft (RN_Raft demo_node) = Leader" "checkLeader demo_raft demo_node = None"
  unfolding demo_raft_def
  by (rule local_raft_alone, rule local_raft_log)
     (simp_all add: demo_node_def local_raft_def checkLeader_def)

lemma demo_partition:
  obtains q where "partition_of demo_state2 ''t'' 0 = Some q" "LeaderID q = 1"
proof -
  have "partition_of demo_state2 ''t'' 0 \<noteq> None"
    using partition_of_shape [of demo_state2 "''t''" 0] by (simp add: demo_shape)
  moreover have "LeaderID q = 1" if "partition_of demo_state2 ''t'' 0 = Some q" for q
  proof -
    have "broker_active (Brokers demo_state2) (LeaderID q)"
      using that cluster_leaders.reach_inv [OF demo_reach] by (auto simp: leaders_active_def)
    moreover have "Brokers demo_state2 = Brokers demo_state1" by (simp add: demo_state2_def demo_create_def)
    ultimately show ?thesis
      by (auto simp: demo_state1_eq broker_active_def split: option.splits if_splits)
  qed
  ultimately show ?thesis using that by blast
qed

lemma demo_base_ok:
  "range_ok [1] (Brokers demo_state2)" "visit_ok demo_visit demo_state2"
  "Topics demo_state2 n = Some t \<Longrightarrow> n = ''t'' \<and> range_ok [0] (Partitions t)"
  "ConsumerGroups demo_state2 = Map.empty"
proof -
  have "Brokers demo_state2 = Brokers demo_state1" by (simp add: demo_state2_def demo_create_def)
  then show "range_ok [1] (Brokers demo_state2)" by (simp add: demo_state1_eq range_ok_def)
  show "visit_ok demo_visit demo_state2" by (simp add: visit_ok_shape demo_shape demo_visit_def)
  show "n = ''t'' \<and> range_ok [0] (Partitions t)" if "Topics demo_state2 n = Some t"
  proof -
    have "shape demo_state2 n = Some (dom (Partitions t))" using that by (simp add: shape_def)
    then show ?thesis by (auto simp: demo_shape range_ok_def split: if_splits)
  qed
  have "ConsumerGroups demo_state2 = ConsumerGroups demo_state1"
    unfolding demo_state2_def by (rule exec_groups_frame) (simp add: demo_create_def)
  then show "ConsumerGroups demo_state2 = Map.empty" by (simp add: demo_state1_eq NewFSM_def)
qed

lemma demo_choices_ok:
  assumes "shape s' = shape demo_state2" "ConsumerGroups s' = ConsumerGroups demo_state2"
  shows "choices_ok demo_c demo_state2 s'"
proof -
  have "visit_ok demo_visit s'" using assms(1) demo_base_ok(2) by (simp add: visit_ok_shape)
  with assms(2) demo_base_ok(1,2) show ?thesis
    by (simp add: choices_ok_def demo_c_def demo_choices_def)
qed

definition demo_heartbeat :: HeartbeatRequest where
  "demo_heartbeat = \<lparr>hbq_BrokerId = 1, hbq_DiskUsageBytes = 0, hbq_DiskFreeBytes = 0,
     hbq_ReplicaOffsets = [\<lparr>pro_Topic = ''t'', pro_Partition = 0, pro_Offset = 5\<rparr>]\<rparr>"

lemma demo_heartbeat_any:
  assumes "valid_proposal (PHeartbeat (heartbeat_payload req))"
  obtains resp where "Heartbeat demo_raft demo_visit req demo_node = (Inr resp, demo_node\<lparr>RN_FSM :=
    exec demo_c (PHeartbeat (heartbeat_payload req)) demo_state2\<rparr>)"
proof -
  let ?p = "PHeartbeat (heartbeat_payload req)"
  have "choices_ok demo_c demo_state2 (exec demo_c ?p demo_state2)"
    by (rule demo_choices_ok) (simp_all add: exec_groups_frame del: exec.simps, simp)
  then have pr: "Propose demo_raft CmdBrokerHeartbeat (enc_Heartbeat (heartbeat_payload req)) demo_node =
      (None, demo_node\<lparr>RN_FSM := exec demo_c ?p demo_state2\<rparr>)"
    using Propose_alone [OF demo_raft_ok(1,3) assms] by (simp add: demo_node_def)
  obtain ls fs where "broker_roles demo_visit (hbq_BrokerId req)
      (GetMetadata [] (exec demo_c ?p demo_state2)) = (ls, fs)" by (cases rule: prod.exhaust)
  with pr demo_raft_ok(4) show ?thesis
    by (intro that [of "\<lparr>hbr_Success = True, hbr_AssignedLeaders = ls, hbr_AssignedFollowers = fs\<rparr>"])
       (simp add: Heartbeat_def)
qed

lemma demo_heartbeat_runs:
  obtains resp where "Heartbeat demo_raft demo_visit demo_heartbeat demo_node = (Inr resp, demo_node\<lparr>RN_FSM :=
    exec demo_c (PHeartbeat (heartbeat_payload demo_heartbeat)) demo_state2\<rparr>)"
proof -
  have "valid_proposal (PHeartbeat (heartbeat_payload demo_heartbeat))"
    by (simp add: heartbeat_payload_def demo_heartbeat_def)
  then show ?thesis by (rule demo_heartbeat_any) (rule that)
qed

lemma demo_leader_after:
  obtains q where "partition_of (exec demo_c (PHeartbeat hb) demo_state2) ''t'' 0 = Some q" "LeaderID q = 1"
proof -
  obtain q0 where q0: "partition_of demo_state2 ''t'' 0 = Some q0" "LeaderID q0 = 1" by (rule demo_partition)
  then obtain q where q: "partition_of (exec demo_c (PHeartbeat hb) demo_state2) ''t'' 0 = Some q"
    using exec_partition_mono [of demo_state2 "''t''" 0] by blast
  then have "LeaderID q = 1"
    using LeaderID_heartbeat [OF demo_base_ok(2)] q0 by (force simp: demo_c_def demo_choices_def)
  with q show ?thesis by (rule that)
qed

lemma Heartbeat_roles_example:
  "\<exists>resp rn'. Heartbeat demo_raft demo_visit demo_heartbeat demo_node = (Inr resp, rn') \<and>
     (\<exists>a \<in> set (hbr_AssignedLeaders resp). pa_Topic a = ''t'' \<and> pa_Partition a = 0)"
proof -
  let ?s = "exec demo_c (PHeartbeat (heartbeat_payload demo_heartbeat)) demo_state2"
  obtain resp where run: "Heartbeat demo_raft demo_visit demo_heartbeat demo_node =
      (Inr resp, demo_node\<lparr>RN_FSM := ?s\<rparr>)" by (rule demo_heartbeat_runs)
  have v: "visit_ok demo_visit ?s" using demo_base_ok(2) by (simp add: visit_ok_heartbeat)
  obtain q where q: "partition_of ?s ''t'' 0 = Some q" and "LeaderID q = 1" by (rule demo_leader_after)
  then have "to_assignment ''t'' 0 q \<in> set (hbr_AssignedLeaders resp)"
    using Heartbeat_roles [OF run] v by (auto simp: demo_heartbeat_def)
  then have "\<exists>a \<in> set (hbr_AssignedLeaders resp). pa_Topic a = ''t'' \<and> pa_Partition a = 0"
    by (rule bexI [rotated]) (simp add: to_assignment_def)
  with run show ?thesis by blast
qed

definition demo_join :: JoinGroupRequest where
  "demo_join = \<lparr>jgq_GroupId = ''g'', jgq_MemberId = ''m'', jgq_Topics = [''t'']\<rparr>"

definition demo_join_payload :: JoinGroupPayload where
  "demo_join_payload = \<lparr>jg_GroupID = ''g'', jg_MemberID = ''m'', jg_Topics = [''t'']\<rparr>"

lemma demo_join_runs:
  obtains resp where "JoinGroup demo_raft [] demo_join demo_node =
    (Inr resp, demo_node\<lparr>RN_FSM := exec demo_c (PJoinGroup demo_join_payload) demo_state2\<rparr>)"
    "jgr_GenerationId resp = 1"
proof -
  let ?p = "PJoinGroup demo_join_payload" and ?s = "exec demo_c (PJoinGroup demo_join_payload) demo_state2"
  define g where "g = \<lparr>GroupID = ''g'', Generation = 0,
    Members = [''m'' \<mapsto> \<lparr>GM_ID = ''m'', GM_Topics = [''t''], GM_LastSeen = 0\<rparr>], Assignments = Map.empty\<rparr>"
  have s: "ConsumerGroups ?s = [''g'' \<mapsto> rebalanceGroup [''m''] [''t''] (\<lambda>_. [0]) demo_state2 g]"
    by (simp add: join_consumer_group_def Let_def demo_join_payload_def demo_base_ok(4) g_def demo_c_def demo_choices_def)
  have "rebalance_ok [''m''] [''t''] (\<lambda>_. [0]) demo_state2 g"
    using demo_base_ok(3) by (auto simp: rebalance_ok_def range_ok_def g_def topic_to_members_def append_entry_def)
  then have ok: "choices_ok demo_c demo_state2 ?s"
    using demo_base_ok(1,2) s unfolding choices_ok_def
    by (auto simp: demo_c_def demo_choices_def visit_ok_def join_consumer_group_def Let_def)
  have pr: "Propose demo_raft CmdJoinConsumerGroup (enc_JoinGroup demo_join_payload) demo_node =
      (None, demo_node\<lparr>RN_FSM := ?s\<rparr>)"
    using Propose_alone [OF demo_raft_ok(1,3), of ?p] ok by (simp add: demo_node_def demo_join_payload_def)
  define resp where "resp = \<lparr>jgr_MemberId = ''m'', jgr_GenerationId = 1,
    jgr_Assignments = map (assignment_details (GetMetadata [] ?s))
      (get_slice (Assignments (rebalanceGroup [''m''] [''t''] (\<lambda>_. [0]) demo_state2 g)) ''m'')\<rparr>"
  have "Generation (rebalanceGroup [''m''] [''t''] (\<lambda>_. [0]) demo_state2 g) = 1" by (simp add: g_def)
  then have "JoinGroup demo_raft [] demo_join demo_node = (Inr resp, demo_node\<lparr>RN_FSM := ?s\<rparr>)"
    using pr s demo_raft_ok(4)
    by (simp add: JoinGroup_def demo_join_def Let_def demo_join_payload_def resp_def get_slice_def split: option.split)
  then show ?thesis by (rule that) (simp add: resp_def)
qed

theorem JoinGroup_response_witness:
  "\<exists>resp rn'. JoinGroup demo_raft [] demo_join demo_node = (Inr resp, rn') \<and>
     jgr_MemberId resp = ''m'' \<and> distinct (jgr_Assignments resp)"
proof -
  obtain resp rn' where run: "JoinGroup demo_raft [] demo_join demo_node = (Inr resp, rn')"
    using demo_join_runs by metis
  have "groups_wf (RN_FSM demo_node)"
    by (simp add: demo_node_def groups_wf_def demo_base_ok(4))
  from JoinGroup_response [OF demo_raft_ok(2) this run] run show ?thesis
    by (simp add: demo_join_def)
qed

lemma JoinGroup_finds_group_example:
  "fst (JoinGroup demo_raft [] demo_join demo_node) \<noteq> Inl (Internal, ''group not found after join proposal'')"
  by (rule JoinGroup_finds_group [OF demo_raft_ok(2)]) (simp_all add: demo_join_def)

definition demo_commit :: CommitOffsetsRequest where
  "demo_commit = \<lparr>coq_GroupId = ''g'', coq_MemberId = ''m'', coq_GenerationId = 1,
     coq_Offsets = [\<lparr>tpo_Topic = ''t'', tpo_Partition = 0, tpo_Offset = 7\<rparr>]\<rparr>"


lemma FetchOffsets_exact_example:
  "(\<lambda>e. (tpo_Topic e, tpo_Partition e)) ` set (for_Offsets (FetchOffsets (\<lambda>_. [0])
     \<lparr>foq_GroupId = ''g'', foq_Topics = [''t'', ''u'']\<rparr> demo_node)) = {(''t'', 0)}"
proof -
  have some: "partition_of demo_state2 n p \<noteq> None \<longleftrightarrow> n = ''t'' \<and> p = 0" for n p
    unfolding partition_of_shape by (auto simp: demo_shape)
  have "\<forall>j < length [''t'', ''u'']. \<forall>t. Topics (RN_FSM demo_node) ([''t'', ''u''] ! j) = Some t \<longrightarrow>
      range_ok ((\<lambda>_. [0]) j) (Partitions t)"
    using demo_base_ok(3) by (auto simp: demo_node_def)
  then have "(\<lambda>e. (tpo_Topic e, tpo_Partition e)) ` set (for_Offsets (FetchOffsets (\<lambda>_. [0])
      \<lparr>foq_GroupId = ''g'', foq_Topics = [''t'', ''u'']\<rparr> demo_node)) =
    {(n, p). n \<in> set [''t'', ''u''] \<and> partition_of (RN_FSM demo_node) n p \<noteq> None}"
    using FetchOffsets_exact [of "\<lparr>foq_GroupId = ''g'', foq_Topics = [''t'', ''u'']\<rparr>" demo_node "\<lambda>_. [0]"]
    by simp
  then show ?thesis using some by (auto simp: demo_node_def)
qed

lemma not_leader_refuses_example:
  "startFailureDetection demo_raft 4 (demo_node\<lparr>RN_Raft := Follower\<rparr>) = demo_node\<lparr>RN_Raft := Follower\<rparr>"
  using not_leader_refuses [of demo_raft "demo_node\<lparr>RN_Raft := Follower\<rparr>"]
  by (simp add: demo_raft_def local_raft_def)

end
