(* ===== verification/Snapshots.thy ===== *)
theory Snapshots
  imports FSM_Invariants
begin

text \<open>
  Snapshots of a controller in use (\<open>FSM.Snapshot\<close>, \<open>FSM.Restore\<close> in \<open>pkg/consensus/fsm.go\<close>).  JSON keeps a
  state only if its strings are valid UTF-8 and its times lie in the years 0 to 9999.  Both hold in
  every state that the program's commands reach, as long as the clocks of the controllers do: so
  a snapshot can be taken at any time, and restoring it gives the state back.
\<close>

section \<open>States that JSON keeps\<close>

text \<open>\<open>T\<close>: the times that occur.\<close>

definition broker_storable :: "(int \<Rightarrow> bool) \<Rightarrow> BrokerStatus \<Rightarrow> bool" where
  "broker_storable T b \<longleftrightarrow> valid_utf8 (Host b) \<and> T (LastSeen b)"

definition group_storable :: "(int \<Rightarrow> bool) \<Rightarrow> ConsumerGroupState \<Rightarrow> bool" where
  "group_storable T g \<longleftrightarrow> valid_ConsumerGroupState g \<and> (\<forall>m \<in> ran (Members g). T (GM_LastSeen m))"

definition storable :: "(int \<Rightarrow> bool) \<Rightarrow> ClusterState \<Rightarrow> bool" where
  "storable T s \<longleftrightarrow> (\<forall>b \<in> ran (Brokers s). broker_storable T b) \<and> valid_keys (Topics s) \<and> topic_names_ok s \<and>
     valid_keys (ConsumerGroups s) \<and> (\<forall>g \<in> ran (ConsumerGroups s). group_storable T g) \<and> valid_keys (Offsets s)"

lemma valid_keys_upd: "valid_keys m \<Longrightarrow> valid_utf8 k \<Longrightarrow> valid_keys (m(k \<mapsto> v))"
  by (auto simp: valid_keys_def)

lemma ran_upd: "\<forall>x \<in> ran m. P x \<Longrightarrow> P v \<Longrightarrow> \<forall>x \<in> ran (m(k \<mapsto> v)). P x"
  by (auto simp: ran_def)

lemma storable_valid: "storable T s \<Longrightarrow> valid_ClusterState s"
  unfolding storable_def valid_ClusterState_def valid_TopicState_def valid_PartitionState_def
  by (auto simp: broker_storable_def group_storable_def topic_names_ok_def valid_keys_def ran_def)

lemma storable_times:
  assumes "storable json_time_ok s"
  shows "list_all json_time_ok (state_times s)"
proof -
  have "json_time_ok (LastSeen b)" if "Brokers s k = Some b" for k b
    using assms ranI [of "Brokers s" k b] that by (auto simp: storable_def broker_storable_def)
  moreover have "json_time_ok (GM_LastSeen m)" if "ConsumerGroups s k = Some g" "Members g i = Some m" for k g i m
    using assms ranI [of "ConsumerGroups s" k g] ranI [of "Members g" i m] that by (auto simp: storable_def group_storable_def)
  ultimately show ?thesis
    by (auto simp: list_all_iff state_times_def member_times_def set_range_entries)
qed

lemma storable_snapshot:
  assumes "storable json_time_ok s"
  shows "Snapshot s = Inr (enc_ClusterState s)" "Restore (Inr (Data (enc_ClusterState s))) s0 = (None, s)"
  using storable_times [OF assms] cluster_json.dec_enc [OF storable_valid [OF assms]]
  by (simp_all add: Snapshot_def Restore_def unmarshal_def)

section \<open>Rebalancing\<close>

definition assignments_storable :: "(string \<rightharpoonup> PartitionTopic list) \<Rightarrow> bool" where
  "assignments_storable asg \<longleftrightarrow> valid_keys asg \<and> (\<forall>pts \<in> ran asg. valid_PartitionTopics pts)"

lemma get_slice_ran: "\<forall>xs \<in> ran m. P xs \<Longrightarrow> P [] \<Longrightarrow> P (get_slice m k)"
  by (auto simp: get_slice_def split: option.split intro: ranI)

lemma append_entry_storable:
  assumes "assignments_storable asg" "valid_utf8 m" "valid_utf8 (Topic pt)"
  shows "assignments_storable (append_entry m pt asg)"
proof -
  have "valid_PartitionTopics (get_slice asg m)"
    using assms(1) by (intro get_slice_ran [where P = valid_PartitionTopics]) (auto simp: assignments_storable_def valid_PartitionTopics_def)
  then have "valid_PartitionTopics (get_slice asg m @ [pt])" using assms(3) by (auto simp: valid_PartitionTopics_def)
  then show ?thesis
    using assms(1,2) unfolding assignments_storable_def append_entry_def by (intro conjI valid_keys_upd ran_upd) auto
qed

lemma assign_topic_storable:
  assumes "assignments_storable asg" "valid_utf8 topicName" "\<forall>m \<in> set memberIDs. valid_utf8 m"
  shows "assignments_storable (assign_topic gps s topicName memberIDs asg)"
proof (cases "memberIDs = []")
  case False
  then have m: "valid_utf8 (memberIDs ! (n mod length memberIDs))" for n using assms(3) by simp
  have "assignments_storable (fold (\<lambda>(pID, _). append_entry (memberIDs ! (unat pID mod length memberIDs))
      \<lparr>Topic = topicName, Partition = pID\<rparr>) es asg)" for es :: "(u32 \<times> PartitionState) list"
    by (rule fold_invariant_mem [where P = assignments_storable]) (simp_all add: append_entry_storable assms(1,2) m split_beta)
  then show ?thesis using assms(1) by (simp add: assign_topic_def split: option.split)
qed (simp add: assign_topic_def assms(1))

definition members_storable :: "(string \<rightharpoonup> string list) \<Rightarrow> bool" where
  "members_storable tm \<longleftrightarrow> (\<forall>topic \<in> dom tm. valid_utf8 topic) \<and> (\<forall>ids \<in> ran tm. \<forall>m \<in> set ids. valid_utf8 m)"

lemma append_member_storable:
  assumes "members_storable tm" "valid_utf8 topic" "valid_utf8 m"
  shows "members_storable (append_entry topic m tm)"
proof -
  have "\<forall>i \<in> set (get_slice tm topic). valid_utf8 i"
    using assms(1) by (intro get_slice_ran [where P = "\<lambda>ids. \<forall>i \<in> set ids. valid_utf8 i"]) (auto simp: members_storable_def)
  then have "\<forall>i \<in> set (get_slice tm topic @ [m]). valid_utf8 i" using assms(3) by auto
  then show ?thesis
    using assms(1,2) unfolding members_storable_def append_entry_def by (intro conjI ran_upd) auto
qed

lemma topic_to_members_storable:
  assumes "valid_keys members" "\<forall>m \<in> ran members. valid_GroupMember m"
  shows "members_storable (topic_to_members mks members)"
  unfolding topic_to_members_def
proof (rule fold_invariant_mem [where P = members_storable])
  show "members_storable Map.empty" by (simp add: members_storable_def)
  fix tm e
  assume e: "e \<in> set (range_entries mks members)" and tm: "members_storable tm"
  obtain k m where km: "e = (k, m)" "members k = Some m" using e by (auto simp: set_range_entries)
  have "valid_utf8 k" "\<forall>t \<in> set (GM_Topics m). valid_utf8 t"
    using assms ranI [of members k m] km(2) by (auto simp: valid_keys_def valid_GroupMember_def)
  then show "members_storable ((case e of (memberID, member) \<Rightarrow> fold (\<lambda>topic. append_entry topic memberID) (GM_Topics member)) tm)"
    unfolding km(1) split by (intro fold_invariant_mem [where P = members_storable] tm) (simp add: append_member_storable)
qed

lemma rebalanceGroup_storable:
  assumes "valid_keys (Members g)" "\<forall>m \<in> ran (Members g). valid_GroupMember m"
  shows "assignments_storable (Assignments (rebalanceGroup mks tks gps s g))"
proof -
  let ?tm = "topic_to_members mks (Members g)"
  have tm: "members_storable ?tm" using topic_to_members_storable [OF assms] .
  have "assignments_storable (fold (\<lambda>(topicName, memberIDs). assign_topic gps s topicName memberIDs) (range_entries tks ?tm) Map.empty)"
  proof (rule fold_invariant_mem [where P = assignments_storable])
    show "assignments_storable Map.empty" by (simp add: assignments_storable_def valid_keys_def)
    fix asg e
    assume e: "e \<in> set (range_entries tks ?tm)" and asg: "assignments_storable asg"
    obtain t ids where t: "e = (t, ids)" "?tm t = Some ids" using e by (auto simp: set_range_entries)
    then have "valid_utf8 t" "\<forall>m \<in> set ids. valid_utf8 m" using tm ranI [of ?tm t ids] t(2) by (auto simp: members_storable_def)
    then show "assignments_storable ((case e of (topicName, memberIDs) \<Rightarrow> assign_topic gps s topicName memberIDs) asg)"
      unfolding t(1) split by (rule assign_topic_storable [OF asg])
  qed
  then show ?thesis by (simp add: rebalanceGroup_def)
qed

section \<open>The commands\<close>

lemma set_broker_storable:
  assumes "storable T s" "broker_storable T b"
  shows "storable T (s\<lparr>Brokers := (Brokers s)(k \<mapsto> b)\<rparr>)"
  using assms ran_upd [of "Brokers s" "broker_storable T" b k] by (simp add: storable_def topic_names_ok_def)

lemma set_group_storable:
  assumes "storable T s" "group_storable T g" "valid_utf8 k"
  shows "storable T (s\<lparr>ConsumerGroups := (ConsumerGroups s)(k \<mapsto> g)\<rparr>)"
  using assms ran_upd [of "ConsumerGroups s" "group_storable T" g k]
  by (simp add: storable_def topic_names_ok_def valid_keys_upd)

lemma broker_of_storable: "storable T s \<Longrightarrow> Brokers s k = Some b \<Longrightarrow> broker_storable T b"
  using ranI [of "Brokers s" k b] by (simp add: storable_def)

lemma register_storable:
  "storable T s \<Longrightarrow> valid_proposal (PRegister p) \<Longrightarrow> T now \<Longrightarrow> storable T (register_broker now p s)"
  unfolding register_broker_def by (rule set_broker_storable) (simp_all add: broker_storable_def)

text \<open>Passes over the partitions and new offsets of replicas change neither keys nor names.\<close>

lemma each_partition_storable: "storable T s \<Longrightarrow> storable T (each_partition v f s)"
  using topic_names_each_partition [of s v f] by (simp add: storable_def valid_keys_def)

lemma store_storable: "storable T s \<Longrightarrow> storable T (store_replica_offset b ro s)"
  unfolding storable_def store_replica_offset_def topic_names_ok_def
  by (auto simp: valid_keys_def insert_absorb split: option.split)

lemma heartbeat_storable:
  assumes "storable T s" "T now"
  shows "storable T (broker_heartbeat now now_isr v p s)"
proof -
  have "storable T (s\<lparr>Brokers := (Brokers s)(k \<mapsto> b\<lparr>LastSeen := now, Active := True\<rparr>)\<rparr>)" if "Brokers s k = Some b" for k b
    using broker_of_storable [OF assms(1) that] assms(2)
    by (intro set_broker_storable assms(1)) (simp add: broker_storable_def)
  then show ?thesis
    using assms(1) unfolding broker_heartbeat_def updateISRAndHW_def Let_def
    by (intro each_partition_storable fold_invariant_mem [where P = "storable T"] store_storable) (auto split: option.split)
qed

lemma create_storable:
  assumes "storable T s" "valid_utf8 (ct_Name p)"
  shows "storable T (create_topic ks now_isr v p s)"
proof -
  have "storable T (s\<lparr>Topics := (Topics s)(ct_Name p \<mapsto> new_topic act p)\<rparr>)" for act
    using assms unfolding storable_def by (auto simp: topic_names_ok_def new_topic_def intro!: valid_keys_upd)
  then show ?thesis
    using assms(1) by (auto simp: create_topic_def updateISRAndHW_def each_partition_storable split: option.split)
qed

lemma clean_storable:
  assumes "storable T s"
  shows "storable T (clean_inactive bks aks vs now now_isr v s)"
proof -
  have "storable T (clean_broker aks vs now k s)" if s: "storable T s" for k s
  proof -
    have "storable T (s\<lparr>Brokers := (Brokers s)(k \<mapsto> b\<lparr>Active := False\<rparr>)\<rparr>)" if "Brokers s k = Some b" for b
      using broker_of_storable [OF s that] by (intro set_broker_storable s) (simp add: broker_storable_def)
    then show ?thesis
      using s by (auto simp: clean_broker_def handleBrokerFailure_def Let_def each_partition_storable split: option.split)
  qed
  then show ?thesis
    using assms unfolding clean_inactive_def updateISRAndHW_def
    by (intro each_partition_storable fold_invariant_mem [where P = "storable T"]) auto
qed

lemma join_storable:
  assumes s: "storable T s" and p: "valid_proposal (PJoinGroup p)" and now: "T now"
  shows "storable T (join_consumer_group now mks tks gps p s)"
proof -
  let ?m = "\<lparr>GM_ID = jg_MemberID p, GM_Topics = jg_Topics p, GM_LastSeen = now\<rparr>"
  have "group_storable T (rebalanceGroup mks tks gps s (g\<lparr>Members := (Members g)(jg_MemberID p \<mapsto> ?m)\<rparr>))" (is "group_storable T ?g")
    if g: "valid_utf8 (GroupID g)" "valid_keys (Members g)" "\<forall>m \<in> ran (Members g). valid_GroupMember m \<and> T (GM_LastSeen m)"
    for g :: ConsumerGroupState
  proof -
    have keys: "valid_keys ((Members g)(jg_MemberID p \<mapsto> ?m))" using g(2) p by (intro valid_keys_upd) auto
    have mem: "\<forall>m \<in> ran ((Members g)(jg_MemberID p \<mapsto> ?m)). valid_GroupMember m \<and> T (GM_LastSeen m)"
      by (intro ran_upd g(3)) (use p now in \<open>simp add: valid_GroupMember_def\<close>)
    have "assignments_storable (Assignments ?g)" by (rule rebalanceGroup_storable) (use keys mem in auto)
    then show ?thesis
      using g(1) keys mem unfolding group_storable_def valid_ConsumerGroupState_def assignments_storable_def by simp
  qed
  note new = this
  have "group_storable T (rebalanceGroup mks tks gps s (g\<lparr>Members := (Members g)(jg_MemberID p \<mapsto> ?m)\<rparr>))"
    if "ConsumerGroups s (jg_GroupID p) = Some g" for g
    using s ranI [of "ConsumerGroups s" "jg_GroupID p" g] that
    by (intro new) (auto simp: storable_def group_storable_def valid_ConsumerGroupState_def)
  moreover have "group_storable T (rebalanceGroup mks tks gps s
      (\<lparr>GroupID = jg_GroupID p, Generation = 0, Members = Map.empty, Assignments = Map.empty\<rparr>
        \<lparr>Members := Map.empty(jg_MemberID p \<mapsto> ?m)\<rparr>))"
    using new [of "\<lparr>GroupID = jg_GroupID p, Generation = 0, Members = Map.empty, Assignments = Map.empty\<rparr>"] p
    by (simp add: valid_keys_def)
  ultimately show ?thesis
    using p unfolding join_consumer_group_def Let_def by (intro set_group_storable s) (auto split: option.split)
qed

lemma commit_storable:
  assumes "storable T s" "valid_proposal (PCommitOffset p)"
  shows "storable T (commit_offset p s)"
proof -
  have "valid_utf8 ''/''" by (simp add: valid_utf8_ascii)
  then have "valid_utf8 (offset_key (co_GroupID p) (co_Topic p) (co_Partition p))"
    using assms(2) unfolding offset_key_def by (metis valid_proposal.simps(5) valid_string_of_rune valid_utf8_append)
  then show ?thesis
    using assms(1) unfolding storable_def by (auto simp: commit_offset_def topic_names_ok_def intro!: valid_keys_upd)
qed

lemma exec_storable:
  "storable T s \<Longrightarrow> valid_proposal p \<Longrightarrow> T (ch_now ch) \<Longrightarrow> storable T (exec ch p s)"
  by (cases p) (simp_all add: register_storable heartbeat_storable create_storable clean_storable
      join_storable [simplified] commit_storable [simplified])

section \<open>Every state a controller reaches\<close>

definition timely_step :: "ClusterState \<Rightarrow> ClusterState \<Rightarrow> bool" where
  "timely_step s s' \<longleftrightarrow>
     (\<exists>ch p. choices_ok ch s s' \<and> valid_proposal p \<and> json_time_ok (ch_now ch) \<and> s' = exec ch p s)"

lemma NewFSM_storable: "storable T NewFSM"
  by (simp add: storable_def NewFSM_def valid_keys_def topic_names_ok_def)

interpretation snapshots: inductive_invariant "\<lambda>_. True" timely_step NewFSM "storable json_time_ok"
  by unfold_locales (auto simp: timely_step_def intro: NewFSM_storable exec_storable)

text \<open>Whatever the clocks say, what \<open>Snapshot\<close> returns restores the state.\<close>

definition program_step :: "ClusterState \<Rightarrow> ClusterState \<Rightarrow> bool" where
  "program_step s s' \<longleftrightarrow> (\<exists>ch p. choices_ok ch s s' \<and> valid_proposal p \<and> s' = exec ch p s)"

lemma program_step_cluster: "program_step s t \<Longrightarrow> cluster_step s t"
  by (auto simp: program_step_def cluster_step_def)

interpretation encodable: inductive_invariant "\<lambda>_. True" program_step NewFSM "storable (\<lambda>_. True)"
  by unfold_locales (auto simp: program_step_def intro: NewFSM_storable exec_storable)

lemma snapshot_restores:
  assumes "reach (\<lambda>_. True) program_step NewFSM s" "Snapshot s = Inr j"
  shows "Restore (Inr (Data j)) s0 = (None, s)"
proof -
  have "valid_ClusterState s" using encodable.reach_inv [OF assms(1)] by (rule storable_valid)
  then show ?thesis
    using assms(2) cluster_json.dec_enc by (auto simp: Snapshot_def Restore_def unmarshal_def split: if_splits)
qed

text \<open>
  C16: snapshots of a controller in use.  After any commands of the program, whose strings are valid
  UTF-8 and whose times are in the years that JSON has, a snapshot can be taken; it is handed to the
  sink as a whole and closed; and restoring it gives back exactly that state, whatever state the
  restoring node had, and that state satisfies the invariant of the controller.
\<close>

theorem reachable_snapshot_restore:
  assumes "reach (\<lambda>_. True) timely_step NewFSM s"
  shows "Snapshot s = Inr (enc_ClusterState s) \<and>
    Persist None None (enc_ClusterState s) = (None, [Write (enc_ClusterState s), Close]) \<and>
    Restore (Inr (Data (enc_ClusterState s))) s0 = (None, s) \<and> wf_state s"
proof -
  have "storable json_time_ok s" using assms by (rule snapshots.reach_inv)
  moreover have "reach (\<lambda>_. True) cluster_step NewFSM s"
    using assms by (induction rule: reach.induct) (auto simp: timely_step_def cluster_step_def intro: reach.intros)
  ultimately show ?thesis
    using storable_snapshot cluster_wf.reach_inv by (simp add: Persist_def)
qed

lemma demo_timely_steps: "timely_step NewFSM demo_state1" "timely_step demo_state1 demo_state2"
proof -
  have "json_time_ok (ch_now (demo_choices bks v))" for bks v by (simp add: demo_choices_def json_time_ok_def seconds_def)
  moreover have "valid_proposal demo_register" "valid_proposal demo_create" by (simp_all add: demo_register_def demo_create_def)
  ultimately show "timely_step NewFSM demo_state1" "timely_step demo_state1 demo_state2"
    unfolding timely_step_def using demo_step_choices demo_state1_def demo_state2_def by blast+
qed

theorem reachable_snapshot_restore_witness:
  "Snapshot demo_state2 = Inr (enc_ClusterState demo_state2) \<and>
   Restore (Inr (Data (enc_ClusterState demo_state2))) NewFSM = (None, demo_state2)"
  using reachable_snapshot_restore [of demo_state2 NewFSM] demo_timely_steps by (blast intro: reach.intros)

end
