(* ===== verification/Controller_Service.thy ===== *)
theory Controller_Service
  imports Controller_Main Grpc_Server Snapshots
begin

text \<open>
  The controller in service: \<open>NewServer\<close> of \<open>pkg/grpcserver/server.go\<close>, then gRPC requests, HTTP requests,
  ticks of the failure detector and entries that other controllers have proposed, in any
  order.  Every run is a run of the cluster's commands (\<open>cluster_step\<close>), so the invariants of
  the replicated state hold for a controller that is being used, whatever the requests are and however
  they end.  A snapshot of another controller, or one in the data directory, may replace the state at any time.

  Strings of gRPC requests are valid UTF-8: the protocol rejects others.
\<close>

section \<open>The server\<close>

text \<open>The struct \<open>Server\<close>; \<open>sv_detecting\<close> says that the failure detector has been started.\<close>

record 'r Server =
  sv_RaftNode :: "'r RaftNode"
  sv_detecting :: bool

definition NewServer :: "'r RaftNode \<Rightarrow> 'r Server" where
  "NewServer raftNode = \<lparr>sv_RaftNode = raftNode, sv_detecting = True\<rparr>"

section \<open>Entries of the log\<close>

text \<open>What the program proposes: every controller of a cluster runs it.\<close>

definition program_entries :: "log_data set" where
  "program_entries = {Data (encode p) | p. valid_proposal p}"

text \<open>
  The states of the FSMs of a cluster: new ones, those after entries of the program, and those that
  \<open>FSM.Restore\<close> makes from a snapshot that \<open>FSM.Snapshot\<close> took of such a state.
\<close>

inductive controller_state :: "ClusterState \<Rightarrow> bool" where
  state_new: "controller_state NewFSM"
| state_entry: "controller_state s \<Longrightarrow> d \<in> program_entries \<Longrightarrow> applied ch d s resp t \<Longrightarrow> controller_state t"
| state_restored: "controller_state s \<Longrightarrow> controller_state s0 \<Longrightarrow> Snapshot s0 = Inr j \<Longrightarrow>
    Restore (Inr (Data j)) s = (err, t) \<Longrightarrow> controller_state t"

text \<open>Some entries of \<open>D\<close> and snapshots of other controllers reach the FSM.\<close>

inductive entries_run :: "log_data set \<Rightarrow> ClusterState \<Rightarrow> ClusterState \<Rightarrow> bool" for D where
  run_refl: "entries_run D s s"
| run_step: "entries_run D s s1 \<Longrightarrow> d \<in> D \<Longrightarrow> applied ch d s1 resp s2 \<Longrightarrow> entries_run D s s2"
| run_restore: "entries_run D s s1 \<Longrightarrow> controller_state s0 \<Longrightarrow> Snapshot s0 = Inr j \<Longrightarrow>
    Restore (Inr (Data j)) s1 = (err, s2) \<Longrightarrow> entries_run D s s2"

text \<open>
  What the code relies on: the FSM changes by applying entries of the log and by restoring snapshots, an entry
  is the one proposed in the call or was proposed by a controller, and a snapshot is one that a
  controller took.  \<open>NewRaft\<close> restores at most: the log store is new and empty.  Nothing is said of whether a call succeeds.
\<close>

definition replicates :: "'r raft_lib \<Rightarrow> bool" where
  "replicates raft \<longleftrightarrow>
     (\<forall>d r s res r' s'. raft_Apply raft d r s = (res, r', s') \<longrightarrow> entries_run (insert d program_entries) s s') \<and>
     (\<forall>i a r s res r' s'. raft_AddVoter raft i a r s = (res, r', s') \<longrightarrow> entries_run program_entries s s')"

definition restores :: "('r, 't) raft_env \<Rightarrow> bool" where
  "restores env \<longleftrightarrow> (\<forall>config s store t r s'. NewRaft env config s store t = Inr (r, s') \<longrightarrow> entries_run {} s s')"

section \<open>Service\<close>

inductive service_step :: "'r raft_lib \<Rightarrow> flags \<Rightarrow> 'r Server \<Rightarrow> 'r Server \<Rightarrow> bool" for raft fl where
  register: "valid_utf8 (rbq_Host req) \<Longrightarrow> RegisterBroker raft req (sv_RaftNode s) = (resp, rn) \<Longrightarrow>
    service_step raft fl s (s\<lparr>sv_RaftNode := rn\<rparr>)"
| heartbeat: "\<forall>ro \<in> set (hbq_ReplicaOffsets req). valid_utf8 (pro_Topic ro) \<Longrightarrow>
    Heartbeat raft v req (sv_RaftNode s) = (resp, rn) \<Longrightarrow> service_step raft fl s (s\<lparr>sv_RaftNode := rn\<rparr>)"
| create: "valid_utf8 (ctq_Topic req) \<Longrightarrow> CreateTopic raft req (sv_RaftNode s) = (resp, rn) \<Longrightarrow>
    service_step raft fl s (s\<lparr>sv_RaftNode := rn\<rparr>)"
| join_group: "valid_utf8 (jgq_GroupId req) \<Longrightarrow> valid_utf8 (jgq_MemberId req) \<Longrightarrow>
    \<forall>t \<in> set (jgq_Topics req). valid_utf8 t \<Longrightarrow> JoinGroup raft rnd req (sv_RaftNode s) = (resp, rn) \<Longrightarrow>
    service_step raft fl s (s\<lparr>sv_RaftNode := rn\<rparr>)"
| heartbeat_group: "HeartbeatGroup now req (sv_RaftNode s) = (resp, rn) \<Longrightarrow>
    service_step raft fl s (s\<lparr>sv_RaftNode := rn\<rparr>)"
| commit: "valid_utf8 (coq_GroupId req) \<Longrightarrow> \<forall>off \<in> set (coq_Offsets req). valid_utf8 (tpo_Topic off) \<Longrightarrow>
    CommitOffsets raft req (sv_RaftNode s) = (resp, rn) \<Longrightarrow> service_step raft fl s (s\<lparr>sv_RaftNode := rn\<rparr>)"
| tick: "sv_detecting s \<Longrightarrow> service_step raft fl s (s\<lparr>sv_RaftNode := failure_tick raft (sv_RaftNode s)\<rparr>)"
| http: "serve_http raft fl path rawQuery (sv_RaftNode s) = (resp', rn) \<Longrightarrow>
    service_step raft fl s (s\<lparr>sv_RaftNode := rn\<rparr>)"
| replicate: "entries_run program_entries (RN_FSM (sv_RaftNode s)) t \<Longrightarrow>
    service_step raft fl s (s\<lparr>sv_RaftNode := (sv_RaftNode s)\<lparr>RN_Raft := r, RN_FSM := t\<rparr>\<rparr>)"

section \<open>Simulation\<close>

lemma program_entry_step: "d \<in> program_entries \<Longrightarrow> applied ch d s resp t \<Longrightarrow> program_step s t"
  by (auto simp: program_entries_def applied_def Apply_encode program_step_def) blast

text \<open>A restored state is one that the commands of the program reach, since the snapshot was taken of one.\<close>

lemma controller_state_reach: "controller_state s \<Longrightarrow> reach (\<lambda>_. True) program_step NewFSM s"
proof (induction rule: controller_state.induct)
  case (state_restored s s0 j err t)
  then show ?case using snapshot_restores [of s0 j s] by simp
qed (auto intro: reach.intros program_entry_step)

definition node_step :: "ClusterState \<Rightarrow> ClusterState \<Rightarrow> bool" where
  "node_step s t \<longleftrightarrow> program_step s t \<or> reach (\<lambda>_. True) program_step NewFSM t"

lemma entries_run_cluster: "entries_run D s t \<Longrightarrow> D \<subseteq> program_entries \<Longrightarrow> node_step\<^sup>*\<^sup>* s t"
proof (induction rule: entries_run.induct)
  case (run_step s s1 d ch resp s2)
  then have "node_step s1 s2" using program_entry_step by (auto simp: node_step_def)
  with run_step show ?case by auto
next
  case (run_restore s s1 s0 j err s2)
  then have "node_step s1 s2"
    using snapshot_restores [of s0 j s1] controller_state_reach [of s0] by (simp add: node_step_def)
  with run_restore show ?case by auto
qed simp

lemma node_step_reach:
  assumes "node_step\<^sup>*\<^sup>* NewFSM t"
  shows "reach (\<lambda>_. True) program_step NewFSM t"
  using assms by (induction rule: rtranclp_induct) (auto simp: node_step_def intro: reach.intros)

lemma Propose_cluster:
  assumes "replicates raft" "enc_Command op j = encode p" "valid_proposal p"
  shows "node_step\<^sup>*\<^sup>* (RN_FSM rn) (RN_FSM (snd (Propose raft op j rn)))"
proof -
  have "insert (Data (encode p)) program_entries = program_entries" using assms(3) by (auto simp: program_entries_def)
  then have "node_step\<^sup>*\<^sup>* s t" if "raft_Apply raft (Data (encode p)) r s = (res, r', t)" for r s res r' t
    using assms(1) that entries_run_cluster unfolding replicates_def by (metis order_refl)
  then show ?thesis
    by (auto simp: Propose_def assms(2) Let_def split: prod.split sum.split)
qed

text \<open>A handler leaves the node alone or ends with what \<open>Propose\<close> left.\<close>

lemma RegisterBroker_node:
  "snd (RegisterBroker raft req rn) = rn \<or>
   snd (RegisterBroker raft req rn) = snd (Propose raft CmdRegisterBroker (enc_RegisterBroker
     \<lparr>rb_ID = rbq_BrokerId req, rb_Host = rbq_Host req, rb_Port = rbq_DataPort req\<rparr>) rn)"
  by (auto simp: RegisterBroker_def Let_def split: option.split prod.split)

lemma Heartbeat_node:
  "snd (Heartbeat raft v req rn) = rn \<or>
   snd (Heartbeat raft v req rn) = snd (Propose raft CmdBrokerHeartbeat (enc_Heartbeat (heartbeat_payload req)) rn)"
  by (auto simp: Heartbeat_def Let_def split: option.split prod.split)

lemma CreateTopic_node:
  "snd (CreateTopic raft req rn) = rn \<or>
   snd (CreateTopic raft req rn) = snd (Propose raft CmdCreateTopic (enc_CreateTopic
     \<lparr>ct_Name = ctq_Topic req, ct_Partitions = ctq_Partitions req, ct_ReplicationFactor = ctq_ReplicationFactor req\<rparr>) rn)"
  by (auto simp: CreateTopic_def Let_def split: option.split prod.split)

lemma JoinGroup_node:
  assumes "valid_utf8 (jgq_GroupId req)" "valid_utf8 (jgq_MemberId req)" "\<forall>t \<in> set (jgq_Topics req). valid_utf8 t"
  shows "snd (JoinGroup raft rnd req rn) = rn \<or>
    (\<exists>p. valid_proposal (PJoinGroup p) \<and>
       snd (JoinGroup raft rnd req rn) = snd (Propose raft CmdJoinConsumerGroup (enc_JoinGroup p) rn))"
proof -
  let ?p = "\<lparr>jg_GroupID = jgq_GroupId req,
    jg_MemberID = (if jgq_MemberId req = [] then generateMemberID rnd else jgq_MemberId req), jg_Topics = jgq_Topics req\<rparr>"
  have "valid_proposal (PJoinGroup ?p)" using assms by (simp add: valid_generateMemberID)
  moreover have "snd (JoinGroup raft rnd req rn) = rn \<or>
      snd (JoinGroup raft rnd req rn) = snd (Propose raft CmdJoinConsumerGroup (enc_JoinGroup ?p) rn)"
    by (auto simp: JoinGroup_def Let_def split: option.split prod.split)
  ultimately show ?thesis by blast
qed

lemma commit_loop_cluster:
  assumes "replicates raft" "valid_utf8 g" "\<forall>off \<in> set offs. valid_utf8 (tpo_Topic off)"
  shows "node_step\<^sup>*\<^sup>* (RN_FSM rn) (RN_FSM (snd (commit_loop raft g offs rn)))"
  using assms(3)
proof (induction offs arbitrary: rn)
  case (Cons off offs)
  have "node_step\<^sup>*\<^sup>* (RN_FSM rn) (RN_FSM (snd (Propose raft CmdCommitOffset (enc_CommitOffset (commit_payload g off)) rn)))"
    by (rule Propose_cluster [OF assms(1), where p = "PCommitOffset (commit_payload g off)"])
      (use assms(2) Cons.prems in \<open>simp_all add: commit_payload_def\<close>)
  then show ?case using Cons by (fastforce split: prod.split option.split intro: rtranclp_trans)
qed simp

lemma serve_http_cluster:
  assumes "replicates raft"
  shows "node_step\<^sup>*\<^sup>* (RN_FSM rn) (RN_FSM (snd (serve_http raft fl path q rn)))"
proof -
  have "node_step\<^sup>*\<^sup>* s t" if "raft_AddVoter raft i a r s = (res, r', t)" for i a r s res r' t
    using assms that entries_run_cluster unfolding replicates_def by (metis order_refl)
  then have "node_step\<^sup>*\<^sup>* (RN_FSM rn) (RN_FSM (snd (Join raft i a rn)))" for i a
    by (auto simp: Join_def Let_def split: prod.split option.split)
  then show ?thesis
    by (auto simp: serve_http_def join_handler_def Let_def split: prod.split option.split) (metis snd_conv)+
qed

lemma service_step_simulates:
  assumes raft: "replicates raft" and step: "service_step raft fl s t"
  shows "node_step\<^sup>*\<^sup>* (RN_FSM (sv_RaftNode s)) (RN_FSM (sv_RaftNode t))"
  using step
proof (induction rule: service_step.induct)
  case (register req s resp rn)
  then show ?case
    using RegisterBroker_node [of raft req "sv_RaftNode s"] Propose_cluster [OF raft, where p = "PRegister _"] by fastforce
next
  case (heartbeat req v s resp rn)
  then show ?case
    using Heartbeat_node [of raft v req "sv_RaftNode s"]
      Propose_cluster [OF raft, where p = "PHeartbeat (heartbeat_payload req)"] by (fastforce simp: heartbeat_payload_def)
next
  case (create req s resp rn)
  then show ?case
    using CreateTopic_node [of raft req "sv_RaftNode s"] Propose_cluster [OF raft, where p = "PCreateTopic _"] by fastforce
next
  case (join_group req rnd s resp rn)
  then show ?case
    using JoinGroup_node [of req raft rnd "sv_RaftNode s"] Propose_cluster [OF raft, where p = "PJoinGroup _"] by fastforce
next
  case (heartbeat_group now req s resp rn)
  then show ?case by (auto simp: HeartbeatGroup_def Let_def split: option.splits if_splits)
next
  case (commit req s resp rn)
  then show ?case
    using commit_loop_cluster [OF raft commit(1,2), of "sv_RaftNode s"]
    by (cases "commit_loop raft (coq_GroupId req) (coq_Offsets req) (sv_RaftNode s)")
      (auto simp: CommitOffsets_def split: option.splits)
next
  case (tick s)
  have "encode PCleanInactive = enc_Command CmdCleanInactive JNull" by simp
  then show ?case using Propose_cluster [OF raft, where p = PCleanInactive] by (simp add: failure_tick_def)
next
  case (http path q s resp rn)
  then show ?case using serve_http_cluster [OF raft, of "sv_RaftNode s" fl path q] by simp
next
  case (replicate s t r)
  then show ?case by (simp add: entries_run_cluster)
qed

text \<open>Steps with any library that replicates; the interpretation gives runs.\<close>

definition served :: "flags \<Rightarrow> 'r Server \<Rightarrow> 'r Server \<Rightarrow> bool" where
  "served fl s t \<longleftrightarrow> (\<exists>raft. replicates raft \<and> service_step raft fl s t)"

interpretation service: forward_simulation "served fl" node_step "\<lambda>s. RN_FSM (sv_RaftNode s)"
  by unfold_locales (auto simp: served_def dest: service_step_simulates)

section \<open>Properties\<close>

text \<open>
  C3: a controller in service refines the cluster machine.  From the start of the process on, with or without a
  snapshot in its data directory, whatever gRPC and HTTP requests arrive, whenever the failure detector ticks,
  whatever entries other controllers propose and whatever snapshots they send, and whether calls of the Raft
  library succeed, fail or time out, the state of the node is one that the commands of the cluster reach from
  the empty state; so it is well-formed.  The library is assumed to change the FSM only by applying entries that
  controllers proposed and by restoring snapshots that controllers took.
\<close>

theorem controller_refines_cluster:
  assumes "replicates raft" "restores env" "controller_main env listen fl = Inr p"
    and "(service_step raft fl)\<^sup>*\<^sup>* (NewServer (pr_node p)) s"
  shows "reach (\<lambda>_. True) cluster_step NewFSM (RN_FSM (sv_RaftNode s)) \<and> wf_state (RN_FSM (sv_RaftNode s))"
proof -
  have "entries_run {} NewFSM (RN_FSM (pr_node p))"
    using assms(2) controller_main_starts(1) [OF assms(3)] unfolding restores_def by blast
  then have "node_step\<^sup>*\<^sup>* NewFSM (RN_FSM (sv_RaftNode (NewServer (pr_node p))))"
    using entries_run_cluster by (fastforce simp: NewServer_def)
  moreover have "(served fl)\<^sup>*\<^sup>* (NewServer (pr_node p)) s"
    using assms(4) by (rule rtranclp_mono [THEN predicate2D, rotated]) (use assms(1) in \<open>auto simp: served_def\<close>)
  note service.run_simulates [OF this]
  ultimately have "reach (\<lambda>_. True) program_step NewFSM (RN_FSM (sv_RaftNode s))"
    by (intro node_step_reach) simp
  then have "reach (\<lambda>_. True) cluster_step NewFSM (RN_FSM (sv_RaftNode s))"
    unfolding reach_closure by (rule rtranclp_mono [THEN predicate2D, rotated]) (auto intro: program_step_cluster)
  then show ?thesis using cluster_wf.reach_inv by blast
qed

section \<open>A run\<close>

text \<open>
  A node of its own starts and a broker registers; then it starts again with a data directory that holds a
  snapshot of that state.
\<close>

definition alone_env :: "(RaftState, unit) raft_env" where
  "alone_env = \<lparr>DefaultConfig = \<lparr>LocalID = [], HeartbeatTimeout = 0, ElectionTimeout = 0, LeaderLeaseTimeout = 0, CommitTimeout = 0\<rparr>,
     ResolveTCPAddr = Inr, NewTCPTransport = (\<lambda>_ _. Inr ()), LocalAddr = (\<lambda>_. ''127.0.0.1:7001''), MkdirAll = (\<lambda>_. None),
     NewFileSnapshotStore = (\<lambda>_ _. None), 
     NewRaft = (\<lambda>_ s store _. Inr (Follower, case store of DiscardSnapshotStore \<Rightarrow> s
       | FileSnapshotStore _ _ \<Rightarrow> snd (Restore (Inr (Data (enc_ClusterState demo_state1))) s))), BootstrapCluster = (\<lambda>_ _. Leader)\<rparr>"

definition alone_raft :: "RaftState raft_lib" where
  "alone_raft = local_raft (\<lambda>_ _. demo_choices [] no_visit)"

lemma local_raft_replicates: "replicates (local_raft ch)"
proof -
  have "entries_run (insert d program_entries) s t" if "raft_Apply (local_raft ch) d r s = (res, r', t)" for d r s res r' t
    using that run_step [OF run_refl [of "insert d program_entries" s], of d "ch s d" _ t] run_refl
    by (auto simp: local_raft_def applied_def split: if_splits sum.splits prod.splits)
  then show ?thesis by (auto simp: replicates_def local_raft_def run_refl)
qed

lemma snapshot_demo: "Snapshot demo_state1 = Inr (enc_ClusterState demo_state1)"
proof (rule storable_snapshot)
  have "reach (\<lambda>_. True) timely_step NewFSM demo_state1" using demo_timely_steps(1) by (blast intro: reach.intros)
  then show "storable json_time_ok demo_state1" by (rule snapshots.reach_inv)
qed

lemma valid_demo_register: "valid_proposal demo_register"
  by (simp add: demo_register_def)

lemma demo_controller_state: "controller_state demo_state1"
proof (rule state_entry [OF state_new])
  show "Data (encode demo_register) \<in> program_entries"
    unfolding program_entries_def using valid_demo_register by blast
  show "applied (demo_choices [] no_visit) (Data (encode demo_register)) NewFSM None demo_state1"
    using demo_step_choices(1) Apply_encode [of demo_register]
    by (simp add: applied_def demo_state1_def valid_demo_register)
qed

lemma alone_restores: "restores alone_env"
  unfolding restores_def
proof (intro allI impI)
  fix config s store t r s'
  assume new: "NewRaft alone_env config s store t = Inr (r, s')"
  show "entries_run {} s s'"
  proof (cases store)
    case (FileSnapshotStore dir n)
    obtain err where "Restore (Inr (Data (enc_ClusterState demo_state1))) s = (err, s')"
      using new FileSnapshotStore by (cases "Restore (Inr (Data (enc_ClusterState demo_state1))) s") (auto simp: alone_env_def)
    then show ?thesis by (rule run_restore [OF run_refl demo_controller_state snapshot_demo])
  qed (use new in \<open>auto simp: alone_env_def intro: run_refl\<close>)
qed

definition boot_flags :: flags where
  "boot_flags = default_flags\<lparr>fl_bootstrap := True\<rparr>"

definition boot_node :: "RaftState RaftNode" where
  "boot_node = \<lparr>RN_Raft = Leader, RN_FSM = NewFSM, RN_NodeID = fl_id boot_flags\<rparr>"

lemma alone_starts:
  "\<exists>p. controller_main alone_env (\<lambda>_. None) boot_flags = Inr p \<and> pr_node p = boot_node"
  "\<exists>p. controller_main alone_env (\<lambda>_. None) (boot_flags\<lparr>fl_data_dir := ''d''\<rparr>) = Inr p \<and>
     pr_node p = boot_node\<lparr>RN_FSM := demo_state1\<rparr>"
  by (simp_all add: controller_main_def NewRaftNode_def alone_env_def boot_flags_def boot_node_def
      snapshot_store_for_def default_flags_def 
      snapshot_restores [OF controller_state_reach [OF demo_controller_state] snapshot_demo] Let_def)

lemma valid_demo_host: "valid_utf8 ''h''"
  by code_simp

lemma register_runs:
  "RegisterBroker alone_raft \<lparr>rbq_BrokerId = 1, rbq_Host = ''h'', rbq_DataPort = 9091\<rparr> boot_node =
     (Inr \<lparr>rbr_Success = True, rbr_Message = ''Broker registered successfully''\<rparr>, boot_node\<lparr>RN_FSM := demo_state1\<rparr>)"
proof -
  have "choices_ok (demo_choices [] no_visit) NewFSM demo_state1"
    by (simp add: choices_ok_def demo_state1_eq NewFSM_def demo_choices_def no_visit_def range_ok_def visit_ok_def)
  then have "Propose alone_raft CmdRegisterBroker (enc_RegisterBroker \<lparr>rb_ID = 1, rb_Host = ''h'', rb_Port = 9091\<rparr>) boot_node =
      (None, boot_node\<lparr>RN_FSM := demo_state1\<rparr>)"
    using Propose_alone [OF local_raft_alone [of "\<lambda>_ _. demo_choices [] no_visit", folded alone_raft_def], of boot_node demo_register
        CmdRegisterBroker "enc_RegisterBroker \<lparr>rb_ID = 1, rb_Host = ''h'', rb_Port = 9091\<rparr>"]
    by (simp add: alone_raft_def local_raft_def boot_node_def demo_register_def demo_state1_def)
  then show ?thesis
    by (simp add: RegisterBroker_def checkLeader_def) (simp add: alone_raft_def local_raft_def boot_node_def)
qed

theorem controller_refines_cluster_witness:
  "(\<exists>s. (service_step alone_raft boot_flags)\<^sup>*\<^sup>* (NewServer boot_node) s \<and>
     Brokers (RN_FSM (sv_RaftNode s)) 1 \<noteq> None \<and> wf_state (RN_FSM (sv_RaftNode s))) \<and>
   (\<exists>p. controller_main alone_env (\<lambda>_. None) (boot_flags\<lparr>fl_data_dir := ''d''\<rparr>) = Inr p \<and>
     Brokers (RN_FSM (pr_node p)) 1 \<noteq> None \<and> wf_state (RN_FSM (pr_node p)))"
proof (rule conjI)
  let ?s = "(NewServer boot_node)\<lparr>sv_RaftNode := boot_node\<lparr>RN_FSM := demo_state1\<rparr>\<rparr>"
  note refines = controller_refines_cluster
    [OF local_raft_replicates [of "\<lambda>_ _. demo_choices [] no_visit", folded alone_raft_def] alone_restores]
  obtain p where p: "controller_main alone_env (\<lambda>_. None) boot_flags = Inr p" "pr_node p = boot_node"
    using alone_starts(1) by blast
  have "service_step alone_raft boot_flags (NewServer boot_node) ?s"
    by (rule register [where req = "\<lparr>rbq_BrokerId = 1, rbq_Host = ''h'', rbq_DataPort = 9091\<rparr>"])
      (simp_all add: NewServer_def register_runs valid_demo_host)
  then have run: "(service_step alone_raft boot_flags)\<^sup>*\<^sup>* (NewServer (pr_node p)) ?s" by (simp add: p(2))
  show "\<exists>s. (service_step alone_raft boot_flags)\<^sup>*\<^sup>* (NewServer boot_node) s \<and>
      Brokers (RN_FSM (sv_RaftNode s)) 1 \<noteq> None \<and> wf_state (RN_FSM (sv_RaftNode s))"
    using run p(2) refines [OF p(1) run] by (intro exI [of _ ?s]) (simp add: demo_state1_eq)
  obtain q where q: "controller_main alone_env (\<lambda>_. None) (boot_flags\<lparr>fl_data_dir := ''d''\<rparr>) = Inr q"
      "pr_node q = boot_node\<lparr>RN_FSM := demo_state1\<rparr>"
    using alone_starts(2) by blast
  show "\<exists>p. controller_main alone_env (\<lambda>_. None) (boot_flags\<lparr>fl_data_dir := ''d''\<rparr>) = Inr p \<and>
      Brokers (RN_FSM (pr_node p)) 1 \<noteq> None \<and> wf_state (RN_FSM (pr_node p))"
    using q refines [OF q(1) rtranclp.rtrancl_refl] by (intro exI [of _ q]) (simp add: demo_state1_eq NewServer_def)
qed

end
