(* ===== verification/Wire.thy ===== *)
theory Wire
  imports Prelude
begin

text \<open>
  The integers of the data-plane protocol: \<open>encoding/binary.BigEndian\<close> on the Go side and
  \<open>to_be_bytes\<close>/\<open>from_be_bytes\<close> on the Rust side.  \<open>be_codec\<close> is what the framing code relies
  on: a fixed width, and reading back what was written, wherever it stands in a buffer.
\<close>

section \<open>Big-endian integers\<close>

definition PutUint16 :: "u16 \<Rightarrow> byte list" where
  "PutUint16 v = [ucast (drop_bit 8 v), ucast v]"

definition PutUint32 :: "u32 \<Rightarrow> byte list" where
  "PutUint32 v = [ucast (drop_bit 24 v), ucast (drop_bit 16 v), ucast (drop_bit 8 v), ucast v]"

definition PutUint64 :: "u64 \<Rightarrow> byte list" where
  "PutUint64 v =
     [ucast (drop_bit 56 v), ucast (drop_bit 48 v), ucast (drop_bit 40 v), ucast (drop_bit 32 v),
      ucast (drop_bit 24 v), ucast (drop_bit 16 v), ucast (drop_bit 8 v), ucast v]"

definition Uint16 :: "byte list \<Rightarrow> u16" where
  "Uint16 b = or (ucast (b ! 1)) (push_bit 8 (ucast (b ! 0)))"

definition Uint32 :: "byte list \<Rightarrow> u32" where
  "Uint32 b = or (or (or (ucast (b ! 3)) (push_bit 8 (ucast (b ! 2))))
     (push_bit 16 (ucast (b ! 1)))) (push_bit 24 (ucast (b ! 0)))"

definition Uint64 :: "byte list \<Rightarrow> u64" where
  "Uint64 b =
     or (or (or (or (or (or (or (ucast (b ! 7)) (push_bit 8 (ucast (b ! 6))))
       (push_bit 16 (ucast (b ! 5)))) (push_bit 24 (ucast (b ! 4))))
       (push_bit 32 (ucast (b ! 3)))) (push_bit 40 (ucast (b ! 2))))
       (push_bit 48 (ucast (b ! 1)))) (push_bit 56 (ucast (b ! 0)))"

section \<open>The interface of the framing code\<close>

text \<open>\<open>body[lo..hi]\<close> of the sources.\<close>

definition slice :: "nat \<Rightarrow> nat \<Rightarrow> 'a list \<Rightarrow> 'a list" where
  "slice lo hi xs = take (hi - lo) (drop lo xs)"

lemma slice_append:
  "slice (length xs) (length xs + n) (xs @ ys) = take n ys"
  by (simp add: slice_def)

lemma slice_mid:
  "lo = length xs \<Longrightarrow> hi = length xs + length ys \<Longrightarrow> slice lo hi (xs @ ys @ zs) = ys"
  by (simp add: slice_def)

locale be_codec =
  fixes put :: "'a \<Rightarrow> byte list"
    and get :: "byte list \<Rightarrow> 'a"
    and width :: nat
  assumes length_put: "length (put v) = width"
    and get_put: "get (put v) = v"
begin

lemma put_inject: "put v = put w \<longleftrightarrow> v = w"
  by (metis get_put)

lemma get_slice_put: "lo = length xs \<Longrightarrow> hi = lo + width \<Longrightarrow> get (slice lo hi (xs @ put v @ ys)) = v"
  by (simp add: slice_mid length_put get_put)

end

text \<open>One byte of an integer, moved back to its place.\<close>

lemma bit_byte_of:
  "bit (push_bit k (ucast (ucast (drop_bit k v) :: byte)) :: 'a::len word) n \<longleftrightarrow>
     k \<le> n \<and> n < k + 8 \<and> bit (v :: 'a word) n"
  "bit (ucast (ucast v :: byte) :: 'a word) n \<longleftrightarrow> n < 8 \<and> bit v n"
  by (auto simp: bit_simps dest: bit_imp_le_length)

interpretation be16: be_codec PutUint16 Uint16 2
proof
  show "Uint16 (PutUint16 v) = v" for v
  proof (rule bit_word_eqI)
    fix n :: nat
    assume "n < LENGTH(16)"
    then show "bit (Uint16 (PutUint16 v)) n \<longleftrightarrow> bit v n"
      by (simp add: Uint16_def PutUint16_def bit_or_iff bit_byte_of) linarith
  qed
qed (simp add: PutUint16_def)

interpretation be32: be_codec PutUint32 Uint32 4
proof
  show "Uint32 (PutUint32 v) = v" for v
  proof (rule bit_word_eqI)
    fix n :: nat
    assume "n < LENGTH(32)"
    then show "bit (Uint32 (PutUint32 v)) n \<longleftrightarrow> bit v n"
      by (simp add: Uint32_def PutUint32_def bit_or_iff bit_byte_of numeral_2_eq_2 numeral_3_eq_3)
         linarith
  qed
qed (simp add: PutUint32_def)

interpretation be64: be_codec PutUint64 Uint64 8
proof
  show "Uint64 (PutUint64 v) = v" for v
  proof (rule bit_word_eqI)
    fix n :: nat
    assume "n < LENGTH(64)"
    then show "bit (Uint64 (PutUint64 v)) n \<longleftrightarrow> bit v n"
      by (simp add: Uint64_def PutUint64_def bit_or_iff bit_byte_of) linarith
  qed
qed (simp add: PutUint64_def)

lemmas be_lengths [simp] = be16.length_put be32.length_put be64.length_put
lemmas be_gets [simp] = be16.get_put be32.get_put be64.get_put

section \<open>Strings as bytes\<close>

definition bytes_of :: "string \<Rightarrow> byte list" where
  "bytes_of s = map of_char s"

definition string_of :: "byte list \<Rightarrow> string" where
  "string_of bs = map (\<lambda>b. char_of (unat b)) bs"

lemma length_bytes_of [simp]: "length (bytes_of s) = length s"
  by (simp add: bytes_of_def)

lemma bytes_of_eq_Nil [simp]: "bytes_of s = [] \<longleftrightarrow> s = []"
  by (simp add: bytes_of_def)

lemma string_of_bytes_of [simp]: "string_of (bytes_of s) = s"
proof -
  have "char_of (unat (of_char c :: byte)) = c" for c
  proof -
    have "(of_char c :: byte) = word_of_nat (of_char c)" by (metis of_nat_of_char)
    moreover have "(of_char c :: nat) < 256" by (rule nat_of_char_less_256)
    ultimately have "unat (of_char c :: byte) = of_char c"
      by (simp add: unsigned_of_nat take_bit_nat_eq_self)
    then show ?thesis by simp
  qed
  then show ?thesis by (simp add: string_of_def bytes_of_def comp_def)
qed

end
