(* ===== verification/Client.thy ===== *)
theory Client
  imports Pb Go_Lib Wire
begin

text \<open>
  The client's requests (\<open>client/main.go\<close>): the lookup of a partition's leader in the
  controller's metadata, and the data-plane requests \<open>sendProduce\<close> and \<open>sendFetch\<close> with the
  consumer loop above them.

  A connection is the record \<open>net\<close> of its two operations on a world of any type: \<open>Write\<close> and
  \<open>io.ReadFull\<close>.  The controller's two calls go through the generated gRPC stub, the record
  \<open>DiscoveryServiceClient\<close>; \<open>grpc\<close> stands for \<open>grpc.Dial\<close>.
\<close>

section \<open>The controller\<close>

record 'w DiscoveryServiceClient =
  dsc_CreateTopic :: "CreateTopicRequest \<Rightarrow> 'w \<Rightarrow> (error + CreateTopicResponse) \<times> 'w"
  dsc_GetMetadata :: "MetadataRequest \<Rightarrow> 'w \<Rightarrow> (error + MetadataResponse) \<times> 'w"

text \<open>\<open>log.Fatalf\<close> ends the process: an error of \<open>connectController\<close> is the outcome of the command.\<close>

definition connectController ::
  "(string \<Rightarrow> error + 'w DiscoveryServiceClient) \<Rightarrow> string \<Rightarrow> error + 'w DiscoveryServiceClient"
where
  "connectController grpc addr =
     (case grpc addr of
        Inl err \<Rightarrow> Inl (''Failed to connect to controller gRPC: '' @ err)
      | Inr client \<Rightarrow> Inr client)"

definition with_controller ::
  "(string \<Rightarrow> error + 'w DiscoveryServiceClient) \<Rightarrow> string \<Rightarrow> ('w DiscoveryServiceClient \<Rightarrow> 'w \<Rightarrow> (error + 'a) \<times> 'w) \<Rightarrow>
   'w \<Rightarrow> (error + 'a) \<times> 'w"
where
  "with_controller grpc addr k w =
     (case connectController grpc addr of Inl err \<Rightarrow> (Inl err, w) | Inr client \<Rightarrow> k client w)"

section \<open>Finding the leader\<close>

text \<open>The loops over topics and partitions; \<open>break\<close> leaves the inner one.\<close>

fun find_partition :: "u32 \<Rightarrow> PartitionMetadata list \<Rightarrow> u32 option \<Rightarrow> u32 option" where
  "find_partition part [] found = found"
| "find_partition part (p # ps) found =
     (if pm_PartitionId p = part then Some (pm_LeaderId p) else find_partition part ps found)"

fun find_leader :: "string \<Rightarrow> u32 \<Rightarrow> TopicMetadata list \<Rightarrow> u32 option \<Rightarrow> u32 option" where
  "find_leader topic part [] found = found"
| "find_leader topic part (t # ts) found =
     find_leader topic part ts
       (if tm_Topic t = topic then find_partition part (tm_Partitions t) found else found)"

fun find_broker :: "u32 \<Rightarrow> BrokerInfo list \<Rightarrow> error + string" where
  "find_broker leaderID [] = Inl ''leader broker info not found in metadata''"
| "find_broker leaderID (b # bs) =
     (if bi_BrokerId b = leaderID then Inr (bi_Host b @ '':'' @ show_i32 (bi_Port b))
      else find_broker leaderID bs)"

text \<open>The function after its call of \<open>connectController\<close>, which the callers make below.\<close>

definition getPartitionLeaderAddr ::
  "'w DiscoveryServiceClient \<Rightarrow> string \<Rightarrow> u32 \<Rightarrow> 'w \<Rightarrow> (error + string) \<times> 'w"
where
  "getPartitionLeaderAddr client topic part w =
     (case dsc_GetMetadata client \<lparr>mdq_Topics = [topic]\<rparr> w of
        (Inl err, w) \<Rightarrow> (Inl err, w)
      | (Inr resp, w) \<Rightarrow>
          (case find_leader topic part (mdr_Topics resp) None of
             None \<Rightarrow> (Inl ''topic/partition not found'', w)
           | Some leaderID \<Rightarrow> (find_broker leaderID (mdr_Brokers resp), w)))"

section \<open>Control commands\<close>

text \<open>The lines \<open>handleMetadata\<close> prints, and those of \<open>handleCreateTopic\<close>.\<close>

fun show_ids :: "u32 list \<Rightarrow> string" where
  "show_ids [] = []"
| "show_ids [r] = show_u32 r"
| "show_ids (r # rs) = show_u32 r @ '' '' @ show_ids rs"

definition branch_mark :: string where
  "branch_mark = map char_of [0xE2, 0x94, 0x94, 0xE2, 0x94, 0x80 :: nat]"

definition metadata_lines :: "MetadataResponse \<Rightarrow> string list" where
  "metadata_lines resp =
     [''--- Active Brokers ---''] @
     map (\<lambda>b. ''Broker ID: '' @ show_u32 (bi_BrokerId b) @ '' | Address: '' @ bi_Host b @ '':'' @
            show_i32 (bi_Port b)) (mdr_Brokers resp) @
     [[], ''--- Topics & Partitions ---''] @
     concat (map (\<lambda>t. (''Topic: '' @ tm_Topic t) #
       map (\<lambda>p. ''  '' @ branch_mark @ '' Partition '' @ show_u32 (pm_PartitionId p) @
              '' | Leader: '' @ show_u32 (pm_LeaderId p) @ '' | Replicas: ['' @
              show_ids (pm_ReplicaIds p) @ '']'')
         (tm_Partitions t)) (mdr_Topics resp))"

definition handleMetadata ::
  "(string \<Rightarrow> error + 'w DiscoveryServiceClient) \<Rightarrow> string \<Rightarrow> 'w \<Rightarrow> (error + string list) \<times> 'w"
where
  "handleMetadata grpc addr = with_controller grpc addr (\<lambda>client w.
     case dsc_GetMetadata client \<lparr>mdq_Topics = []\<rparr> w of
       (Inl err, w) \<Rightarrow> (Inl (''Failed to fetch metadata: '' @ err), w)
     | (Inr resp, w) \<Rightarrow> (Inr (metadata_lines resp), w))"

definition handleCreateTopic ::
  "(string \<Rightarrow> error + 'w DiscoveryServiceClient) \<Rightarrow> string \<Rightarrow> string \<Rightarrow> u32 \<Rightarrow> u32 \<Rightarrow> 'w \<Rightarrow> (error + string) \<times> 'w"
where
  "handleCreateTopic grpc addr topic partitions repFactor = with_controller grpc addr (\<lambda>client w.
     case dsc_CreateTopic client
       \<lparr>ctq_Topic = topic, ctq_Partitions = partitions, ctq_ReplicationFactor = repFactor\<rparr> w of
       (Inl err, w) \<Rightarrow> (Inl (''Failed to create topic: '' @ err), w)
     | (Inr resp, w) \<Rightarrow>
         (Inr (if ctr_Success resp then ctr_Message resp
               else ''Error creating topic: '' @ ctr_Message resp), w))"

section \<open>Data-plane requests\<close>

record 'w net =
  net_Write :: "byte list \<Rightarrow> 'w \<Rightarrow> error option \<times> 'w"
  net_ReadFull :: "nat \<Rightarrow> 'w \<Rightarrow> (error + byte list) \<times> 'w"

text \<open>Frames; the lengths are truncated to the width of their fields, as the conversions do.\<close>

definition frame_header :: "byte \<Rightarrow> nat \<Rightarrow> byte list" where
  "frame_header cmd bodyLen = [0xAE, 0x01, cmd] @ PutUint32 (word_of_nat bodyLen)"

definition produce_body :: "string \<Rightarrow> u32 \<Rightarrow> string \<Rightarrow> byte list" where
  "produce_body topic part message =
     PutUint16 (word_of_nat (length topic)) @ bytes_of topic @ PutUint32 part @
     PutUint32 (word_of_nat (length message)) @ bytes_of message"

definition fetch_body :: "string \<Rightarrow> u32 \<Rightarrow> u64 \<Rightarrow> byte list" where
  "fetch_body topic part startOffset =
     PutUint16 (word_of_nat (length topic)) @ bytes_of topic @ PutUint32 part @
     PutUint64 startOffset @ PutUint32 65536"

text \<open>Two writes, then \<open>k\<close>; the first error ends the request.\<close>

definition write_request ::
  "'w net \<Rightarrow> byte list \<Rightarrow> byte list \<Rightarrow> 'w \<Rightarrow> ('w \<Rightarrow> (error + 'a) \<times> 'w) \<Rightarrow> (error + 'a) \<times> 'w"
where
  "write_request net header body w k =
     (case net_Write net header w of
        (Some err, w1) \<Rightarrow> (Inl err, w1)
      | (None, w1) \<Rightarrow>
          (case net_Write net body w1 of
             (Some err, w2) \<Rightarrow> (Inl err, w2)
           | (None, w2) \<Rightarrow> k w2))"

definition broker_error :: "byte \<Rightarrow> error" where
  "broker_error status = ''broker error status: '' @ show_nat (unat status)"

definition sendProduce ::
  "'w net \<Rightarrow> string \<Rightarrow> u32 \<Rightarrow> string \<Rightarrow> 'w \<Rightarrow> (error + u64) \<times> 'w"
where
  "sendProduce net topic part message w =
     (let bodyLen = 2 + length topic + 4 + 4 + length message in
      write_request net (frame_header 1 bodyLen) (produce_body topic part message) w (\<lambda>w.
        case net_ReadFull net 11 w of
          (Inl err, w) \<Rightarrow> (Inl err, w)
        | (Inr respHeader, w) \<Rightarrow>
            if respHeader ! 0 \<noteq> 0xAE \<or> respHeader ! 1 \<noteq> 0x01 then (Inl ''invalid response magic'', w)
            else if respHeader ! 2 \<noteq> 0 then (Inl (broker_error (respHeader ! 2)), w)
            else (Inr (Uint64 (slice 3 11 respHeader)), w)))"

text \<open>\<open>None\<close> is the nil slice of the source: no data available.\<close>

definition read_fetch_response :: "'w net \<Rightarrow> 'w \<Rightarrow> (error + byte list option) \<times> 'w" where
  "read_fetch_response net w =
     (case net_ReadFull net 3 w of
        (Inl err, w) \<Rightarrow> (Inl err, w)
      | (Inr respHeader, w) \<Rightarrow>
          if respHeader ! 0 \<noteq> 0xAE \<or> respHeader ! 1 \<noteq> 0x01 then (Inl ''invalid response magic'', w)
          else
            let status = respHeader ! 2 in
            if status = 1 then (Inr None, w)
            else if status \<noteq> 2 then (Inl (broker_error status), w)
            else
              (case net_ReadFull net 4 w of
                 (Inl err, w) \<Rightarrow> (Inl err, w)
               | (Inr lenBuf, w) \<Rightarrow>
                   (case net_ReadFull net (unat (Uint32 lenBuf)) w of
                      (Inl err, w) \<Rightarrow> (Inl err, w)
                    | (Inr payload, w) \<Rightarrow> (Inr (Some payload), w))))"

definition sendFetch ::
  "'w net \<Rightarrow> string \<Rightarrow> u32 \<Rightarrow> u64 \<Rightarrow> 'w \<Rightarrow> (error + byte list option) \<times> 'w"
where
  "sendFetch net topic part startOffset w =
     (let bodyLen = 2 + length topic + 4 + 8 + 4 in
      write_request net (frame_header 2 bodyLen) (fetch_body topic part startOffset) w
        (read_fetch_response net))"

text \<open>
  \<open>handleProduce\<close> and \<open>handleConsume\<close>: \<open>dial\<close> opens the connection.  The consumer loop gets
  fuel, because with \<open>--follow\<close> it does not end; \<open>None\<close> means that the fuel ran out.
\<close>

definition leader_or_fatal ::
  "'w DiscoveryServiceClient \<Rightarrow> string \<Rightarrow> u32 \<Rightarrow> 'w \<Rightarrow> (error + string) \<times> 'w"
where
  "leader_or_fatal client topic part w =
     (case getPartitionLeaderAddr client topic part w of
        (Inl err, w) \<Rightarrow> (Inl (''Failed to find leader for partition: '' @ err), w)
      | (Inr brokerAddr, w) \<Rightarrow> (Inr brokerAddr, w))"

definition handleProduce ::
  "(string \<Rightarrow> error + 'w DiscoveryServiceClient) \<Rightarrow> string \<Rightarrow> (string \<Rightarrow> 'w \<Rightarrow> (error + 'w net) \<times> 'w) \<Rightarrow>
   string \<Rightarrow> u32 \<Rightarrow> string \<Rightarrow> 'w \<Rightarrow> (error + string) \<times> 'w"
where
  "handleProduce grpc controllerAddr dial topic part message w =
     (case with_controller grpc controllerAddr (\<lambda>client. leader_or_fatal client topic part) w of
        (Inl err, w) \<Rightarrow> (Inl err, w)
      | (Inr brokerAddr, w) \<Rightarrow>
          (case dial brokerAddr w of
             (Inl err, w) \<Rightarrow> (Inl (''Failed to connect to broker TCP data plane: '' @ err), w)
           | (Inr conn, w) \<Rightarrow>
               (case sendProduce conn topic part message w of
                  (Inl err, w) \<Rightarrow> (Inl (''Produce request failed: '' @ err), w)
                | (Inr off, w) \<Rightarrow>
                    (Inr (''Message published successfully! Assigned Offset: '' @ show_nat (unat off)), w))))"

fun consume_loop ::
  "nat \<Rightarrow> 'w net \<Rightarrow> string \<Rightarrow> u32 \<Rightarrow> u64 \<Rightarrow> bool \<Rightarrow> (u64 \<times> byte list) list \<Rightarrow> 'w \<Rightarrow>
   ((error + (u64 \<times> byte list) list) \<times> 'w) option"
where
  "consume_loop 0 net topic part currentOffset follow printed w = None"
| "consume_loop (Suc fuel) net topic part currentOffset follow printed w =
     (case sendFetch net topic part currentOffset w of
        (Inl err, w) \<Rightarrow> Some (Inl (''Fetch request failed: '' @ err), w)
      | (Inr (Some bs), w) \<Rightarrow>
          consume_loop fuel net topic part (currentOffset + 1) follow
            (printed @ [(currentOffset, bs)]) w
      | (Inr None, w) \<Rightarrow>
          if \<not> follow then Some (Inr printed, w)
          else consume_loop fuel net topic part currentOffset follow printed w)"

definition handleConsume ::
  "nat \<Rightarrow> (string \<Rightarrow> error + 'w DiscoveryServiceClient) \<Rightarrow> string \<Rightarrow> (string \<Rightarrow> 'w \<Rightarrow> (error + 'w net) \<times> 'w) \<Rightarrow>
   string \<Rightarrow> u32 \<Rightarrow> u64 \<Rightarrow> bool \<Rightarrow> 'w \<Rightarrow> ((error + (u64 \<times> byte list) list) \<times> 'w) option"
where
  "handleConsume fuel grpc controllerAddr dial topic part startOffset follow w =
     (case with_controller grpc controllerAddr (\<lambda>client. leader_or_fatal client topic part) w of
        (Inl err, w) \<Rightarrow> Some (Inl err, w)
      | (Inr brokerAddr, w) \<Rightarrow>
          (case dial brokerAddr w of
             (Inl err, w) \<Rightarrow> Some (Inl (''Failed to connect to broker TCP data plane: '' @ err), w)
           | (Inr conn, w) \<Rightarrow> consume_loop fuel conn topic part startOffset follow [] w))"

section \<open>Lookup\<close>

lemma find_partition_unique:
  assumes "p \<in> set ps" "distinct (map pm_PartitionId ps)" "pm_PartitionId p = part"
  shows "find_partition part ps found = Some (pm_LeaderId p)"
  using assms by (induction ps) force+

lemma find_leader_unique:
  assumes "distinct (map tm_Topic ts)" "distinct (map pm_PartitionId (tm_Partitions t))"
    and "t \<in> set ts" "tm_Topic t = topic" "p \<in> set (tm_Partitions t)" "pm_PartitionId p = part"
  shows "find_leader topic part ts found = Some (pm_LeaderId p)"
proof -
  have none: "find_leader topic part ts found = found" if "topic \<notin> set (map tm_Topic ts)" for ts found
    using that by (induction ts arbitrary: found) auto
  have find_t: "find_partition part (tm_Partitions t) found = Some (pm_LeaderId p)" for found
    using assms(5,2,6) by (rule find_partition_unique)
  show ?thesis
    using assms(1,3,4)
  proof (induction ts arbitrary: found)
    case (Cons u ts)
    show ?case
    proof (cases "u = t")
      case True
      with Cons.prems show ?thesis by (auto simp: find_t none)
    next
      case False
      with Cons show ?thesis by auto
    qed
  qed simp
qed

lemma find_broker_spec:
  assumes "b \<in> set bs" "distinct (map bi_BrokerId bs)" "bi_BrokerId b = l"
  shows "find_broker l bs = Inr (bi_Host b @ '':'' @ show_i32 (bi_Port b))"
  using assms by (induction bs) force+

section \<open>The consumer loop\<close>

text \<open>
  A connection that serves the messages \<open>msgs\<close> from offset \<open>off\<close> on and then reports that there
  is no data, in any world that satisfies \<open>I\<close>.
\<close>

definition serves ::
  "('w \<Rightarrow> bool) \<Rightarrow> 'w net \<Rightarrow> string \<Rightarrow> u32 \<Rightarrow> u64 \<Rightarrow> byte list list \<Rightarrow> bool"
where
  "serves I net topic part off msgs \<longleftrightarrow>
     (\<forall>w k. I w \<longrightarrow> k \<le> length msgs \<longrightarrow>
        (\<exists>w'. I w' \<and> sendFetch net topic part (off + word_of_nat k) w =
           (Inr (if k < length msgs then Some (msgs ! k) else None), w')))"

lemma consume_loop_serves:
  assumes "serves I net topic part off msgs" "I w" "length msgs < fuel"
  shows "\<exists>w'. I w' \<and> consume_loop fuel net topic part off False printed w =
    Some (Inr (printed @ map (\<lambda>k. (off + word_of_nat k, msgs ! k)) [0..<length msgs]), w')"
  using assms
proof (induction msgs arbitrary: off fuel printed w)
  case Nil
  then obtain f where f: "fuel = Suc f" by (cases fuel) auto
  obtain w' where "I w'" "sendFetch net topic part off w = (Inr None, w')"
    using Nil.prems(1) [unfolded serves_def, rule_format, OF Nil.prems(2), of 0] by auto
  then show ?case by (simp add: f)
next
  case (Cons m msgs)
  then obtain f where f: "fuel = Suc f" "length msgs < f" by (cases fuel) auto
  have step: "\<exists>w'. I w' \<and> sendFetch net topic part (off + word_of_nat k) w =
      (Inr (if k < length (m # msgs) then Some ((m # msgs) ! k) else None), w')"
    if "I w" "k \<le> length (m # msgs)" for w k
    using Cons.prems(1) that unfolding serves_def by blast
  from step [OF Cons.prems(2), of 0] obtain w1 where w1: "I w1"
    "sendFetch net topic part off w = (Inr (Some m), w1)" by (auto simp del: length_Cons)
  have "serves I net topic part (off + 1) msgs"
    unfolding serves_def
  proof (intro allI impI)
    fix w k
    assume "I w" "k \<le> length msgs"
    with step [of w "Suc k"] show "\<exists>w'. I w' \<and> sendFetch net topic part (off + 1 + word_of_nat k) w =
        (Inr (if k < length msgs then Some (msgs ! k) else None), w')"
      by (auto simp: add.assoc)
  qed
  from Cons.IH [OF this w1(1) f(2)] obtain w' where "I w'"
    and "consume_loop f net topic part (off + 1) False (printed @ [(off, m)]) w1 =
      Some (Inr ((printed @ [(off, m)]) @
        map (\<lambda>k. (off + 1 + word_of_nat k, msgs ! k)) [0..<length msgs]), w')" by blast
  moreover have "map (\<lambda>k. (off + word_of_nat k, (m # msgs) ! k)) [0..<length (m # msgs)] =
      (off, m) # map (\<lambda>k. (off + 1 + word_of_nat k, msgs ! k)) [0..<length msgs]"
    unfolding length_Cons map_upt_Suc by (simp add: add.assoc)
  ultimately show ?case
    using w1 by (simp add: f)
qed

section \<open>Properties\<close>

text \<open>
  C40: without \<open>--follow\<close> the consumer ends, and it prints exactly the messages the broker serves
  from the start offset on, in order, each under its offset; fuel beyond the number of messages is
  enough.
\<close>

theorem consume_prints_all:
  assumes "serves I net topic part off msgs" "I w" "length msgs < fuel"
  shows "\<exists>w'. I w' \<and> consume_loop fuel net topic part off False [] w =
    Some (Inr (map (\<lambda>k. (off + word_of_nat k, msgs ! k)) [0..<length msgs]), w')"
  using consume_loop_serves [OF assms, of "[]"] by simp

text \<open>
  A peer that holds one message of topic \<open>t\<close>: a world is the bytes it has yet to send.  A body of 19
  bytes is a fetch request, whose offset stands at position 7.
\<close>

definition one_message_reply :: "u64 \<Rightarrow> byte list" where
  "one_message_reply off =
     (if off = 0 then [0xAE, 0x01, 2] @ PutUint32 2 @ [104, 105] else [0xAE, 0x01, 1])"

definition one_message_net :: "byte list net" where
  "one_message_net = \<lparr>
     net_Write = (\<lambda>bs w. (None, if length bs = 19 then w @ one_message_reply (Uint64 (slice 7 15 bs)) else w)),
     net_ReadFull = (\<lambda>n w. if length w < n then (Inl ''unexpected EOF'', w) else (Inr (take n w), drop n w))\<rparr>"

lemma one_message_fetch:
  "sendFetch one_message_net ''t'' 0 off [] = (Inr (if off = 0 then Some [104, 105] else None), [])"
proof -
  have "length (fetch_body ''t'' 0 off) = 19" by (simp add: fetch_body_def)
  moreover have "slice 7 15 (fetch_body ''t'' 0 off) = PutUint64 off"
    by (simp add: fetch_body_def slice_def)
  ultimately show ?thesis
    by (simp add: sendFetch_def read_fetch_response_def write_request_def one_message_net_def one_message_reply_def
        frame_header_def)
qed

lemma one_message_serves: "serves (\<lambda>w. w = []) one_message_net ''t'' 0 0 [[104, 105]]"
  by (auto simp: serves_def one_message_fetch le_Suc_eq)

theorem consume_prints_all_witness:
  "consume_loop 2 one_message_net ''t'' 0 0 False [] [] = Some (Inr [(0, [104, 105])], [])"
  using consume_prints_all [OF one_message_serves, of "[]" 2] by simp

end
