(* ===== verification/Discovery.thy ===== *)
theory Discovery
  imports Grpc_Server Client
begin

text \<open>
  Discovery across the two programs: the metadata that the controller's \<open>GetMetadata\<close> handler builds
  from its state, read by the client's \<open>getPartitionLeaderAddr\<close>.
\<close>

section \<open>The controller's answer for one topic\<close>

definition topic_answer :: "visit \<Rightarrow> string \<Rightarrow> TopicState \<Rightarrow> TopicMetadata" where
  "topic_answer v n t = \<lparr>tm_Topic = n, tm_Partitions = map (\<lambda>(pID, p). to_PartitionMetadata pID p)
     (range_entries (v_parts v n) (Partitions t))\<rparr>"

abbreviation answer :: "u32 list \<Rightarrow> visit \<Rightarrow> string \<Rightarrow> 'r RaftNode \<Rightarrow> MetadataResponse" where
  "answer bks v t rn \<equiv> Server_GetMetadata bks v \<lparr>mdq_Topics = [t]\<rparr> rn"

lemma answer_topics:
  "mdr_Topics (answer bks v t rn) =
     map (\<lambda>(n, u). topic_answer v n u) (range_entries (v_topics v) (Topics (GetMetadata [t] (RN_FSM rn))))"
  by (simp add: Server_GetMetadata_def Let_def topic_answer_def)

lemma set_answer_topics:
  assumes "visit_ok v (GetMetadata [t] (RN_FSM rn))"
  shows "set (mdr_Topics (answer bks v t rn)) =
    {topic_answer v t u | u. Topics (GetMetadata [t] (RN_FSM rn)) t = Some u}"
proof -
  let ?meta = "GetMetadata [t] (RN_FSM rn)"
  have "range_ok (v_topics v) (Topics ?meta)" using assms by (simp add: visit_ok_def)
  then have "set (mdr_Topics (answer bks v t rn)) = {topic_answer v n u | n u. Topics ?meta n = Some u}"
    unfolding answer_topics by (force simp: range_entries_ok image_iff)
  moreover have "n = t" if "Topics ?meta n = Some u" for n u
    using that by (auto simp: Topics_GetMetadata split: if_splits)
  ultimately show ?thesis by blast
qed

lemma distinct_answer_topics:
  assumes "visit_ok v (GetMetadata [t] (RN_FSM rn))"
  shows "distinct (map tm_Topic (mdr_Topics (answer bks v t rn)))"
proof -
  have "map tm_Topic (mdr_Topics (answer bks v t rn)) =
      map fst (range_entries (v_topics v) (Topics (GetMetadata [t] (RN_FSM rn))))"
    by (simp add: answer_topics topic_answer_def comp_def case_prod_unfold)
  with assms show ?thesis by (auto simp: visit_ok_def distinct_range_entries)
qed

lemma topic_answer_partitions:
  assumes "range_ok (v_parts v n) (Partitions u)"
  shows "set (tm_Partitions (topic_answer v n u)) = {to_PartitionMetadata p q | p q. Partitions u p = Some q}"
    and "distinct (map pm_PartitionId (tm_Partitions (topic_answer v n u)))"
proof -
  show "set (tm_Partitions (topic_answer v n u)) = {to_PartitionMetadata p q | p q. Partitions u p = Some q}"
    using assms by (force simp: topic_answer_def range_entries_ok image_iff)
  have "map pm_PartitionId (tm_Partitions (topic_answer v n u)) = map fst (range_entries (v_parts v n) (Partitions u))"
    by (simp add: topic_answer_def comp_def case_prod_unfold to_PartitionMetadata_def)
  with assms show "distinct (map pm_PartitionId (tm_Partitions (topic_answer v n u)))"
    by (auto simp: distinct_range_entries)
qed

lemma answer_leader:
  assumes "visit_ok v (GetMetadata [t] (RN_FSM rn))"
  shows "find_leader t p (mdr_Topics (answer bks v t rn)) None = map_option LeaderID (partition_of (RN_FSM rn) t p)"
proof -
  let ?meta = "GetMetadata [t] (RN_FSM rn)"
  have meta: "partition_of ?meta t p = map_option copy_PartitionState (partition_of (RN_FSM rn) t p)"
    by (simp add: partition_of_GetMetadata)
  show ?thesis
  proof (cases "partition_of (RN_FSM rn) t p")
    case None
    have none: "find_partition p ps found = found" if "\<forall>x \<in> set ps. pm_PartitionId x \<noteq> p" for ps found
      using that by (induction ps) auto
    have "find_leader t p ts found = found"
      if "\<forall>tm \<in> set ts. \<forall>x \<in> set (tm_Partitions tm). pm_PartitionId x \<noteq> p" for ts found
      using that by (induction ts arbitrary: found) (auto simp: none)
    moreover have "pm_PartitionId x \<noteq> p"
      if "tm \<in> set (mdr_Topics (answer bks v t rn))" "x \<in> set (tm_Partitions tm)" for tm x
    proof -
      from that(1) obtain u where u: "Topics ?meta t = Some u" "tm = topic_answer v t u"
        by (auto simp: set_answer_topics [OF assms])
      have "range_ok (v_parts v t) (Partitions u)" using assms u(1) by (simp add: visit_ok_def)
      with that(2) u obtain p' q where "x = to_PartitionMetadata p' q" "Partitions u p' = Some q"
        by (auto simp: topic_answer_partitions)
      with None meta u(1) show ?thesis by (auto simp: to_PartitionMetadata_def partition_of_def)
    qed
    ultimately show ?thesis using None by simp
  next
    case (Some q)
    with meta obtain u where u: "Topics ?meta t = Some u" "Partitions u p = Some (copy_PartitionState q)"
      by (auto simp: partition_of_def split: option.splits)
    then have range: "range_ok (v_parts v t) (Partitions u)" using assms by (simp add: visit_ok_def)
    have "find_leader t p (mdr_Topics (answer bks v t rn)) None =
        Some (pm_LeaderId (to_PartitionMetadata p (copy_PartitionState q)))"
    proof (rule find_leader_unique [OF distinct_answer_topics [OF assms] topic_answer_partitions(2) [OF range]])
      show "topic_answer v t u \<in> set (mdr_Topics (answer bks v t rn))"
        using u(1) by (auto simp: set_answer_topics [OF assms])
      show "to_PartitionMetadata p (copy_PartitionState q) \<in> set (tm_Partitions (topic_answer v t u))"
        using u(2) by (auto simp: topic_answer_partitions(1) [OF range])
    qed (simp_all add: topic_answer_def to_PartitionMetadata_def)
    with Some show ?thesis by (simp add: to_PartitionMetadata_def)
  qed
qed

section \<open>The broker's address\<close>

definition broker_infos :: "(u32 \<times> BrokerStatus) list \<Rightarrow> BrokerInfo list" where
  "broker_infos es = map (\<lambda>(_, b). \<lparr>bi_BrokerId = ID b, bi_Host = Host b, bi_Port = Port b\<rparr>)
     (filter (\<lambda>(_, b). Active b) es)"

definition broker_address :: "BrokerStatus option \<Rightarrow> error + string" where
  "broker_address bo =
     (case bo of
        Some b \<Rightarrow> if Active b then Inr (Host b @ '':'' @ show_i32 (Port b))
                  else Inl ''leader broker info not found in metadata''
      | None \<Rightarrow> Inl ''leader broker info not found in metadata'')"

lemma find_broker_infos:
  assumes "\<forall>(k, b) \<in> set es. ID b = k" "distinct (map fst es)"
  shows "find_broker l (broker_infos es) = broker_address (map_of es l)"
  using assms
proof (induction es)
  case (Cons e es)
  obtain k b where e: "e = (k, b)" by (cases e) auto
  have "map_of es k = None" using Cons.prems(2) by (simp add: e map_of_eq_None_iff)
  with Cons show ?case by (auto simp: e broker_infos_def broker_address_def split: option.splits)
qed (simp add: broker_infos_def broker_address_def)

lemma map_of_range_entries:
  assumes "range_ok ks m"
  shows "map_of (range_entries ks m) k = m k"
proof (cases "m k")
  case None
  then show ?thesis using assms by (auto simp: map_of_eq_None_iff range_entries_dom)
next
  case (Some v)
  with assms have "(k, v) \<in> set (range_entries ks m)" by (simp add: range_entries_ok)
  with assms Some show ?thesis by (auto simp: distinct_range_entries)
qed

lemma answer_brokers:
  assumes "range_ok bks (Brokers (RN_FSM rn))" "broker_ids_ok (RN_FSM rn)"
  shows "find_broker l (mdr_Brokers (answer bks v t rn)) = broker_address (Brokers (RN_FSM rn) l)"
proof -
  let ?es = "range_entries bks (Brokers (RN_FSM rn))"
  have "mdr_Brokers (answer bks v t rn) = broker_infos ?es"
    by (simp add: Server_GetMetadata_def Let_def broker_infos_def)
  moreover have "find_broker l (broker_infos ?es) = broker_address (map_of ?es l)"
    using assms
    by (intro find_broker_infos) (auto simp: range_entries_ok broker_ids_ok_def distinct_range_entries)
  ultimately show ?thesis using assms(1) by (simp add: map_of_range_entries)
qed

section \<open>The stub\<close>

text \<open>
  The client's stub connected to the handlers of a controller; the world is its Raft node.  \<open>ranges\<close> is the
  order in which a metadata request ranges over the maps, \<open>status_text\<close> the text of a status error.
\<close>

definition controller_client ::
  "'r raft_lib \<Rightarrow> (code \<times> string \<Rightarrow> error) \<Rightarrow> (MetadataRequest \<Rightarrow> 'r RaftNode \<Rightarrow> u32 list \<times> visit) \<Rightarrow>
   'r RaftNode DiscoveryServiceClient"
where
  "controller_client raft status_text ranges = \<lparr>
     dsc_CreateTopic = (\<lambda>req rn.
       case CreateTopic raft req rn of (Inl st, rn) \<Rightarrow> (Inl (status_text st), rn) | (Inr resp, rn) \<Rightarrow> (Inr resp, rn)),
     dsc_GetMetadata = (\<lambda>req rn. (Inr (Server_GetMetadata (fst (ranges req rn)) (snd (ranges req rn)) req rn), rn))\<rparr>"

definition ranges_ok :: "(MetadataRequest \<Rightarrow> 'r RaftNode \<Rightarrow> u32 list \<times> visit) \<Rightarrow> string list \<Rightarrow> 'r RaftNode \<Rightarrow> bool" where
  "ranges_ok ranges ts rn \<longleftrightarrow>
     range_ok (fst (ranges \<lparr>mdq_Topics = ts\<rparr> rn)) (Brokers (RN_FSM rn)) \<and>
     visit_ok (snd (ranges \<lparr>mdq_Topics = ts\<rparr> rn)) (GetMetadata ts (RN_FSM rn))"

definition leader_address :: "ClusterState \<Rightarrow> string \<Rightarrow> u32 \<Rightarrow> error + string" where
  "leader_address s t p =
     (case partition_of s t p of
        None \<Rightarrow> Inl ''topic/partition not found''
      | Some q \<Rightarrow>
          (case Brokers s (LeaderID q) of
             Some b \<Rightarrow> if Active b then Inr (Host b @ '':'' @ show_i32 (Port b))
                       else Inl ''leader broker info not found in metadata''
           | None \<Rightarrow> Inl ''leader broker info not found in metadata''))"

lemma getPartitionLeaderAddr_controller:
  assumes "broker_ids_ok (RN_FSM rn)" "ranges_ok ranges [t] rn"
  shows "getPartitionLeaderAddr (controller_client raft status_text ranges) t p rn = (leader_address (RN_FSM rn) t p, rn)"
proof -
  obtain bks v where bv: "ranges \<lparr>mdq_Topics = [t]\<rparr> rn = (bks, v)" by fastforce
  then have "range_ok bks (Brokers (RN_FSM rn))" "visit_ok v (GetMetadata [t] (RN_FSM rn))"
    using assms(2) by (simp_all add: ranges_ok_def)
  from answer_leader [OF this(2), of p bks] answer_brokers [OF this(1) assms(1), of _ v t] bv show ?thesis
    by (simp add: getPartitionLeaderAddr_def controller_client_def broker_address_def leader_address_def split: option.split)
qed

section \<open>Properties\<close>

text \<open>
  C21: the client finds the leader.  Asked for a partition, \<open>getPartitionLeaderAddr\<close> on the
  answer of the controller returns the address under which the partition's leader registered,
  if that broker is active; it reports an unknown topic or partition, and a leader that is not
  active, as errors.  The controller is left as it was.
\<close>

theorem client_finds_leader:
  assumes "broker_ids_ok (RN_FSM rn)" "ranges_ok ranges [t] rn"
  shows "getPartitionLeaderAddr (controller_client raft status_text ranges) t p rn =
    (case partition_of (RN_FSM rn) t p of
       None \<Rightarrow> Inl ''topic/partition not found''
     | Some q \<Rightarrow>
         (case Brokers (RN_FSM rn) (LeaderID q) of
            Some b \<Rightarrow> if Active b then Inr (Host b @ '':'' @ show_i32 (Port b))
                      else Inl ''leader broker info not found in metadata''
          | None \<Rightarrow> Inl ''leader broker info not found in metadata''), rn)"
  unfolding getPartitionLeaderAddr_controller [OF assms] leader_address_def ..

definition demo_ranges :: "MetadataRequest \<Rightarrow> RaftState RaftNode \<Rightarrow> u32 list \<times> visit" where
  "demo_ranges req rn = ([1], demo_visit)"

lemma demo_ranges_ok: "broker_ids_ok (RN_FSM demo_node)" "ranges_ok demo_ranges [''t''] demo_node"
proof -
  show "broker_ids_ok (RN_FSM demo_node)"
    by (simp add: demo_node_def broker_ids_ok_def demo_state2_def demo_create_def demo_state1_eq)
  have "shape (GetMetadata [''t''] demo_state2) = shape demo_state2"
  proof
    fix n
    show "shape (GetMetadata [''t''] demo_state2) n = shape demo_state2 n"
      using fun_cong [OF demo_shape, of n]
      by (auto simp: shape_def Topics_GetMetadata copy_TopicState_def copy_map_def dom_def split: if_splits)
  qed
  then have "visit_ok demo_visit (GetMetadata [''t''] demo_state2)"
    using demo_base_ok(2) by (simp add: visit_ok_shape)
  then show "ranges_ok demo_ranges [''t''] demo_node"
    using demo_base_ok(1) by (simp add: ranges_ok_def demo_ranges_def demo_node_def)
qed

lemma demo_leader_address: "leader_address (RN_FSM demo_node) ''t'' 0 = Inr (''h:'' @ show_i32 9091)"
proof -
  obtain q where q: "partition_of demo_state2 ''t'' 0 = Some q" "LeaderID q = 1" by (rule demo_partition)
  moreover have "Brokers demo_state2 = [1 \<mapsto> \<lparr>ID = 1, Host = ''h'', Port = 9091, LastSeen = 0, Active = True\<rparr>]"
    by (simp add: demo_state2_def demo_create_def demo_state1_eq)
  ultimately show ?thesis by (simp add: leader_address_def demo_node_def)
qed

theorem client_finds_leader_witness:
  "getPartitionLeaderAddr (controller_client demo_raft snd demo_ranges) ''t'' 0 demo_node =
     (Inr (''h:'' @ show_i32 9091), demo_node)"
  using client_finds_leader [OF demo_ranges_ok, of demo_raft snd 0] demo_leader_address
  by (simp add: leader_address_def)

end
