(* ===== verification/Binary_Search.thy ===== *)
theory Binary_Search
  imports Main
begin

text \<open>
  The binary searches of the broker's log (\<open>rust-broker/src/log/manager.rs\<close>): the last segment
  that starts at or before an offset, and the first index entry at or after one.  Both loops
  keep the indices unsigned, so they leave the loop when the lower half would end below 0.

  \<open>boundary\<close> says that a test holds exactly below a position; it is what sortedness gives the
  searches, and the results are stated with it.
\<close>

section \<open>The loops\<close>

text \<open>
  \<open>P\<close> is the test on the middle element, \<open>f\<close> what the loop remembers of it.
\<close>

function search_last :: "(nat \<Rightarrow> bool) \<Rightarrow> (nat \<Rightarrow> 'a) \<Rightarrow> nat \<Rightarrow> nat \<Rightarrow> 'a option \<Rightarrow> 'a option" where
  "search_last P f low high found =
     (if low \<le> high then
        let mid = low + (high - low) div 2 in
        if P mid then search_last P f (mid + 1) high (Some (f mid))
        else if mid = 0 then found
        else search_last P f low (mid - 1) found
      else found)"
  by pat_completeness auto
termination
  by (relation "measure (\<lambda>(P, f, low, high, found). Suc high - low)") auto

function search_first :: "(nat \<Rightarrow> bool) \<Rightarrow> nat \<Rightarrow> nat \<Rightarrow> nat option \<Rightarrow> nat option" where
  "search_first P low high found =
     (if low \<le> high then
        let mid = low + (high - low) div 2 in
        if P mid then (if mid = 0 then Some mid else search_first P low (mid - 1) (Some mid))
        else search_first P (mid + 1) high found
      else found)"
  by pat_completeness auto
termination
  by (relation "measure (\<lambda>(P, low, high, found). Suc high - low)") auto

declare search_last.simps [simp del] search_first.simps [simp del]

section \<open>What they find\<close>

definition boundary :: "(nat \<Rightarrow> bool) \<Rightarrow> nat \<Rightarrow> nat \<Rightarrow> bool" where
  "boundary P n b \<longleftrightarrow> b \<le> n \<and> (\<forall>i < n. P i \<longleftrightarrow> i < b)"

lemma search_last_boundary:
  assumes "boundary P n b" "low \<le> b" "b \<le> Suc high" "high < n"
    and "found = (if low = 0 then None else Some (f (low - 1)))"
  shows "search_last P f low high found = (if b = 0 then None else Some (f (b - 1)))"
  using assms
proof (induction P f low high found rule: search_last.induct)
  case (1 P f low high found)
  define mid where "mid = low + (high - low) div 2"
  show ?case
  proof (cases "low \<le> high")
    case False
    then have "low = b" using 1(4,5) by linarith
    with 1(7) False show ?thesis by (subst search_last.simps) simp
  next
    case True
    then have step: "search_last P f low high found =
        (if P mid then search_last P f (mid + 1) high (Some (f mid))
         else if mid = 0 then found else search_last P f low (mid - 1) found)"
      unfolding mid_def by (subst search_last.simps) (simp only: Let_def if_True)
    have mid: "low \<le> mid" "mid \<le> high" using True by (auto simp: mid_def)
    then have P: "P mid \<longleftrightarrow> mid < b" using 1(3,6) by (simp add: boundary_def)
    consider "P mid" | "\<not> P mid" "mid = 0" | "\<not> P mid" "mid \<noteq> 0" by blast
    then show ?thesis
    proof cases
      case 1
      have "search_last P f (mid + 1) high (Some (f mid)) = (if b = 0 then None else Some (f (b - 1)))"
        by (rule "1.IH"(1) [OF True mid_def 1]) (use "1.prems" P 1 in auto)
      with 1 show ?thesis unfolding step by simp
    next
      case 2
      with P mid(1) have "low = 0" "b = 0" by auto
      with 2 "1.prems"(5) show ?thesis unfolding step by simp
    next
      case 3
      have "search_last P f low (mid - 1) found = (if b = 0 then None else Some (f (b - 1)))"
        by (rule "1.IH"(2) [OF True mid_def 3]) (use "1.prems" P 3 mid in auto)
      with 3 show ?thesis unfolding step by simp
    qed
  qed
qed

lemma search_first_boundary:
  assumes "boundary (\<lambda>i. \<not> P i) n b" "low \<le> b" "b \<le> Suc high" "high < n"
    and "found = (if Suc high = n then None else Some (Suc high))"
  shows "search_first P low high found = (if b = n then None else Some b)"
  using assms
proof (induction P low high found rule: search_first.induct)
  case (1 P low high found)
  define mid where "mid = low + (high - low) div 2"
  show ?case
  proof (cases "low \<le> high")
    case False
    then have "b = Suc high" using 1(4,5) by linarith
    with 1(7) False show ?thesis by (subst search_first.simps) auto
  next
    case True
    then have step: "search_first P low high found =
        (if P mid then (if mid = 0 then Some mid else search_first P low (mid - 1) (Some mid))
         else search_first P (mid + 1) high found)"
      unfolding mid_def by (subst search_first.simps) (simp only: Let_def if_True)
    have mid: "low \<le> mid" "mid \<le> high" using True by (auto simp: mid_def)
    then have "mid < n" using 1(6) by linarith
    then have P: "P mid \<longleftrightarrow> b \<le> mid" using 1(3) unfolding boundary_def by (meson not_less)
    consider "\<not> P mid" | "P mid" "mid = 0" | "P mid" "mid \<noteq> 0" by blast
    then show ?thesis
    proof cases
      case 1
      have "search_first P (mid + 1) high found = (if b = n then None else Some b)"
        by (rule "1.IH"(2) [OF True mid_def 1]) (use "1.prems" P 1 in auto)
      with 1 show ?thesis unfolding step by simp
    next
      case 2
      with P "1.prems"(4) show ?thesis unfolding step by simp
    next
      case 3
      have "search_first P low (mid - 1) (Some mid) = (if b = n then None else Some b)"
        by (rule "1.IH"(1) [OF True mid_def 3]) (use "1.prems" P 3 mid in auto)
      with 3 show ?thesis unfolding step by simp
    qed
  qed
qed

text \<open>The calls of the source start with the whole range of a non-empty sequence.\<close>

lemma search_last_all:
  assumes "boundary P n b" "0 < n"
  shows "search_last P f 0 (n - 1) None = (if b = 0 then None else Some (f (b - 1)))"
  using assms by (intro search_last_boundary [where n = n]) (auto simp: boundary_def)

lemma search_first_all:
  assumes "boundary (\<lambda>i. \<not> P i) n b" "0 < n"
  shows "search_first P 0 (n - 1) None = (if b = n then None else Some b)"
  using assms by (intro search_first_boundary [where n = n]) (auto simp: boundary_def)

end
