(* ===== verification/Partition_Log.thy ===== *)
theory Partition_Log
  imports Wire Binary_Search
begin

text \<open>
  The broker's partition log (\<open>rust-broker/src/log/manager.rs\<close>): segments with an index file each,
  roll-over into cold storage, retention, reading by offset, and the high watermark.

  The directory of a partition and its cold-storage directory are maps from base offsets to pairs of
  files; the path of a segment is determined by its base offset.  The active file handles are
  those of the last segment, which no operation deletes as long as no segment is listed twice (\<open>Torn_Segments\<close>).
  Lengths of files stay below \<open>2^64\<close>; the
  integers written to the index are 64-bit words.  \<open>sf_mtime\<close> is when the log file was last
  modified, which writing no bytes does not change.  A file that does not
  exist cannot be opened; other errors of the operating system are in \<open>Io_Errors\<close>.
\<close>

section \<open>State\<close>

record seg_file =
  sf_log :: "byte list"
  sf_index :: "byte list option"
  sf_mtime :: int

text \<open>The bytes of the index file; none if there is no such file.\<close>

definition sf_idx :: "seg_file \<Rightarrow> byte list" where
  "sf_idx f = (case sf_index f of None \<Rightarrow> [] | Some idx \<Rightarrow> idx)"

record PartitionLog =
  segments :: "u64 list"
  local_dir :: "u64 \<rightharpoonup> seg_file"
  cold_dir :: "u64 \<rightharpoonup> seg_file"
  next_offset :: u64
  max_segment_size :: u64
  broker_id :: u32
  max_retention_size :: "u64 option"
  max_retention_age :: "int option"
  high_watermark :: u64
  replica_offsets :: "u32 \<rightharpoonup> u64"
  replica_ids :: "u32 list"

definition empty_file :: "int \<Rightarrow> seg_file" where
  "empty_file now = \<lparr>sf_log = [], sf_index = Some [], sf_mtime = now\<rparr>"

text \<open>Opening the two files with \<open>create(true)\<close> keeps a file that exists.\<close>

definition open_create :: "int \<Rightarrow> u64 \<Rightarrow> (u64 \<rightharpoonup> seg_file) \<Rightarrow> seg_file" where
  "open_create now base d = (case d base of Some f \<Rightarrow> f\<lparr>sf_index := Some (sf_idx f)\<rparr> | None \<Rightarrow> empty_file now)"

definition active_file :: "PartitionLog \<Rightarrow> seg_file" where
  "active_file l = open_create 0 (last (segments l)) (local_dir l)"

section \<open>High watermark\<close>

fun min_replica :: "(u32 \<rightharpoonup> u64) \<Rightarrow> u32 list \<Rightarrow> u64 \<Rightarrow> u64" where
  "min_replica ro [] min_offset = min_offset"
| "min_replica ro (rep_id # rs) min_offset =
     (let rep_offset = (case ro rep_id of Some v \<Rightarrow> v | None \<Rightarrow> 0) in
      min_replica ro rs (if rep_offset < min_offset then rep_offset else min_offset))"

definition recompute_high_watermark :: "PartitionLog \<Rightarrow> PartitionLog" where
  "recompute_high_watermark l =
     (let other_replicas = filter (\<lambda>id. id \<noteq> broker_id l) (replica_ids l) in
      if other_replicas = [] then l\<lparr>high_watermark := next_offset l\<rparr>
      else l\<lparr>high_watermark := min_replica (replica_offsets l) other_replicas (next_offset l)\<rparr>)"

definition update_follower_offset :: "u32 \<Rightarrow> u64 \<Rightarrow> PartitionLog \<Rightarrow> PartitionLog" where
  "update_follower_offset replica_id off l =
     recompute_high_watermark (l\<lparr>replica_offsets := (replica_offsets l)(replica_id \<mapsto> off)\<rparr>)"

section \<open>Appending\<close>

definition roll_over :: "int \<Rightarrow> PartitionLog \<Rightarrow> PartitionLog" where
  "roll_over now l =
     (let old = last (segments l);
          new_base_offset = next_offset l
      in l\<lparr>cold_dir := (cold_dir l)(old \<mapsto> (active_file l)\<lparr>sf_mtime := now\<rparr>),
           local_dir := (local_dir l)(new_base_offset \<mapsto> open_create now new_base_offset (local_dir l)),
           segments := segments l @ [new_base_offset]\<rparr>)"

definition file_size :: "(u64 \<rightharpoonup> seg_file) \<Rightarrow> u64 \<Rightarrow> nat" where
  "file_size d b = (case d b of None \<Rightarrow> 0 | Some f \<Rightarrow> length (sf_log f) + length (sf_idx f))"

text \<open>The two retention loops; they never remove the last segment.\<close>

fun retention_size_loop ::
  "nat \<Rightarrow> u64 list \<Rightarrow> (u64 \<rightharpoonup> seg_file) \<Rightarrow> u64 list \<times> (u64 \<rightharpoonup> seg_file)"
where
  "retention_size_loop max_size (oldest # seg # segs) d =
     (if sum_list (map (file_size d) (oldest # seg # segs)) \<le> max_size then (oldest # seg # segs, d)
      else retention_size_loop max_size (seg # segs) (d(oldest := None)))"
| "retention_size_loop max_size segs d = (segs, d)"

fun retention_age_loop ::
  "int \<Rightarrow> int \<Rightarrow> u64 list \<Rightarrow> (u64 \<rightharpoonup> seg_file) \<Rightarrow> u64 list \<times> (u64 \<rightharpoonup> seg_file)"
where
  "retention_age_loop now max_age (oldest # seg # segs) d =
     (if (case d oldest of Some f \<Rightarrow> sf_mtime f \<le> now \<and> now - sf_mtime f > max_age | None \<Rightarrow> False)
      then retention_age_loop now max_age (seg # segs) (d(oldest := None))
      else (oldest # seg # segs, d))"
| "retention_age_loop now max_age segs d = (segs, d)"

definition set_local :: "u64 list \<times> (u64 \<rightharpoonup> seg_file) \<Rightarrow> PartitionLog \<Rightarrow> PartitionLog" where
  "set_local sd l = l\<lparr>segments := fst sd, local_dir := snd sd\<rparr>"

definition clean_retention :: "int \<Rightarrow> PartitionLog \<Rightarrow> PartitionLog" where
  "clean_retention now l =
     (let l1 = (case max_retention_size l of
                  None \<Rightarrow> l
                | Some max_size \<Rightarrow>
                    set_local (retention_size_loop (unat max_size) (segments l) (local_dir l)) l)
      in case max_retention_age l1 of
           None \<Rightarrow> l1
         | Some max_age \<Rightarrow>
             set_local (retention_age_loop now max_age (segments l1) (local_dir l1)) l1)"

definition write_record :: "int \<Rightarrow> byte list \<Rightarrow> PartitionLog \<Rightarrow> PartitionLog" where
  "write_record now data l =
     (let f = active_file l;
          pos = length (sf_log f)
      in l\<lparr>local_dir := (local_dir l)(last (segments l) \<mapsto>
             \<lparr>sf_log = sf_log f @ data,
              sf_index = Some (sf_idx f @ PutUint64 (next_offset l) @ PutUint64 (word_of_nat pos)),
              sf_mtime = (if data = [] then sf_mtime f else now)\<rparr>),
           next_offset := next_offset l + 1\<rparr>)"

definition append_log :: "int \<Rightarrow> byte list \<Rightarrow> PartitionLog \<Rightarrow> u64 \<times> PartitionLog" where
  "append_log now data l =
     (let cur_len = length (sf_log (active_file l));
          l1 = (if cur_len + length data > unat (max_segment_size l) \<and> cur_len > 0
                then roll_over now l else l);
          off = next_offset l1
      in (off, recompute_high_watermark (clean_retention now (write_record now data l1))))"

section \<open>Reading\<close>

datatype tier = Local | Cold

definition base_offsets :: "(u64 \<rightharpoonup> seg_file) \<Rightarrow> u64 list" where
  "base_offsets d = sorted_list_of_set (dom d)"

definition find_cold_segment :: "u64 \<Rightarrow> PartitionLog \<Rightarrow> u64 option" where
  "find_cold_segment start_offset l =
     (let bases = base_offsets (cold_dir l) in
      if bases = [] then None
      else search_last (\<lambda>mid. bases ! mid \<le> start_offset) (\<lambda>mid. bases ! mid) 0 (length bases - 1) None)"

definition find_segment :: "u64 \<Rightarrow> PartitionLog \<Rightarrow> (tier \<times> u64) option" where
  "find_segment start_offset l =
     (let segs = segments l;
          seg = (if segs \<noteq> [] \<and> start_offset \<ge> segs ! 0
                 then search_last (\<lambda>mid. segs ! mid \<le> start_offset) (\<lambda>mid. segs ! mid) 0 (length segs - 1) None
                 else None)
      in case seg of
           Some b \<Rightarrow> Some (Local, b)
         | None \<Rightarrow> map_option (Pair Cold) (find_cold_segment start_offset l))"

definition segment_file :: "tier \<times> u64 \<Rightarrow> PartitionLog \<Rightarrow> seg_file option" where
  "segment_file tb l = (case fst tb of Local \<Rightarrow> local_dir l (snd tb) | Cold \<Rightarrow> cold_dir l (snd tb))"

definition idx_offset :: "byte list \<Rightarrow> nat \<Rightarrow> u64" where
  "idx_offset idx i = Uint64 (slice (16 * i) (16 * i + 8) idx)"

definition idx_position :: "byte list \<Rightarrow> nat \<Rightarrow> u64" where
  "idx_position idx i = Uint64 (slice (16 * i + 8) (16 * i + 16) idx)"

definition read_segment :: "u64 \<Rightarrow> u32 \<Rightarrow> seg_file \<Rightarrow> (byte list \<times> u64 \<times> u32) option" where
  "read_segment start_offset max_bytes f =
     (let idx = sf_idx f;
          num_entries = length idx div 16
      in if num_entries = 0 then None
         else case search_first (\<lambda>mid. idx_offset idx mid \<ge> start_offset) 0 (num_entries - 1) None of
                None \<Rightarrow> None
              | Some entry_idx \<Rightarrow>
                  let position = idx_position idx entry_idx;
                      end_pos = (if entry_idx + 1 < num_entries then idx_position idx (entry_idx + 1)
                                 else word_of_nat (length (sf_log f)));
                      bytes_to_read = min (ucast (end_pos - position)) max_bytes
                  in if bytes_to_read = 0 then None else Some (sf_log f, position, bytes_to_read))"

definition read_from_offset :: "u64 \<Rightarrow> u32 \<Rightarrow> PartitionLog \<Rightarrow> error + (byte list \<times> u64 \<times> u32) option" where
  "read_from_offset start_offset max_bytes l =
     (case find_segment start_offset l of
        None \<Rightarrow> Inr None
      | Some tb \<Rightarrow>
          (case segment_file tb l of
             None \<Rightarrow> Inl ''No such file or directory''
           | Some f \<Rightarrow>
               if sf_index f = None then Inl ''No such file or directory''
               else Inr (read_segment start_offset max_bytes f)))"

text \<open>The bytes that \<open>sendfile\<close> copies from the open file to the socket.\<close>

definition file_bytes :: "byte list \<times> u64 \<times> u32 \<Rightarrow> byte list" where
  "file_bytes = (\<lambda>(log, position, n). take (unat n) (drop (unat position) log))"

section \<open>Opening\<close>

text \<open>
  \<open>legacy\<close>: the files \<open>partition.log\<close> and \<open>partition.idx\<close> of the old layout, if they exist, and when
  the log was last modified; a rename keeps that time.
\<close>

definition migrate :: "(byte list \<times> byte list option \<times> int) option \<Rightarrow> (u64 \<rightharpoonup> seg_file) \<Rightarrow> (u64 \<rightharpoonup> seg_file)" where
  "migrate legacy d =
     (case legacy of
        None \<Rightarrow> d
      | Some (log, idx, mtime) \<Rightarrow>
          d(0 \<mapsto> \<lparr>sf_log = log,
                   sf_index = (case idx of Some i \<Rightarrow> Some i | None \<Rightarrow> Option.bind (d 0) sf_index),
                   sf_mtime = mtime\<rparr>))"

definition last_indexed :: "u64 \<Rightarrow> seg_file \<Rightarrow> u64" where
  "last_indexed base f =
     (let index_len = length (sf_idx f) in
      if index_len \<ge> 16 then Uint64 (slice (index_len - 16) (index_len - 8) (sf_idx f)) + 1 else base)"

definition open_log ::
  "int \<Rightarrow> (byte list \<times> byte list option \<times> int) option \<Rightarrow> (u64 \<rightharpoonup> seg_file) \<Rightarrow> (u64 \<rightharpoonup> seg_file) \<Rightarrow> u32 \<Rightarrow>
   u64 \<Rightarrow> u64 option \<Rightarrow> int option \<Rightarrow> PartitionLog"
where
  "open_log now legacy dir cold bid max_seg max_size max_age =
     (let d = migrate legacy dir;
          bases = (if base_offsets d = [] then [0] else base_offsets d);
          active = open_create now (last bases) d
      in recompute_high_watermark
           \<lparr>segments = bases, local_dir = d(last bases \<mapsto> active), cold_dir = cold,
            next_offset = last_indexed (last bases) active, max_segment_size = max_seg,
            broker_id = bid, max_retention_size = max_size, max_retention_age = max_age,
            high_watermark = 0, replica_offsets = Map.empty, replica_ids = []\<rparr>)"

section \<open>Index files\<close>

lemma sf_idx_simps [simp]:
  "sf_idx \<lparr>sf_log = log, sf_index = Some idx, sf_mtime = t\<rparr> = idx"
  "sf_idx \<lparr>sf_log = log, sf_index = None, sf_mtime = t\<rparr> = []"
  "sf_idx (f\<lparr>sf_mtime := t\<rparr>) = sf_idx f"
  "sf_idx (f\<lparr>sf_log := log\<rparr>) = sf_idx f"
  "sf_idx (f\<lparr>sf_index := Some idx\<rparr>) = idx"
  by (simp_all add: sf_idx_def)

lemma sf_idx_Some: "sf_index f = Some idx \<Longrightarrow> sf_idx f = idx"
  by (simp add: sf_idx_def)

lemma open_create_Some: "d b = Some f \<Longrightarrow> sf_index f \<noteq> None \<Longrightarrow> open_create now b d = f"
  by (auto simp: open_create_def sf_idx_def)

lemma active_file_index: "sf_index (active_file l) = Some (sf_idx (active_file l))"
  by (simp add: active_file_def open_create_def empty_file_def split: option.split)

section \<open>What the high watermark leaves alone\<close>

lemma recompute_frame [simp, frame_simps]:
  "segments (recompute_high_watermark l) = segments l"
  "local_dir (recompute_high_watermark l) = local_dir l"
  "cold_dir (recompute_high_watermark l) = cold_dir l"
  "next_offset (recompute_high_watermark l) = next_offset l"
  "broker_id (recompute_high_watermark l) = broker_id l"
  "replica_offsets (recompute_high_watermark l) = replica_offsets l"
  "replica_ids (recompute_high_watermark l) = replica_ids l"
  "max_segment_size (recompute_high_watermark l) = max_segment_size l"
  by (simp_all add: recompute_high_watermark_def Let_def)

lemma clean_retention_frame [frame_simps]:
  "next_offset (clean_retention now l) = next_offset l"
  "broker_id (clean_retention now l) = broker_id l"
  "replica_offsets (clean_retention now l) = replica_offsets l"
  "replica_ids (clean_retention now l) = replica_ids l"
  "max_segment_size (clean_retention now l) = max_segment_size l"
  by (simp_all add: clean_retention_def set_local_def Let_def split: option.split)

lemma append_log_frame [simp, frame_simps]:
  "broker_id (snd (append_log now m l)) = broker_id l"
  "replica_offsets (snd (append_log now m l)) = replica_offsets l"
  "replica_ids (snd (append_log now m l)) = replica_ids l"
  "max_segment_size (snd (append_log now m l)) = max_segment_size l"
  by (simp_all add: append_log_def write_record_def roll_over_def clean_retention_frame Let_def)

lemma open_log_frame [simp, frame_simps]:
  "max_segment_size (open_log now legacy d cold bid max_seg max_size max_age) = max_seg"
  "broker_id (open_log now legacy d cold bid max_seg max_size max_age) = bid"
  "replica_ids (open_log now legacy d cold bid max_seg max_size max_age) = []"
  by (simp_all add: open_log_def Let_def)

end
