(* ===== verification/Log_Blocks.thy ===== *)
theory Log_Blocks
  imports Partition_Log
begin

text \<open>
  What the files of a segment hold.  A segment that starts at message \<open>c\<close> and holds the messages
  \<open>ms\<close> is a log file with their bytes one after the other and an index file with an entry of
  16 bytes for each: the offset and the position of its first byte.  \<open>encodes c ms f\<close> is that
  description of the pair of files \<open>f\<close>; appending a record extends it and reading inverts it.
\<close>

section \<open>Words and lists\<close>

lemma unat_word_of_nat_u64: "n < 2 ^ 64 \<Longrightarrow> unat (word_of_nat n :: u64) = n"
  by (simp add: unsigned_of_nat take_bit_nat_eq_self)

lemma word_of_nat_le_u64:
  "m < 2 ^ 64 \<Longrightarrow> n < 2 ^ 64 \<Longrightarrow> (word_of_nat m :: u64) \<le> word_of_nat n \<longleftrightarrow> m \<le> n"
  by (simp add: word_le_nat_alt unat_word_of_nat_u64)

lemma word_of_nat_less_u64:
  "m < 2 ^ 64 \<Longrightarrow> n < 2 ^ 64 \<Longrightarrow> (word_of_nat m :: u64) < word_of_nat n \<longleftrightarrow> m < n"
  by (simp add: word_less_nat_alt unat_word_of_nat_u64)

lemma word_of_nat_eq_u64:
  "m < 2 ^ 64 \<Longrightarrow> n < 2 ^ 64 \<Longrightarrow> (word_of_nat m :: u64) = word_of_nat n \<longleftrightarrow> m = n"
  by (metis unat_word_of_nat_u64)

lemma length_concat_take: "length (concat (take k xs)) \<le> length (concat xs)"
proof -
  have "concat xs = concat (take k xs) @ concat (drop k xs)"
    by (metis append_take_drop_id concat_append)
  then show ?thesis by simp
qed

lemma drop_concat_take:
  assumes "i < length xs"
  shows "drop (length (concat (take i xs))) (concat xs) = xs ! i @ concat (drop (Suc i) xs)"
proof -
  have "concat xs = concat (take i xs) @ xs ! i @ concat (drop (Suc i) xs)"
    using assms by (metis Cons_nth_drop_Suc append_take_drop_id concat.simps(2) concat_append)
  then show ?thesis by simp
qed

lemma length_concat_take_Suc:
  "i < length xs \<Longrightarrow> length (concat (take (Suc i) xs)) = length (concat (take i xs)) + length (xs ! i)"
  by (simp add: take_Suc_conv_app_nth)

lemma take_drop_chunks:
  assumes "\<And>x. x \<in> set xs \<Longrightarrow> length x = n" "i < length xs"
  shows "take n (drop (n * i) (concat xs)) = xs ! i"
  using assms
proof (induction xs arbitrary: i)
  case (Cons x xs)
  then show ?case by (cases i) auto
qed simp

section \<open>Segments\<close>

definition entry :: "nat \<Rightarrow> byte list list \<Rightarrow> nat \<Rightarrow> byte list" where
  "entry c ms i = PutUint64 (word_of_nat (c + i)) @ PutUint64 (word_of_nat (length (concat (take i ms))))"

definition entries :: "nat \<Rightarrow> byte list list \<Rightarrow> byte list" where
  "entries c ms = concat (map (entry c ms) [0..<length ms])"

definition encodes :: "nat \<Rightarrow> byte list list \<Rightarrow> seg_file \<Rightarrow> bool" where
  "encodes c ms f \<longleftrightarrow> sf_log f = concat ms \<and> sf_index f = Some (entries c ms)"

lemma length_entry [simp]: "length (entry c ms i) = 16"
  by (simp add: entry_def)

lemma length_entries [simp]: "length (entries c ms) = 16 * length ms"
proof -
  have "map (length \<circ> entry c ms) [0..<length ms] = replicate (length ms) 16"
    by (simp add: comp_def map_replicate_const)
  then show ?thesis by (simp add: entries_def length_concat sum_list_replicate)
qed

lemma nth_entries: "i < length ms \<Longrightarrow> take 16 (drop (16 * i) (entries c ms)) = entry c ms i"
  unfolding entries_def by (subst take_drop_chunks) auto

lemma entries_snoc:
  "entries c (ms @ [m]) = entries c ms @ PutUint64 (word_of_nat (c + length ms)) @
     PutUint64 (word_of_nat (length (concat ms)))"
proof -
  have "concat (map (entry c (ms @ [m])) [0..<length ms]) = entries c ms"
    unfolding entries_def by (rule arg_cong [where f = concat]) (simp add: entry_def)
  moreover have "entries c (ms @ [m]) = concat (map (entry c (ms @ [m])) [0..<length ms]) @ entry c (ms @ [m]) (length ms)"
    by (simp add: entries_def)
  ultimately show ?thesis by (simp add: entry_def)
qed

lemma entries_Nil [simp]: "entries c [] = []"
  by (simp add: entries_def)

lemma encodes_mtime [simp]: "encodes c ms (f\<lparr>sf_mtime := t\<rparr>) = encodes c ms f"
  by (simp add: encodes_def)

lemma encodes_empty [simp]: "encodes c [] (empty_file now)"
  by (simp add: encodes_def empty_file_def)

lemma idx_offset_entries:
  assumes "i < length ms"
  shows "idx_offset (entries c ms) i = word_of_nat (c + i)"
proof -
  have "slice (16 * i) (16 * i + 8) (entries c ms) = take 8 (take 16 (drop (16 * i) (entries c ms)))"
    by (simp add: slice_def)
  also have "\<dots> = PutUint64 (word_of_nat (c + i))"
    unfolding nth_entries [OF assms] by (simp add: entry_def)
  finally show ?thesis by (simp only: idx_offset_def be_gets)
qed

lemma idx_position_entries:
  assumes "i < length ms"
  shows "idx_position (entries c ms) i = word_of_nat (length (concat (take i ms)))"
proof -
  have "slice (16 * i + 8) (16 * i + 16) (entries c ms) = drop 8 (take 16 (drop (16 * i) (entries c ms)))"
    by (simp add: slice_def drop_take add.commute)
  also have "\<dots> = PutUint64 (word_of_nat (length (concat (take i ms))))"
    unfolding nth_entries [OF assms] by (simp add: entry_def)
  finally show ?thesis by (simp only: idx_position_def be_gets)
qed

lemma last_indexed_encodes:
  assumes "encodes c ms f"
  shows "last_indexed (word_of_nat c) f = word_of_nat (c + length ms)"
proof (cases ms rule: rev_cases)
  case (snoc ns m)
  have "slice (16 * length ms - 16) (16 * length ms - 8) (entries c ms) =
      slice (16 * length ns) (16 * length ns + 8) (entries c ms)"
    using snoc by (simp add: add.commute)
  then have "Uint64 (slice (16 * length ms - 16) (16 * length ms - 8) (entries c ms)) = word_of_nat (c + length ns)"
    using idx_offset_entries [of "length ns" ms c] snoc by (simp add: idx_offset_def)
  then show ?thesis using assms snoc by (simp add: last_indexed_def encodes_def sf_idx_def)
qed (use assms in \<open>simp add: last_indexed_def encodes_def sf_idx_def\<close>)

section \<open>Reading a segment\<close>

lemma file_bytes_message:
  assumes "i < length ms" "length (concat ms) < 2 ^ 64" "length (ms ! i) < 2 ^ 32"
  shows "file_bytes (concat ms, word_of_nat (length (concat (take i ms))),
      min (word_of_nat (length (ms ! i))) n) = take (unat n) (ms ! i)"
proof -
  have "unat (word_of_nat (length (concat (take i ms))) :: u64) = length (concat (take i ms))"
    using assms(2) length_concat_take [of i ms] by (intro unat_word_of_nat_u64) linarith
  moreover have "unat (min (word_of_nat (length (ms ! i))) n) = min (length (ms ! i)) (unat n)"
    using assms(3) by (simp add: min_def word_le_nat_alt unsigned_of_nat take_bit_nat_eq_self)
  ultimately show ?thesis
    using drop_concat_take [OF assms(1)] by (simp add: file_bytes_def min_def)
qed

lemma ucast_position_diff:
  assumes "length (concat (take i ms)) + length m < 2 ^ 64"
  shows "(ucast (word_of_nat (length (concat (take i ms)) + length m) -
     word_of_nat (length (concat (take i ms))) :: u64) :: u32) = word_of_nat (length m)"
  using assms by (simp add: unsigned_of_nat take_bit_nat_eq_self)

lemma search_first_entries:
  assumes "c + length ms < 2 ^ 64" "c \<le> k" "k < 2 ^ 64" "ms \<noteq> []"
  shows "search_first (\<lambda>mid. idx_offset (entries c ms) mid \<ge> word_of_nat k) 0 (length ms - 1) None =
     (if k < c + length ms then Some (k - c) else None)"
proof -
  have "boundary (\<lambda>i. \<not> idx_offset (entries c ms) i \<ge> word_of_nat k) (length ms) (min (k - c) (length ms))"
  proof (unfold boundary_def, intro conjI allI impI)
    fix i
    assume i: "i < length ms"
    then have "(word_of_nat (c + i) :: u64) \<ge> word_of_nat k \<longleftrightarrow> k \<le> c + i"
      using assms(1,3) by (intro word_of_nat_le_u64) auto
    then show "(\<not> idx_offset (entries c ms) i \<ge> word_of_nat k) \<longleftrightarrow> i < min (k - c) (length ms)"
      using i assms(2) unfolding idx_offset_entries [OF i] by auto
  qed simp
  then have "search_first (\<lambda>mid. idx_offset (entries c ms) mid \<ge> word_of_nat k) 0 (length ms - 1) None =
      (if min (k - c) (length ms) = length ms then None else Some (min (k - c) (length ms)))"
    using assms(4) by (intro search_first_all) auto
  then show ?thesis using assms(2) by (auto simp: min_def)
qed

text \<open>Reading at offset \<open>k\<close> from the segment that has it, and from a segment that ends before it.\<close>

lemma read_segment_found:
  assumes enc: "encodes c ms f" and fits: "c + length ms < 2 ^ 64" "length (concat ms) < 2 ^ 64"
    and k: "c \<le> k" "k < 2 ^ 64" "k < c + length ms"
  shows "read_segment (word_of_nat k) n f =
     (let b = min (word_of_nat (length (ms ! (k - c)))) n in
      if b = 0 then None else Some (concat ms, word_of_nat (length (concat (take (k - c) ms))), b))"
proof -
  define i where "i = k - c"
  define pos where "pos = length (concat (take i ms))"
  have i: "i < length ms" using k by (auto simp: i_def)
  then have ne: "ms \<noteq> []" by auto
  have sum: "pos + length (ms ! i) < 2 ^ 64"
    using fits(2) length_concat_take [of "Suc i" ms] length_concat_take_Suc [OF i] by (simp add: pos_def)
  have end_pos: "(if i + 1 < length ms then idx_position (entries c ms) (i + 1)
      else word_of_nat (length (concat ms))) = word_of_nat (pos + length (ms ! i))"
  proof (cases "i + 1 < length ms")
    case True
    then show ?thesis
      using idx_position_entries [OF True, of c] length_concat_take_Suc [OF i] by (simp add: pos_def)
  next
    case False
    then have "take (Suc i) ms = ms" by simp
    with False show ?thesis using length_concat_take_Suc [OF i] by (simp add: pos_def)
  qed
  have step: "read_segment (word_of_nat k) n f =
      (let b = min (ucast ((if i + 1 < length ms then idx_position (entries c ms) (i + 1)
                            else word_of_nat (length (concat ms))) - word_of_nat pos)) n
       in if b = 0 then None else Some (concat ms, word_of_nat pos, b))"
    unfolding read_segment_def
    using enc ne k(3) i search_first_entries [OF fits(1) k(1,2) ne] idx_position_entries [OF i, of c]
    by (simp add: encodes_def sf_idx_def i_def [symmetric] pos_def Let_def)
  show ?thesis
    unfolding step end_pos i_def [symmetric] using ucast_position_diff [of i ms "ms ! i"] sum
    by (simp add: pos_def Let_def)
qed

lemma read_segment_beyond:
  assumes "encodes c ms f" "c + length ms < 2 ^ 64" "c + length ms \<le> k" "k < 2 ^ 64"
  shows "read_segment (word_of_nat k) n f = None"
  using assms search_first_entries [OF assms(2) _ assms(4)] by (auto simp: read_segment_def encodes_def sf_idx_def Let_def)

lemma unat_read_length:
  assumes "length m < 2 ^ 32"
  shows "unat (min (word_of_nat (length m)) (n :: u32)) = length (take (unat n) m)"
  using assms by (simp add: min_def word_le_nat_alt unsigned_of_nat take_bit_nat_eq_self)

lemma read_segment_encodes:
  assumes enc: "encodes c ms f" and fits: "c + length ms < 2 ^ 64" "length (concat ms) < 2 ^ 64"
    and small: "\<forall>m \<in> set ms. length m < 2 ^ 32" and k: "c \<le> k" "k < 2 ^ 64"
  shows "map_option file_bytes (read_segment (word_of_nat k) n f) =
     (if k < c + length ms \<and> take (unat n) (ms ! (k - c)) \<noteq> []
      then Some (take (unat n) (ms ! (k - c))) else None)"
proof (cases "k < c + length ms")
  case True
  then have i: "k - c < length ms" using k(1) by auto
  then have len: "length (ms ! (k - c)) < 2 ^ 32" using small by simp
  have "min (word_of_nat (length (ms ! (k - c)))) n = 0 \<longleftrightarrow> take (unat n) (ms ! (k - c)) = []"
    using unat_read_length [OF len, of n] by (metis length_0_conv unsigned_eq_0_iff)
  then show ?thesis
    using True file_bytes_message [OF i fits(2) len, of n] read_segment_found [OF enc fits k True, of n]
    by (simp add: Let_def)
qed (use read_segment_beyond [OF enc fits(1) _ k(2)] in simp)

text \<open>What is announced can be sent.\<close>

definition in_file :: "byte list \<times> u64 \<times> u32 \<Rightarrow> bool" where
  "in_file = (\<lambda>(log, position, n). unat position + unat n \<le> length log)"

lemma read_segment_in_file:
  assumes enc: "encodes c ms f" and fits: "c + length ms < 2 ^ 64" "length (concat ms) < 2 ^ 64"
    and small: "\<forall>m \<in> set ms. length m < 2 ^ 32" and k: "c \<le> k" "k < 2 ^ 64"
    and r: "read_segment (word_of_nat k) n f = Some r"
  shows "in_file r"
proof -
  have lt: "k < c + length ms" using read_segment_beyond [OF enc fits(1) _ k(2)] r by fastforce
  define i where "i = k - c"
  have i: "i < length ms" using lt k(1) by (auto simp: i_def)
  then have len: "length (ms ! i) < 2 ^ 32" using small by simp
  have le: "length (concat (take i ms)) + length (ms ! i) \<le> length (concat ms)"
    using length_concat_take [of "Suc i" ms] length_concat_take_Suc [OF i] by simp
  then have "unat (word_of_nat (length (concat (take i ms))) :: u64) = length (concat (take i ms))"
    using fits(2) by (intro unat_word_of_nat_u64) linarith
  then show ?thesis
    using r read_segment_found [OF enc fits k lt, of n] unat_read_length [OF len, of n] le
    by (auto simp: in_file_def Let_def i_def [symmetric] split: if_splits)
qed

end
