(* ===== verification/Log_Refinement.thy ===== *)
theory Log_Refinement
  imports Log_Blocks
begin

text \<open>
  The partition log implements a sequence of messages.  \<open>holds l ms\<close> says that the files and the fields of
  \<open>l\<close> represent the messages \<open>ms\<close>, in the order of their offsets: they are cut into blocks, one for
  each segment there has been, of which local storage keeps the last ones and cold storage has a
  copy of all but the active one.  Opening, appending (with roll-over and retention) and
  reading are shown to implement the empty sequence, \<open>ms @ [m]\<close> and \<open>ms ! k\<close>.
\<close>

section \<open>Blocks\<close>

definition start :: "byte list list list \<Rightarrow> nat \<Rightarrow> nat" where
  "start bs k = length (concat (take k bs))"

definition base :: "byte list list list \<Rightarrow> nat \<Rightarrow> u64" where
  "base bs k = word_of_nat (start bs k)"

definition holds_dir :: "byte list list list \<Rightarrow> nat set \<Rightarrow> (u64 \<rightharpoonup> seg_file) \<Rightarrow> bool" where
  "holds_dir bs I d \<longleftrightarrow> dom d = base bs ` I \<and>
     (\<forall>k \<in> I. \<exists>f. d (base bs k) = Some f \<and> encodes (start bs k) (bs ! k) f)"

definition fits :: "byte list list \<Rightarrow> bool" where
  "fits ms \<longleftrightarrow> length ms < 2 ^ 64 \<and> length (concat ms) < 2 ^ 64"

definition blocks_ok :: "byte list list list \<Rightarrow> bool" where
  "blocks_ok bs \<longleftrightarrow> bs \<noteq> [] \<and> [] \<notin> set (butlast bs) \<and> fits (concat bs)"

text \<open>\<open>r\<close> blocks have been removed from local storage.\<close>

definition log_ok :: "byte list list list \<Rightarrow> nat \<Rightarrow> PartitionLog \<Rightarrow> bool" where
  "log_ok bs r l \<longleftrightarrow> blocks_ok bs \<and> r < length bs \<and>
     next_offset l = word_of_nat (length (concat bs)) \<and>
     segments l = map (base bs) [r..<length bs] \<and>
     holds_dir bs {r..<length bs} (local_dir l) \<and>
     holds_dir bs {0..<length bs - 1} (cold_dir l)"

definition holds :: "PartitionLog \<Rightarrow> byte list list \<Rightarrow> bool" where
  "holds l ms \<longleftrightarrow> (\<exists>bs r. log_ok bs r l \<and> concat bs = ms)"

lemma start_simps [simp]:
  "start bs 0 = 0" "start bs (length bs) = length (concat bs)"
  "length bs \<le> k \<Longrightarrow> start bs k = length (concat bs)"
  by (simp_all add: start_def)

lemma start_Suc: "k < length bs \<Longrightarrow> start bs (Suc k) = start bs k + length (bs ! k)"
  by (simp add: start_def length_concat_take_Suc)

lemma start_le: "start bs k \<le> length (concat bs)"
  by (simp add: start_def length_concat_take)

lemma start_replace_last:
  "bs \<noteq> [] \<Longrightarrow> k < length bs \<Longrightarrow> start (butlast bs @ [b]) k = start bs k"
  by (simp add: start_def take_butlast)

lemma start_append: "k \<le> length bs \<Longrightarrow> start (bs @ cs) k = start bs k"
  by (simp add: start_def)

lemma start_mono: "j \<le> k \<Longrightarrow> start bs j \<le> start bs k"
proof -
  assume "j \<le> k"
  then have "take j bs = take j (take k bs)" by simp
  then show ?thesis unfolding start_def using length_concat_take [of j "take k bs"] by simp
qed

lemma start_less:
  assumes "blocks_ok bs" "j < k" "k < length bs"
  shows "start bs j < start bs k"
proof -
  have j: "j < length (butlast bs)" using assms(2,3) by simp
  then have "bs ! j \<in> set (butlast bs)" by (metis nth_butlast nth_mem)
  then have "bs ! j \<noteq> []" using assms(1) by (auto simp: blocks_ok_def)
  then have "start bs j < start bs (Suc j)" using assms by (simp add: start_Suc)
  also have "\<dots> \<le> start bs k" using assms(2) by (intro start_mono) simp
  finally show ?thesis .
qed

lemma start_le_iff:
  assumes "blocks_ok bs" "j < length bs" "k < length bs"
  shows "start bs j \<le> start bs k \<longleftrightarrow> j \<le> k"
  using start_less [OF assms(1), of k j] start_mono [of j k bs] assms by (metis linorder_not_less)

lemma start_bound: "blocks_ok bs \<Longrightarrow> start bs k < 2 ^ 64"
  using start_le [of bs k] by (simp add: blocks_ok_def fits_def)

lemma base_le_iff:
  "blocks_ok bs \<Longrightarrow> n < 2 ^ 64 \<Longrightarrow> base bs k \<le> word_of_nat n \<longleftrightarrow> start bs k \<le> n"
  unfolding base_def by (intro word_of_nat_le_u64 start_bound)

lemma base_less:
  "blocks_ok bs \<Longrightarrow> j < k \<Longrightarrow> k < length bs \<Longrightarrow> base bs j < base bs k"
  unfolding base_def using start_less [of bs j k] start_bound [of bs]
  by (subst word_of_nat_less_u64) auto

lemma inj_on_base: "blocks_ok bs \<Longrightarrow> I \<subseteq> {..<length bs} \<Longrightarrow> inj_on (base bs) I"
  by (intro inj_onI) (metis base_less lessThan_iff linorder_neqE_nat order_less_irrefl subsetD)

lemma sorted_bases:
  assumes "blocks_ok bs" "n \<le> length bs"
  shows "sorted_wrt (<) (map (base bs) [r..<n])"
  using assms by (auto simp: sorted_wrt_iff_nth_less intro: base_less)

lemma sorted_list_of_bases:
  assumes "blocks_ok bs" "n \<le> length bs"
  shows "sorted_list_of_set (base bs ` {r..<n}) = map (base bs) [r..<n]"
proof -
  have "sorted_wrt (<) (map (base bs) [r..<n])" by (rule sorted_bases [OF assms])
  then have "sorted (map (base bs) [r..<n])" "distinct (map (base bs) [r..<n])"
    by (simp_all only: strict_sorted_iff)
  then have "sorted_list_of_set (set (map (base bs) [r..<n])) = map (base bs) [r..<n]"
    by (rule sorted_list_of_set.idem_if_sorted_distinct)
  then show ?thesis by simp
qed

section \<open>Directories\<close>

lemma holds_dir_put:
  assumes "holds_dir bs I d" "\<And>j. j \<in> I \<Longrightarrow> start bs' j = start bs j"
    and "\<And>j. j \<in> I \<Longrightarrow> j \<noteq> k \<Longrightarrow> bs' ! j = bs ! j"
    and "inj_on (base bs') (insert k I)" "encodes (start bs' k) (bs' ! k) f"
  shows "holds_dir bs' (insert k I) (d(base bs' k \<mapsto> f))"
proof -
  have b: "base bs' j = base bs j" if "j \<in> I" for j using assms(2) that by (simp add: base_def)
  have "\<exists>g. (d(base bs' k \<mapsto> f)) (base bs' j) = Some g \<and> encodes (start bs' j) (bs' ! j) g"
    if j: "j \<in> insert k I" for j
  proof (cases "j = k")
    case False
    with j have "base bs' j \<noteq> base bs' k" "j \<in> I" using inj_onD [OF assms(4), of j k] by auto
    with assms(1-3) False b show ?thesis by (auto simp: holds_dir_def)
  qed (use assms(5) in simp)
  then show ?thesis using assms(1) b by (auto simp: holds_dir_def)
qed

lemma holds_dir_cong:
  assumes "\<And>j. j \<in> I \<Longrightarrow> start bs' j = start bs j" "\<And>j. j \<in> I \<Longrightarrow> bs' ! j = bs ! j"
  shows "holds_dir bs' I d \<longleftrightarrow> holds_dir bs I d"
  using assms by (auto simp: holds_dir_def base_def cong: image_cong ball_cong)

lemma holds_dir_remove:
  assumes "holds_dir bs I d" "k \<in> I" "inj_on (base bs) I"
  shows "holds_dir bs (I - {k}) (d(base bs k := None))"
proof -
  have "base bs j \<noteq> base bs k" if "j \<in> I - {k}" for j
    using that assms(2,3) by (auto dest: inj_onD)
  with assms(1) show ?thesis by (auto simp: holds_dir_def)
qed

section \<open>Appending\<close>

lemma log_okD:
  assumes "log_ok bs r l"
  shows "blocks_ok bs" "r < length bs" "bs \<noteq> []" "next_offset l = word_of_nat (length (concat bs))"
    "segments l = map (base bs) [r..<length bs]" "holds_dir bs {r..<length bs} (local_dir l)"
    "holds_dir bs {0..<length bs - 1} (cold_dir l)"
  using assms by (auto simp: log_ok_def blocks_ok_def)

lemma last_segment:
  assumes "log_ok bs r l"
  shows "last (segments l) = base bs (length bs - 1)"
  using log_okD(2,3,5) [OF assms] by (simp add: last_map)

lemma active_file_encodes:
  assumes "log_ok bs r l"
  shows "local_dir l (base bs (length bs - 1)) = Some (active_file l)"
    and "encodes (start bs (length bs - 1)) (last bs) (active_file l)"
proof -
  have "length bs - 1 \<in> {r..<length bs}" using log_okD(2) [OF assms] by auto
  then obtain f where f: "local_dir l (base bs (length bs - 1)) = Some f"
      "encodes (start bs (length bs - 1)) (bs ! (length bs - 1)) f"
    using log_okD(6) [OF assms] unfolding holds_dir_def by blast
  then have "active_file l = f" by (simp add: active_file_def open_create_Some encodes_def last_segment [OF assms])
  with f show "local_dir l (base bs (length bs - 1)) = Some (active_file l)"
    "encodes (start bs (length bs - 1)) (last bs) (active_file l)"
    using log_okD(3) [OF assms] by (simp_all add: last_conv_nth)
qed

lemma concat_snoc_last: "bs \<noteq> [] \<Longrightarrow> concat (butlast bs @ [last bs @ [m]]) = concat bs @ [m]"
  by (induction bs rule: rev_induct) auto

lemma length_concat_last: "bs \<noteq> [] \<Longrightarrow> start bs (length bs - 1) + length (last bs) = length (concat bs)"
  by (induction bs rule: rev_induct) (auto simp: start_def)

text \<open>Writing to the active segment.\<close>

lemma replace_active_ok:
  fixes bs b
  defines "bs' \<equiv> butlast bs @ [b]"
  assumes ok: "log_ok bs r l" and fits: "fits (concat bs')" and enc: "encodes (start bs (length bs - 1)) b f"
    and l': "segments l' = segments l" "cold_dir l' = cold_dir l"
      "local_dir l' = (local_dir l)(last (segments l) \<mapsto> f)" "next_offset l' = word_of_nat (length (concat bs'))"
  shows "log_ok bs' r l'"
proof -
  let ?n = "length bs"
  note D = log_okD [OF ok]
  have len: "length bs' = ?n" using D(3) by (simp add: bs'_def)
  have st: "start bs' k = start bs k" if "k < ?n" for k unfolding bs'_def using start_replace_last [OF D(3) that] .
  then have b: "base bs' k = base bs k" if "k < ?n" for k using that by (simp add: base_def)
  have nth: "bs' ! k = bs ! k" if "k < ?n - 1" for k using that by (simp add: bs'_def nth_append nth_butlast)
  have ok': "blocks_ok bs'" using D(1) fits by (simp add: blocks_ok_def bs'_def)
  have enc': "encodes (start bs' (?n - 1)) (bs' ! (?n - 1)) f"
    using enc st [of "?n - 1"] D(3) by (simp add: bs'_def nth_append)
  have inj: "inj_on (base bs') (insert (?n - 1) {r..<?n})" using D(2) len by (intro inj_on_base [OF ok']) auto
  have "holds_dir bs' (insert (?n - 1) {r..<?n}) ((local_dir l)(base bs' (?n - 1) \<mapsto> f))"
    by (rule holds_dir_put [OF D(6) _ _ inj enc']) (use st nth in auto)
  moreover have "insert (?n - 1) {r..<?n} = {r..<?n}" using D(2) by auto
  ultimately have "holds_dir bs' {r..<?n} (local_dir l')"
    using D(3) b [of "?n - 1"] by (simp add: l' last_segment [OF ok])
  moreover have "holds_dir bs' {0..<?n - 1} (cold_dir l')"
    using D(7) st nth by (subst holds_dir_cong) (auto simp: l')
  ultimately show ?thesis using ok' D len b by (simp add: log_ok_def l')
qed

lemma write_record_ok:
  assumes ok: "log_ok bs r l" and fits: "fits (concat bs @ [m])"
  shows "log_ok (butlast bs @ [last bs @ [m]]) r (write_record now m l)"
proof (rule replace_active_ok [OF ok])
  note D = log_okD [OF ok]
  let ?f = "\<lparr>sf_log = sf_log (active_file l) @ m,
      sf_index = Some (sf_idx (active_file l) @ PutUint64 (next_offset l) @ PutUint64 (word_of_nat (length (sf_log (active_file l))))),
      sf_mtime = (if m = [] then sf_mtime (active_file l) else now)\<rparr>"
  show "encodes (start bs (length bs - 1)) (last bs @ [m]) ?f"
    using active_file_encodes(2) [OF ok] D(3,4) length_concat_last [OF D(3)]
    by (simp add: encodes_def sf_idx_def entries_snoc del: of_nat_add)
  show "local_dir (write_record now m l) = (local_dir l)(last (segments l) \<mapsto> ?f)"
    by (simp add: write_record_def Let_def)
  show "fits (concat (butlast bs @ [last bs @ [m]]))" unfolding concat_snoc_last [OF D(3)] by (rule fits)
  show "next_offset (write_record now m l) = word_of_nat (length (concat (butlast bs @ [last bs @ [m]])))"
    unfolding concat_snoc_last [OF D(3)] using D(4) by (simp add: write_record_def Let_def)
qed (simp_all add: write_record_def Let_def)

lemma blocks_ok_new:
  assumes "log_ok bs r l" "last bs \<noteq> []"
  shows "blocks_ok (bs @ [[]])"
proof -
  note D = log_okD [OF assms(1)]
  have "[] \<notin> set bs"
    using D(1,3) assms(2) unfolding blocks_ok_def by (metis append_butlast_last_id rotate1.simps(2) set_ConsD set_rotate1)
  then show ?thesis using D(1) by (simp add: blocks_ok_def)
qed

lemma next_offset_base: "log_ok bs r l \<Longrightarrow> next_offset l = base (bs @ [[]]) (length bs)"
  using log_okD(4) [of bs r l] by (simp add: base_def start_append)

lemma next_offset_fresh:
  assumes ok: "log_ok bs r l" and ne: "last bs \<noteq> []"
  shows "next_offset l \<notin> dom (local_dir l)"
proof
  assume "next_offset l \<in> dom (local_dir l)"
  then obtain k where "k < length bs" "next_offset l = base bs k" using log_okD(6) [OF ok] by (auto simp: holds_dir_def)
  moreover from this have "base bs k = base (bs @ [[]]) k" by (simp add: base_def start_append)
  ultimately show False
    using base_less [OF blocks_ok_new [OF ok ne], of k "length bs"] next_offset_base [OF ok] by simp
qed

lemma roll_over_ok:
  assumes ok: "log_ok bs r l" and ne: "last bs \<noteq> []"
  shows "log_ok (bs @ [[]]) r (roll_over now l)"
proof -
  let ?bs = "bs @ [[]]" and ?n = "length bs"
  note D = log_okD [OF ok] and ok' = blocks_ok_new [OF ok ne]
  have st: "start ?bs k = start bs k" if "k \<le> ?n" for k using that by (rule start_append)
  then have b: "base ?bs k = base bs k" if "k \<le> ?n" for k using that by (simp add: base_def)
  have new: "base ?bs ?n = next_offset l" using next_offset_base [OF ok] by simp
  have empty: "open_create now (next_offset l) (local_dir l) = empty_file now"
    using next_offset_fresh [OF ok ne] by (auto simp: open_create_def split: option.splits)
  have inj: "inj_on (base ?bs) (insert ?n {r..<?n})" "inj_on (base ?bs) (insert (?n - 1) {0..<?n - 1})"
    by (auto intro!: inj_on_base [OF ok'] simp del: inj_on_insert)
  have "holds_dir ?bs (insert ?n {r..<?n}) ((local_dir l)(base ?bs ?n \<mapsto> empty_file now))"
    by (rule holds_dir_put [OF D(6) _ _ inj(1)]) (use st in \<open>auto simp: nth_append\<close>)
  moreover have "insert ?n {r..<?n} = {r..<Suc ?n}" using D(2) by auto
  ultimately have loc: "holds_dir ?bs {r..<Suc ?n} (local_dir (roll_over now l))"
    using empty new by (simp add: roll_over_def Let_def)
  have "holds_dir ?bs (insert (?n - 1) {0..<?n - 1})
      ((cold_dir l)(base ?bs (?n - 1) \<mapsto> (active_file l)\<lparr>sf_mtime := now\<rparr>))"
    by (rule holds_dir_put [OF D(7) _ _ inj(2)])
      (use st D(3) active_file_encodes(2) [OF ok] in \<open>auto simp: nth_append last_conv_nth\<close>)
  moreover have "insert (?n - 1) {0..<?n - 1} = {0..<?n}" using D(3) by (cases bs) auto
  ultimately have "holds_dir ?bs {0..<?n} (cold_dir (roll_over now l))"
    using b [of "?n - 1"] by (simp add: roll_over_def Let_def last_segment [OF ok])
  with loc show ?thesis
    using ok' D b new by (simp add: log_ok_def roll_over_def Let_def)
qed

section \<open>Retention\<close>

lemma holds_dir_drop_oldest:
  assumes "blocks_ok bs" "r < length bs" "holds_dir bs {r..<length bs} d"
  shows "holds_dir bs {Suc r..<length bs} (d(base bs r := None))"
proof -
  have "holds_dir bs ({r..<length bs} - {r}) (d(base bs r := None))"
    using assms by (intro holds_dir_remove inj_on_base) auto
  moreover have "{r..<length bs} - {r} = {Suc r..<length bs}" by auto
  ultimately show ?thesis by simp
qed

text \<open>Both loops remove some of the oldest segments, and leave the others as they are.\<close>

definition trims :: "byte list list list \<Rightarrow> nat \<Rightarrow> u64 list \<times> (u64 \<rightharpoonup> seg_file) \<Rightarrow> bool" where
  "trims bs r sd \<longleftrightarrow> (\<exists>r' < length bs. r \<le> r' \<and> fst sd = map (base bs) [r'..<length bs] \<and>
     holds_dir bs {r'..<length bs} (snd sd))"

lemma trims_step: "trims bs (Suc r) sd \<Longrightarrow> trims bs r sd"
  unfolding trims_def by (meson Suc_leD)

lemma trims_refl:
  "r < length bs \<Longrightarrow> holds_dir bs {r..<length bs} d \<Longrightarrow> trims bs r (map (base bs) [r..<length bs], d)"
  by (auto simp: trims_def)

lemma bases_Cons2:
  assumes "Suc r < n"
  shows "map (base bs) [r..<n] = base bs r # base bs (Suc r) # map (base bs) [Suc (Suc r)..<n]"
  using assms by (simp add: upt_conv_Cons)

lemma loop_trims:
  assumes ok: "blocks_ok bs" and r: "r < length bs" "holds_dir bs {r..<length bs} d"
    and loop: "\<And>r d. r < length bs \<Longrightarrow> loop (map (base bs) [r..<length bs]) d = (map (base bs) [r..<length bs], d) \<or>
      Suc r < length bs \<and>
      loop (map (base bs) [r..<length bs]) d = loop (map (base bs) [Suc r..<length bs]) (d(base bs r := None))"
  shows "trims bs r (loop (map (base bs) [r..<length bs]) d)"
  using r
proof (induction "length bs - r" arbitrary: r d)
  case (Suc k)
  from loop [OF Suc.prems(1), of d] show ?case
  proof
    assume step: "Suc r < length bs \<and>
      loop (map (base bs) [r..<length bs]) d = loop (map (base bs) [Suc r..<length bs]) (d(base bs r := None))"
    have "trims bs (Suc r) (loop (map (base bs) [Suc r..<length bs]) (d(base bs r := None)))"
      using step Suc(2) holds_dir_drop_oldest [OF ok Suc.prems] by (intro Suc(1)) auto
    then show ?thesis using step by (simp add: trims_step)
  qed (use trims_refl [OF Suc.prems] in simp)
qed simp

lemma retention_size_loop_trims:
  assumes "blocks_ok bs" "r < length bs" "holds_dir bs {r..<length bs} d"
  shows "trims bs r (retention_size_loop max_size (map (base bs) [r..<length bs]) d)"
proof (rule loop_trims [OF assms])
  show "retention_size_loop max_size (map (base bs) [r..<length bs]) d = (map (base bs) [r..<length bs], d) \<or>
      Suc r < length bs \<and> retention_size_loop max_size (map (base bs) [r..<length bs]) d =
        retention_size_loop max_size (map (base bs) [Suc r..<length bs]) (d(base bs r := None))"
    if "r < length bs" for r d
    using that by (cases "Suc r < length bs") (simp_all add: bases_Cons2 upt_conv_Cons del: upt_Suc)
qed

lemma retention_age_loop_trims:
  assumes "blocks_ok bs" "r < length bs" "holds_dir bs {r..<length bs} d"
  shows "trims bs r (retention_age_loop now max_age (map (base bs) [r..<length bs]) d)"
proof (rule loop_trims [OF assms])
  show "retention_age_loop now max_age (map (base bs) [r..<length bs]) d = (map (base bs) [r..<length bs], d) \<or>
      Suc r < length bs \<and> retention_age_loop now max_age (map (base bs) [r..<length bs]) d =
        retention_age_loop now max_age (map (base bs) [Suc r..<length bs]) (d(base bs r := None))"
    if "r < length bs" for r d
    using that by (cases "Suc r < length bs") (simp_all add: bases_Cons2 upt_conv_Cons del: upt_Suc)
qed

lemma set_local_ok:
  assumes "log_ok bs r l" "trims bs r sd"
  shows "\<exists>r' \<ge> r. log_ok bs r' (set_local sd l)"
proof -
  obtain r' where "r' < length bs" "r \<le> r'" "fst sd = map (base bs) [r'..<length bs]"
      "holds_dir bs {r'..<length bs} (snd sd)"
    using assms(2) by (auto simp: trims_def)
  with assms(1) have "log_ok bs r' (set_local sd l)" by (simp add: log_ok_def set_local_def)
  with \<open>r \<le> r'\<close> show ?thesis by blast
qed

lemma clean_retention_ok:
  assumes "log_ok bs r l"
  shows "\<exists>r'. log_ok bs r' (clean_retention now l)"
proof -
  define l1 where "l1 = (case max_retention_size l of None \<Rightarrow> l
      | Some max_size \<Rightarrow> set_local (retention_size_loop (unat max_size) (segments l) (local_dir l)) l)"
  have "trims bs r (retention_size_loop m (segments l) (local_dir l))" for m
    using log_okD [OF assms] by (simp add: retention_size_loop_trims)
  from set_local_ok [OF assms this] have "\<exists>r1. log_ok bs r1 l1"
    using assms unfolding l1_def by (auto split: option.splits)
  then obtain r1 where ok: "log_ok bs r1 l1" by blast
  have "trims bs r1 (retention_age_loop now m (segments l1) (local_dir l1))" for m
    using log_okD [OF ok] by (simp add: retention_age_loop_trims)
  from set_local_ok [OF ok this] show ?thesis
    using ok unfolding clean_retention_def l1_def [symmetric] Let_def
    by (auto split: option.splits)
qed

lemma log_ok_high_watermark [simp]: "log_ok bs r (recompute_high_watermark l) = log_ok bs r l"
  by (simp add: log_ok_def recompute_high_watermark_def Let_def)

text \<open>Where the next message goes: into the active block, or into a new one.\<close>

definition append_block :: "nat \<Rightarrow> byte list \<Rightarrow> byte list list list \<Rightarrow> byte list list list" where
  "append_block limit m bs =
     (if length (concat (last bs)) + length m > limit \<and> concat (last bs) \<noteq> [] then bs @ [[m]]
      else butlast bs @ [last bs @ [m]])"

lemma concat_append_block: "bs \<noteq> [] \<Longrightarrow> concat (append_block limit m bs) = concat bs @ [m]"
  using concat_snoc_last [of bs m] by (simp add: append_block_def)

lemma append_log_blocks:
  assumes ok: "log_ok bs r l" and fits: "fits (concat bs @ [m])"
  shows "fst (append_log now m l) = word_of_nat (length (concat bs))"
    and "\<exists>r'. log_ok (append_block (unat (max_segment_size l)) m bs) r' (snd (append_log now m l))"
proof -
  let ?full = "length (concat (last bs)) + length m > unat (max_segment_size l) \<and> concat (last bs) \<noteq> []"
  define l1 where "l1 = (if ?full then roll_over now l else l)"
  define bs1 where "bs1 = (if ?full then bs @ [[]] else bs)"
  have log: "sf_log (active_file l) = concat (last bs)"
    using active_file_encodes(2) [OF ok] by (simp add: encodes_def)
  have app: "append_log now m l =
      (next_offset l1, recompute_high_watermark (clean_retention now (write_record now m l1)))"
    by (simp add: append_log_def l1_def Let_def log del: concat_eq_Nil_conv)
  have "last bs \<noteq> []" if ?full using that by auto
  then have bs1: "log_ok bs1 r l1" "concat bs1 = concat bs"
    using ok roll_over_ok [OF ok, of now] by (auto simp: l1_def bs1_def)
  have "append_block (unat (max_segment_size l)) m bs = butlast bs1 @ [last bs1 @ [m]]"
    by (simp add: append_block_def bs1_def del: concat_eq_Nil_conv)
  moreover obtain r' where "log_ok (butlast bs1 @ [last bs1 @ [m]]) r' (clean_retention now (write_record now m l1))"
    using clean_retention_ok [OF write_record_ok [OF bs1(1)], of m] fits bs1(2) by metis
  ultimately show "\<exists>r'. log_ok (append_block (unat (max_segment_size l)) m bs) r' (snd (append_log now m l))"
    unfolding app by (intro exI [of _ r']) simp
  show "fst (append_log now m l) = word_of_nat (length (concat bs))"
    using log_okD(4) [OF bs1(1)] bs1(2) by (simp add: app)
qed

lemma append_log_ok:
  assumes ok: "log_ok bs r l" and fits: "fits (concat bs @ [m])"
  shows "fst (append_log now m l) = word_of_nat (length (concat bs))"
    and "\<exists>bs' r'. concat bs' = concat bs @ [m] \<and> log_ok bs' r' (snd (append_log now m l))"
  using append_log_blocks [OF assms, of now] concat_append_block [OF log_okD(3) [OF ok]] by blast+

section \<open>Reading\<close>

text \<open>The block that an offset falls into.\<close>

lemma block_exists:
  assumes "blocks_ok bs"
  obtains j where "j < length bs" "start bs j \<le> n" "Suc j < length bs \<Longrightarrow> n < start bs (Suc j)"
    "\<And>i. i < length bs \<Longrightarrow> start bs i \<le> n \<longleftrightarrow> i \<le> j"
proof -
  define J where "J = {j. j < length bs \<and> start bs j \<le> n}"
  have J: "finite J" "0 \<in> J" using assms by (auto simp: J_def blocks_ok_def)
  define j where "j = Max J"
  have "j \<in> J" unfolding j_def using J by (intro Max_in) auto
  then have j: "j < length bs" "start bs j \<le> n" by (simp_all add: J_def)
  have max: "i \<le> j" if "i < length bs" "start bs i \<le> n" for i
    using Max_ge [OF J(1), of i] that by (simp add: j_def J_def)
  have "start bs i \<le> n \<longleftrightarrow> i \<le> j" if "i < length bs" for i
    using max [OF that] start_mono [of i j bs] j(2) by linarith
  moreover from this have "n < start bs (Suc j)" if "Suc j < length bs"
    using that by (metis Suc_n_not_le_n linorder_not_less)
  ultimately show ?thesis using that j by blast
qed

lemma boundary_bases:
  assumes "blocks_ok bs" "n < 2 ^ 64" "m \<le> length bs"
    and "\<And>i. i < length bs \<Longrightarrow> start bs i \<le> n \<longleftrightarrow> i \<le> j"
  shows "boundary (\<lambda>mid. map (base bs) [r..<m] ! mid \<le> word_of_nat n) (m - r) (min (Suc j - r) (m - r))"
  using assms(3,4) by (auto simp: boundary_def base_le_iff [OF assms(1,2)])

lemma find_cold_block:
  assumes bs: "blocks_ok bs" and n: "n < 2 ^ 64" and cold: "base_offsets (cold_dir l) = map (base bs) [0..<m]"
    and m: "m \<le> length bs" "j < m" and block: "\<And>i. i < length bs \<Longrightarrow> start bs i \<le> n \<longleftrightarrow> i \<le> j"
  shows "find_cold_segment (word_of_nat n) l = Some (base bs j)"
proof -
  let ?cold = "map (base bs) [0..<m]"
  have "search_last (\<lambda>mid. ?cold ! mid \<le> word_of_nat n) (\<lambda>mid. ?cold ! mid) 0 (m - 1) None =
      (if min (Suc j) m = 0 then None else Some (?cold ! (min (Suc j) m - 1)))"
    using boundary_bases [OF bs n m(1) block, of 0] m(2) by (intro search_last_all) auto
  moreover have "min (Suc j) m = Suc j" using m(2) by auto
  ultimately have "search_last (\<lambda>mid. ?cold ! mid \<le> word_of_nat n) (\<lambda>mid. ?cold ! mid) 0 (length ?cold - 1) None =
      Some (base bs j)"
    using m(2) by simp
  then show ?thesis using m(2) unfolding find_cold_segment_def cold Let_def by simp
qed

lemma find_segment_block:
  assumes ok: "log_ok bs r l" and n: "n < 2 ^ 64" and j: "j < length bs"
    and block: "\<And>i. i < length bs \<Longrightarrow> start bs i \<le> n \<longleftrightarrow> i \<le> j"
  shows "find_segment (word_of_nat n) l = Some (if r \<le> j then Local else Cold, base bs j)"
proof -
  note D = log_okD [OF ok]
  let ?segs = "map (base bs) [r..<length bs]"
  have first: "?segs ! 0 \<le> word_of_nat n \<longleftrightarrow> r \<le> j"
    using D(2) base_le_iff [OF D(1) n, of r] block [OF D(2)] by simp
  show ?thesis
  proof (cases "r \<le> j")
    case True
    have "search_last (\<lambda>mid. ?segs ! mid \<le> word_of_nat n) (\<lambda>mid. ?segs ! mid) 0 (length bs - r - 1) None =
        (if min (Suc j - r) (length bs - r) = 0 then None else Some (?segs ! (min (Suc j - r) (length bs - r) - 1)))"
      using boundary_bases [OF D(1) n order_refl block, of r] D(2) by (intro search_last_all) auto
    moreover have "min (Suc j - r) (length bs - r) = Suc (j - r)" using True j by auto
    ultimately have "search_last (\<lambda>mid. ?segs ! mid \<le> word_of_nat n) (\<lambda>mid. ?segs ! mid) 0 (length ?segs - 1) None =
        Some (base bs j)"
      using True j by simp
    then show ?thesis using True first D(2,3) unfolding find_segment_def D(5) Let_def by simp
  next
    case False
    have "base_offsets (cold_dir l) = map (base bs) [0..<length bs - 1]"
      using sorted_list_of_bases [OF D(1), of "length bs - 1" 0] D(7) by (simp add: base_offsets_def holds_dir_def)
    moreover have "j < length bs - 1" using False D(2) by auto
    ultimately have "find_cold_segment (word_of_nat n) l = Some (base bs j)"
      using find_cold_block [OF D(1) n _ _ _ block] by simp
    then show ?thesis using False first D(2,3) unfolding find_segment_def D(5) Let_def by simp
  qed
qed

lemma segment_file_block:
  assumes ok: "log_ok bs r l" and j: "j < length bs"
  shows "\<exists>f. segment_file (if r \<le> j then Local else Cold, base bs j) l = Some f \<and>
    encodes (start bs j) (bs ! j) f"
proof (cases "r \<le> j")
  case True
  then show ?thesis using log_okD(6) [OF ok] j by (auto simp: holds_dir_def segment_file_def)
next
  case False
  then have "j \<in> {0..<length bs - 1}" using log_okD(2) [OF ok] by auto
  then show ?thesis using False log_okD(7) [OF ok] by (auto simp: holds_dir_def segment_file_def)
qed

lemma nth_block:
  assumes "j < length bs" "start bs j \<le> n" "n < start bs j + length (bs ! j)"
  shows "concat bs ! n = bs ! j ! (n - start bs j)"
proof -
  have "concat bs ! n = drop (start bs j) (concat bs) ! (n - start bs j)"
    using assms(2) start_le [of bs j] by simp
  also have "\<dots> = bs ! j ! (n - start bs j)"
    using assms drop_concat_take [OF assms(1)] less_diff_conv2 [OF assms(2)]
    by (simp add: start_def nth_append add.commute)
  finally show ?thesis .
qed

definition read_bytes :: "u64 \<Rightarrow> u32 \<Rightarrow> PartitionLog \<Rightarrow> error + byte list option" where
  "read_bytes off n l = map_sum id (map_option file_bytes) (read_from_offset off n l)"

definition message_at :: "byte list list \<Rightarrow> u64 \<Rightarrow> u32 \<Rightarrow> byte list option" where
  "message_at ms off n =
     (if unat off < length ms \<and> take (unat n) (ms ! unat off) \<noteq> []
      then Some (take (unat n) (ms ! unat off)) else None)"

text \<open>Every read is one of a segment that encodes a block.\<close>

lemma read_from_block:
  assumes ok: "log_ok bs r l"
  obtains j f where "j < length bs" "start bs j \<le> unat off" "encodes (start bs j) (bs ! j) f"
    "unat off < start bs j + length (bs ! j) \<longleftrightarrow> unat off < length (concat bs)"
    "read_from_offset off n l = Inr (read_segment off n f)"
proof -
  note D = log_okD [OF ok]
  define k where "k = unat off"
  have k: "k < 2 ^ 64" "off = word_of_nat k" using unat_u64_less [of off] by (simp_all add: k_def)
  obtain j where j: "j < length bs" "start bs j \<le> k" "Suc j < length bs \<Longrightarrow> k < start bs (Suc j)"
      and block: "\<And>i. i < length bs \<Longrightarrow> start bs i \<le> k \<longleftrightarrow> i \<le> j"
    using block_exists [OF D(1), of k] by metis
  obtain f where f: "segment_file (if r \<le> j then Local else Cold, base bs j) l = Some f"
      "encodes (start bs j) (bs ! j) f"
    using segment_file_block [OF ok j(1)] by blast
  have sub: "start bs j + length (bs ! j) \<le> length (concat bs)"
    using start_le [of bs "Suc j"] start_Suc [OF j(1)] by simp
  have "k < start bs j + length (bs ! j) \<longleftrightarrow> k < length (concat bs)"
    using j start_Suc [OF j(1)] sub by (cases "Suc j < length bs") (auto simp: not_less le_Suc_eq)
  moreover have "read_from_offset off n l = Inr (read_segment off n f)"
    using find_segment_block [OF ok k(1) j(1) block] f k(2) by (simp add: read_from_offset_def encodes_def)
  ultimately show ?thesis using that j(1,2) f(2) by (simp add: k_def)
qed

lemma block_bounds:
  assumes ok: "log_ok bs r l" and j: "j < length bs"
  shows "start bs j + length (bs ! j) < 2 ^ 64" "length (concat (bs ! j)) < 2 ^ 64"
proof -
  have "start bs j + length (bs ! j) \<le> length (concat bs)"
    using start_le [of bs "Suc j"] start_Suc [OF j] by simp
  moreover have "length (concat (bs ! j)) \<le> length (concat (concat bs))"
    using arg_cong [OF id_take_nth_drop [OF j], of "\<lambda>bs. length (concat (concat bs))"] by simp
  ultimately show "start bs j + length (bs ! j) < 2 ^ 64" "length (concat (bs ! j)) < 2 ^ 64"
    using log_okD(1) [OF ok] by (auto simp: blocks_ok_def fits_def)
qed

lemma read_bytes_log_ok:
  assumes ok: "log_ok bs r l" and small: "\<forall>m \<in> set (concat bs). length m < 2 ^ 32"
  shows "read_bytes off n l = Inr (message_at (concat bs) off n)"
proof -
  obtain j f where j: "j < length bs" "start bs j \<le> unat off" "encodes (start bs j) (bs ! j) f"
      "unat off < start bs j + length (bs ! j) \<longleftrightarrow> unat off < length (concat bs)"
      "read_from_offset off n l = Inr (read_segment off n f)"
    using read_from_block [OF ok] .
  have "\<forall>m \<in> set (bs ! j). length m < 2 ^ 32" using small j(1) by auto
  then have "map_option file_bytes (read_segment off n f) = message_at (concat bs) off n"
    using read_segment_encodes [OF j(3) block_bounds [OF ok j(1)] _ j(2), of n] unat_u64_less [of off]
      nth_block [OF j(1,2)] j(4) by (auto simp: message_at_def)
  then show ?thesis using j(5) by (simp add: read_bytes_def)
qed

lemma read_in_file_log_ok:
  assumes ok: "log_ok bs r l" and small: "\<forall>m \<in> set (concat bs). length m < 2 ^ 32"
    and rd: "read_from_offset off n l = Inr (Some x)"
  shows "in_file x"
proof -
  obtain j f where j: "j < length bs" "start bs j \<le> unat off" "encodes (start bs j) (bs ! j) f"
      "read_from_offset off n l = Inr (read_segment off n f)"
    using read_from_block [OF ok] by metis
  have "\<forall>m \<in> set (bs ! j). length m < 2 ^ 32" using small j(1) by auto
  then show ?thesis
    using read_segment_in_file [OF j(3) block_bounds [OF ok j(1)] _ j(2), of n x] unat_u64_less [of off] j(4) rd
    by simp
qed

section \<open>Opening\<close>

lemma open_log_ok:
  assumes ok: "log_ok bs r l"
  shows "log_ok bs r (open_log now None (local_dir l) (cold_dir l) bid max_seg max_size max_age)"
proof -
  note D = log_okD [OF ok]
  let ?n = "length bs"
  have "base_offsets (local_dir l) = map (base bs) [r..<?n]"
    using D(6) sorted_list_of_bases [OF D(1), of ?n r] by (simp add: base_offsets_def holds_dir_def)
  moreover have "last (map (base bs) [r..<?n]) = base bs (?n - 1)"
    using last_segment [OF ok] D(5) by simp
  moreover have "open_create now (base bs (?n - 1)) (local_dir l) = active_file l"
    using active_file_encodes [OF ok] by (simp add: open_create_Some encodes_def)
  moreover have "last_indexed (base bs (?n - 1)) (active_file l) = word_of_nat (length (concat bs))"
    using last_indexed_encodes [OF active_file_encodes(2) [OF ok]]
    unfolding length_concat_last [OF D(3)] base_def .
  moreover have "(local_dir l)(base bs (?n - 1) \<mapsto> active_file l) = local_dir l"
    using active_file_encodes(1) [OF ok] by (simp add: map_upd_triv)
  moreover have "map (base bs) [r..<?n] \<noteq> []" using D(2,3) by simp
  ultimately show ?thesis
    using D by (simp add: open_log_def migrate_def log_ok_def Let_def)
qed

lemma open_log_empty:
  "log_ok [[]] 0 (open_log now None Map.empty Map.empty bid max_seg max_size max_age)"
  unfolding open_log_def Let_def log_ok_high_watermark
  by (simp add: migrate_def log_ok_def base_offsets_def blocks_ok_def fits_def
      holds_dir_def base_def open_create_def last_indexed_def empty_file_def encodes_def)

section \<open>The interface of the log\<close>

text \<open>
  What the data server and the followers rely on: a log represents a sequence of messages, appending
  extends it at the end and returns the index, reading returns what is there, and a restart keeps it.
\<close>

locale message_log =
  fixes represents :: "'s \<Rightarrow> byte list list \<Rightarrow> bool"
    and append :: "int \<Rightarrow> byte list \<Rightarrow> 's \<Rightarrow> u64 \<times> 's"
    and read :: "u64 \<Rightarrow> u32 \<Rightarrow> 's \<Rightarrow> error + byte list option"
  assumes append_offset: "represents s ms \<Longrightarrow> fits (ms @ [m]) \<Longrightarrow> fst (append now m s) = word_of_nat (length ms)"
    and append_represents: "represents s ms \<Longrightarrow> fits (ms @ [m]) \<Longrightarrow> represents (snd (append now m s)) (ms @ [m])"
    and read_represents: "represents s ms \<Longrightarrow> (\<forall>m \<in> set ms. length m < 2 ^ 32) \<Longrightarrow>
      read off n s = Inr (message_at ms off n)"
begin

lemma appends_represent:
  assumes "represents s ms" "fits (ms @ map snd ns)"
  shows "represents (fold (\<lambda>(now, m) s. snd (append now m s)) ns s) (ms @ map snd ns)"
  using assms
proof (induction ns arbitrary: s ms)
  case (Cons n ns)
  obtain now m where n: "n = (now, m)" by (cases n)
  have "fits (ms @ [m])" using Cons.prems(2) by (auto simp: fits_def n)
  then have "represents (snd (append now m s)) (ms @ [m])" using Cons.prems(1) by (rule append_represents [rotated])
  then show ?case using Cons.IH [of "snd (append now m s)" "ms @ [m]"] Cons.prems(2) by (simp add: n)
qed simp

lemma read_appended:
  assumes "represents s ms" "fits (ms @ [m])" "\<forall>m' \<in> set (ms @ [m]). length m' < 2 ^ 32"
  shows "read (fst (append now m s)) n (snd (append now m s)) =
    Inr (if take (unat n) m = [] then None else Some (take (unat n) m))"
proof -
  have "length ms < 2 ^ 64" using assms(2) by (simp add: fits_def)
  then have "unat (word_of_nat (length ms) :: u64) = length ms" by (rule unat_word_of_nat_u64)
  then show ?thesis
    using read_represents [OF append_represents [OF assms(1,2)] assms(3)] append_offset [OF assms(1,2)]
    by (simp add: message_at_def)
qed

end

interpretation plog: message_log holds append_log read_bytes
proof
  fix l ms m now
  assume h: "holds l ms" and f: "fits (ms @ [m])"
  then obtain bs r where ok: "log_ok bs r l" and ms: "concat bs = ms" by (auto simp: holds_def)
  show "fst (append_log now m l) = word_of_nat (length ms)"
    using append_log_ok(1) [OF ok, of m now] f ms by simp
  show "holds (snd (append_log now m l)) (ms @ [m])"
    using append_log_ok(2) [OF ok, of m now] f ms by (auto simp: holds_def)
next
  fix l ms off n
  assume "holds l ms" "\<forall>m \<in> set ms. length m < 2 ^ 32"
  then show "read_bytes off n l = Inr (message_at ms off n)"
    using read_bytes_log_ok by (auto simp: holds_def)
qed

lemma holds_open_log:
  "holds l ms \<Longrightarrow> holds (open_log now None (local_dir l) (cold_dir l) bid max_seg max_size max_age) ms"
  unfolding holds_def using open_log_ok by blast

lemma holds_empty: "holds (open_log now None Map.empty Map.empty bid max_seg max_size max_age) []"
  unfolding holds_def by (intro exI conjI) (rule open_log_empty, simp)

lemma holds_cong:
  "segments l' = segments l \<Longrightarrow> local_dir l' = local_dir l \<Longrightarrow> cold_dir l' = cold_dir l \<Longrightarrow>
   next_offset l' = next_offset l \<Longrightarrow> holds l' ms = holds l ms"
  by (simp add: holds_def log_ok_def)

lemma holds_next_offset: "holds l ms \<Longrightarrow> next_offset l = word_of_nat (length ms)"
  by (auto simp: holds_def log_ok_def)

lemma holds_fits: "holds l ms \<Longrightarrow> fits ms"
  by (auto simp: holds_def log_ok_def blocks_ok_def)

lemma holds_length: "holds l ms \<Longrightarrow> length ms = unat (next_offset l)"
  using holds_fits holds_next_offset by (simp add: fits_def unat_word_of_nat_u64)

lemma holds_read_in_file:
  assumes "holds l ms" "\<forall>m \<in> set ms. length m < 2 ^ 32" "read_from_offset off n l = Inr (Some x)"
  shows "in_file x"
  using assms read_in_file_log_ok unfolding holds_def by blast

end
