(* ===== verification/Log_Histories.thy ===== *)
theory Log_Histories
  imports Log_Refinement
begin

text \<open>
  What happens to a partition log on a broker: appends (\<open>produce\<close>, and the replication of a follower),
  reports of follower offsets (\<open>replica fetch\<close>), changes of the replica set (heartbeat responses,
  \<open>run_control_plane_loop\<close> in \<open>rust-broker/src/grpc/mod.rs\<close>) and restarts of the broker, in any
  order.  The properties relate the log after such a history to the messages appended in it.
\<close>

section \<open>Histories\<close>

definition assign_replicas :: "u32 list \<Rightarrow> PartitionLog \<Rightarrow> PartitionLog" where
  "assign_replicas ids l = recompute_high_watermark (l\<lparr>replica_ids := ids\<rparr>)"

definition restart :: "int \<Rightarrow> PartitionLog \<Rightarrow> PartitionLog" where
  "restart now l = open_log now None (local_dir l) (cold_dir l) (broker_id l)
     (max_segment_size l) (max_retention_size l) (max_retention_age l)"

datatype log_op =
    AppendOp int "byte list"
  | FollowerOp u32 u64
  | AssignOp "u32 list"
  | RestartOp int

fun exec_op :: "log_op \<Rightarrow> PartitionLog \<Rightarrow> PartitionLog" where
  "exec_op (AppendOp now m) l = snd (append_log now m l)"
| "exec_op (FollowerOp replica off) l = update_follower_offset replica off l"
| "exec_op (AssignOp ids) l = assign_replicas ids l"
| "exec_op (RestartOp now) l = restart now l"

fun appended :: "log_op list \<Rightarrow> byte list list" where
  "appended [] = []"
| "appended (AppendOp now m # ops) = m # appended ops"
| "appended (FollowerOp replica off # ops) = appended ops"
| "appended (AssignOp ids # ops) = appended ops"
| "appended (RestartOp now # ops) = appended ops"

definition fresh_log :: "int \<Rightarrow> u32 \<Rightarrow> u64 \<Rightarrow> u64 option \<Rightarrow> int option \<Rightarrow> PartitionLog" where
  "fresh_log now bid max_seg max_size max_age = open_log now None Map.empty Map.empty bid max_seg max_size max_age"

lemma exec_op_holds:
  assumes "holds l ms" "fits (ms @ appended [opn])"
  shows "holds (exec_op opn l) (ms @ appended [opn])"
proof (cases opn)
  case (AppendOp now m)
  then show ?thesis using assms plog.append_represents by simp
next
  case (FollowerOp replica off)
  have "holds (update_follower_offset replica off l) ms = holds l ms"
    by (rule holds_cong) (simp_all add: update_follower_offset_def)
  then show ?thesis using assms FollowerOp by simp
next
  case (AssignOp ids)
  have "holds (assign_replicas ids l) ms = holds l ms"
    by (rule holds_cong) (simp_all add: assign_replicas_def)
  then show ?thesis using assms AssignOp by simp
next
  case (RestartOp now)
  then show ?thesis using assms(1) by (simp add: restart_def holds_open_log)
qed

lemma appended_append: "appended (xs @ ys) = appended xs @ appended ys"
  by (induction xs rule: appended.induct) auto

lemma fits_prefix: "fits (xs @ ys) \<Longrightarrow> fits xs"
  by (simp add: fits_def)

lemma fits_take: "fits ms \<Longrightarrow> fits (take k ms)"
  by (metis append_take_drop_id fits_prefix)

lemma fold_exec_holds:
  assumes "holds l ms" "fits (ms @ appended ops)"
  shows "holds (fold exec_op ops l) (ms @ appended ops)"
  using assms
proof (induction ops arbitrary: l ms)
  case (Cons opn ops)
  have split: "ms @ appended (opn # ops) = (ms @ appended [opn]) @ appended ops"
    using appended_append [of "[opn]" ops] by simp
  then have "holds (exec_op opn l) (ms @ appended [opn])"
    using Cons.prems by (metis exec_op_holds fits_prefix)
  then show ?case using Cons.IH [of "exec_op opn l"] Cons.prems(2) by (simp only: split fold_simps)
qed simp

section \<open>High watermark\<close>

definition follower_progress :: "PartitionLog \<Rightarrow> u32 \<Rightarrow> u64" where
  "follower_progress l r = (case replica_offsets l r of Some v \<Rightarrow> v | None \<Rightarrow> 0)"

definition other_replicas :: "PartitionLog \<Rightarrow> u32 set" where
  "other_replicas l = set (replica_ids l) - {broker_id l}"

lemma min_replica_Min:
  "min_replica ro rs m = Min (insert m ((\<lambda>r. case ro r of Some v \<Rightarrow> v | None \<Rightarrow> 0) ` set rs))"
proof (induction rs arbitrary: m)
  case (Cons r rs)
  let ?g = "\<lambda>r. case ro r of Some v \<Rightarrow> v | None \<Rightarrow> 0"
  have "min_replica ro (r # rs) m = min_replica ro rs (min (?g r) m)"
    by (simp add: Let_def min_def) (metis order_le_less not_less)
  also have "\<dots> = Min (insert (min (?g r) m) (?g ` set rs))" by (rule Cons)
  also have "\<dots> = Min (insert m (?g ` set (r # rs)))"
    by (cases "set rs = {}") (simp_all add: min.assoc min.commute min.left_commute)
  finally show ?case .
qed simp

lemma high_watermark_Min:
  "high_watermark (recompute_high_watermark l) = Min (insert (next_offset l) (follower_progress l ` other_replicas l))"
proof (cases "filter (\<lambda>id. id \<noteq> broker_id l) (replica_ids l) = []")
  case True
  then have "other_replicas l = {}" by (auto simp: other_replicas_def filter_empty_conv)
  with True show ?thesis by (simp add: recompute_high_watermark_def Let_def)
next
  case False
  have "set (filter (\<lambda>id. id \<noteq> broker_id l) (replica_ids l)) = other_replicas l" by (auto simp: other_replicas_def)
  with False show ?thesis
    by (simp add: recompute_high_watermark_def Let_def min_replica_Min follower_progress_def)
qed

definition hw_ok :: "PartitionLog \<Rightarrow> bool" where
  "hw_ok l \<longleftrightarrow> high_watermark l = Min (insert (next_offset l) (follower_progress l ` other_replicas l))"

lemma hw_ok_recompute [simp]: "hw_ok (recompute_high_watermark l)"
  unfolding hw_ok_def high_watermark_Min
  by (simp add: follower_progress_def other_replicas_def)

lemma exec_op_hw_ok: "hw_ok (exec_op opn l)"
  by (cases opn) (simp_all add: append_log_def update_follower_offset_def assign_replicas_def restart_def
      open_log_def Let_def)

lemma fold_exec_hw_ok: "hw_ok l \<Longrightarrow> hw_ok (fold exec_op ops l)"
  by (induction ops arbitrary: l) (auto simp: exec_op_hw_ok)

section \<open>The layout on disk\<close>

definition block_history :: "nat \<Rightarrow> byte list list \<Rightarrow> byte list list list" where
  "block_history limit ms = fold (append_block limit) ms [[]]"

lemma exec_op_blocks:
  assumes "log_ok bs r l" "fits (concat bs @ appended [opn])"
  shows "\<exists>r'. log_ok (fold (append_block (unat (max_segment_size l))) (appended [opn]) bs) r' (exec_op opn l) \<and>
    max_segment_size (exec_op opn l) = max_segment_size l"
proof (cases opn)
  case (AppendOp now m)
  then show ?thesis using append_log_blocks(2) [OF assms(1), of m now] assms(2) by simp
next
  case (FollowerOp replica off)
  then show ?thesis using assms(1) by (auto simp: update_follower_offset_def log_ok_def)
next
  case (AssignOp ids)
  then show ?thesis using assms(1) by (auto simp: assign_replicas_def log_ok_def)
next
  case (RestartOp now)
  then show ?thesis using open_log_ok [OF assms(1)] by (simp add: restart_def) blast
qed

lemma append_block_nonempty [simp]: "append_block limit m bs \<noteq> []"
  by (simp add: append_block_def)

lemma concat_fold_append_block:
  "bs \<noteq> [] \<Longrightarrow> concat (fold (append_block limit) ms bs) = concat bs @ ms"
  by (induction ms arbitrary: bs) (simp_all add: concat_append_block)

lemma history_blocks:
  assumes "fits (appended ops)"
  shows "\<exists>r. log_ok (block_history (unat max_seg) (appended ops)) r
    (fold exec_op ops (fresh_log now bid max_seg max_size max_age))"
proof -
  have "\<exists>r'. log_ok (fold (append_block (unat (max_segment_size l))) (appended ops) bs) r' (fold exec_op ops l)"
    if "log_ok bs r l" "fits (concat bs @ appended ops)" for bs r l
    using that
  proof (induction ops arbitrary: bs r l)
    case (Cons opn ops)
    have app: "appended (opn # ops) = appended [opn] @ appended ops" using appended_append [of "[opn]" ops] by simp
    let ?bs = "fold (append_block (unat (max_segment_size l))) (appended [opn]) bs"
    have c: "concat ?bs = concat bs @ appended [opn]" using log_okD(3) [OF Cons.prems(1)] by (rule concat_fold_append_block)
    have "fits (concat bs @ appended [opn])" using Cons.prems(2) fits_prefix app by (metis append_assoc)
    then obtain r' where "log_ok ?bs r' (exec_op opn l)" and m: "max_segment_size (exec_op opn l) = max_segment_size l"
      using exec_op_blocks [OF Cons.prems(1)] by blast
    moreover have "fits (concat ?bs @ appended ops)" using Cons.prems(2) by (simp add: c app)
    ultimately show ?case using Cons.IH by (simp add: app) (metis m)
  qed auto
  from this [OF open_log_empty, of now bid max_seg max_size max_age] assms show ?thesis
    by (simp add: block_history_def fresh_log_def)
qed

definition small_block :: "nat \<Rightarrow> byte list list \<Rightarrow> bool" where
  "small_block limit b \<longleftrightarrow> length (concat b) \<le> limit \<or> (\<exists>m \<in> set b. concat b = m)"

lemma append_block_small:
  assumes "\<forall>b \<in> set bs. small_block limit b" "bs \<noteq> []"
  shows "\<forall>b \<in> set (append_block limit m bs). small_block limit b"
proof -
  have "small_block limit (last bs @ [m])"
    if "\<not> (length (concat (last bs)) + length m > limit \<and> concat (last bs) \<noteq> [])"
    using that by (cases "concat (last bs) = []") (auto simp: small_block_def simp del: concat_eq_Nil_conv)
  moreover have "small_block limit [m]" by (simp add: small_block_def)
  ultimately show ?thesis using assms by (auto simp: append_block_def dest: in_set_butlastD simp del: concat_eq_Nil_conv)
qed

lemma block_history_small: "\<forall>b \<in> set (block_history limit ms). small_block limit b"
proof -
  have "\<forall>b \<in> set (fold (append_block limit) ms bs). small_block limit b"
    if "\<forall>b \<in> set bs. small_block limit b" "bs \<noteq> []" for bs
    using that
  proof (induction ms arbitrary: bs)
    case (Cons m ms)
    then show ?case using Cons.IH [OF append_block_small [OF Cons.prems, of m]] by simp
  qed simp
  from this [of "[[]]"] show ?thesis by (simp add: block_history_def small_block_def)
qed

lemma concat_block_history: "concat (block_history limit ms) = ms"
  by (simp add: block_history_def concat_fold_append_block)

lemma log_ok_file:
  assumes "log_ok bs r l" "local_dir l c = Some f \<or> cold_dir l c = Some f"
  obtains b where "b \<in> set bs" "sf_log f = concat b"
proof -
  have sub: "holds_dir bs {r..<length bs} (local_dir l)" "holds_dir bs {0..<length bs - 1} (cold_dir l)"
    using log_okD(6,7) [OF assms(1)] .
  have "\<exists>b \<in> set bs. sf_log f = concat b"
    if d: "holds_dir bs I d" "I \<subseteq> {..<length bs}" "d c = Some f" for I d
  proof -
    have "c \<in> base bs ` I" using d(1,3) by (auto simp: holds_dir_def)
    then obtain k where k: "k \<in> I" "c = base bs k" by blast
    then have "encodes (start bs k) (bs ! k) f" using d(1,3) by (auto simp: holds_dir_def)
    moreover have "bs ! k \<in> set bs" using k(1) d(2) by auto
    ultimately show ?thesis by (auto simp: encodes_def)
  qed
  from this [OF sub(1)] this [OF sub(2)] have "\<exists>b \<in> set bs. sf_log f = concat b" using assms(2) by fastforce
  then show ?thesis using that by blast
qed

section \<open>Properties\<close>

lemma history_holds:
  "fits (appended ops) \<Longrightarrow> holds (fold exec_op ops (fresh_log now bid max_seg max_size max_age)) (appended ops)"
  using fold_exec_holds [OF holds_empty] by (simp add: fresh_log_def)

lemma history_hw_ok: "hw_ok (fold exec_op ops (fresh_log now bid max_seg max_size max_age))"
  by (rule fold_exec_hw_ok) (simp add: fresh_log_def open_log_def Let_def)

text \<open>
  C4: the log implements a sequence of messages.  After any history of appends, follower
  reports, replica assignments and restarts, with any segment size and any retention limits, the
  next append gets the number of messages appended so far as its offset, and reading at any
  offset returns that message, cut to the requested size, from local or cold storage; it reports
  no data beyond the end, and also for an empty message.
\<close>

theorem log_reads_back:
  fixes ops now bid max_seg max_size max_age
  defines "l \<equiv> fold exec_op ops (fresh_log now bid max_seg max_size max_age)"
  assumes "fits (appended ops @ [m])" "\<forall>m' \<in> set (appended ops). length m' < 2 ^ 32"
  shows "read_bytes off n l = Inr (message_at (appended ops) off n) \<and>
    fst (append_log t m l) = word_of_nat (length (appended ops))"
proof -
  have h: "holds l (appended ops)" unfolding l_def by (rule history_holds [OF fits_prefix [OF assms(2)]])
  show ?thesis using plog.read_represents [OF h assms(3)] plog.append_offset [OF h assms(2)] by simp
qed

text \<open>
  What a history, latest operation first, says since the last restart: the replicas that the latest
  assignment named, and the offset of the latest request of each follower.
\<close>

fun assigned :: "log_op list \<Rightarrow> u32 list" where
  "assigned [] = []"
| "assigned (AssignOp ids # h) = ids"
| "assigned (RestartOp now # h) = []"
| "assigned (opn # h) = assigned h"

fun asked_for :: "log_op list \<Rightarrow> u32 \<Rightarrow> u64 option" where
  "asked_for [] r = None"
| "asked_for (FollowerOp replica off # h) r = (if r = replica then Some off else asked_for h r)"
| "asked_for (RestartOp now # h) r = None"
| "asked_for (opn # h) r = asked_for h r"

lemma history_replicas:
  fixes ops now bid max_seg max_size max_age
  defines "l \<equiv> fold exec_op ops (fresh_log now bid max_seg max_size max_age)"
  shows "broker_id l = bid" "replica_ids l = assigned (rev ops)" "replica_offsets l = asked_for (rev ops)"
proof -
  have "broker_id l = bid \<and> replica_ids l = assigned (rev ops) \<and> replica_offsets l = asked_for (rev ops)"
    unfolding l_def
  proof (induction ops rule: rev_induct)
    case Nil
    show ?case by (simp add: fresh_log_def open_log_def Let_def fun_eq_iff)
  next
    case (snoc opn ops)
    then show ?case
      by (cases opn) (auto simp: update_follower_offset_def assign_replicas_def restart_def open_log_def Let_def fun_eq_iff)
  qed
  then show "broker_id l = bid" "replica_ids l = assigned (rev ops)" "replica_offsets l = asked_for (rev ops)" by simp_all
qed

text \<open>
  C19: the high watermark.  After any history of a log, an offset lies below the high watermark exactly when a
  message has been appended under it and, since the last restart, the latest request of every other replica in the
  latest assigned set asked for an offset beyond it.  With no assignment since the restart, the first condition is all.
\<close>

theorem below_high_watermark_iff:
  assumes "fits (appended ops)"
  shows "off < high_watermark (fold exec_op ops (fresh_log now bid max_seg max_size max_age)) \<longleftrightarrow>
    unat off < length (appended ops) \<and>
    (\<forall>r \<in> set (assigned (rev ops)) - {bid}. \<exists>asked. asked_for (rev ops) r = Some asked \<and> off < asked)"
proof -
  let ?l = "fold exec_op ops (fresh_log now bid max_seg max_size max_age)"
  note h = history_replicas [of ops now bid max_seg max_size max_age]
  have "off < follower_progress ?l r \<longleftrightarrow> (\<exists>asked. asked_for (rev ops) r = Some asked \<and> off < asked)" for r
    by (simp add: follower_progress_def h split: option.split)
  moreover have "other_replicas ?l = set (assigned (rev ops)) - {bid}" by (auto simp: other_replicas_def h)
  moreover have "off < next_offset ?l \<longleftrightarrow> unat off < length (appended ops)"
    using holds_next_offset [OF history_holds [OF assms]] assms
    by (simp add: word_less_nat_alt unat_word_of_nat_u64 fits_def)
  ultimately show ?thesis
    using history_hw_ok [of ops now bid max_seg max_size max_age] by (simp add: hw_ok_def)
qed

text \<open>
  A restart forgets the replica set, so until the next heartbeat response every message of the
  log lies below the high watermark, whatever the followers have.
\<close>

lemma restart_exposes_all:
  fixes ops now bid max_seg max_size max_age
  defines "l \<equiv> fold exec_op ops (fresh_log now bid max_seg max_size max_age)"
  assumes "fits (appended ops)"
  shows "high_watermark (restart t l) = word_of_nat (length (appended ops))"
proof -
  have "holds (restart t l) (appended ops)"
    unfolding l_def restart_def using assms(2) by (intro holds_open_log history_holds)
  moreover have "high_watermark (restart t l) = next_offset (restart t l)"
    by (simp add: restart_def open_log_def recompute_high_watermark_def Let_def)
  ultimately show ?thesis by (simp add: holds_next_offset)
qed

theorem log_reads_back_witness:
  "read_bytes 1 65536 (fold exec_op [AppendOp 5 [1], RestartOp 6, AssignOp [1, 2], AppendOp 7 [2, 3]]
     (fresh_log 0 1 210 (Some 100) None)) = Inr (Some [2, 3])"
  using log_reads_back [of "[AppendOp 5 [1], RestartOp 6, AssignOp [1, 2], AppendOp 7 [2, 3]]" "[]" 1 65536
      0 1 210 "Some 100" None 0]
  by (simp add: fits_def message_at_def)

theorem below_high_watermark_iff_witness:
  "\<not> (0 :: u64) < high_watermark (fold exec_op [AppendOp 5 [1], AssignOp [1, 2]] (fresh_log 0 1 210 None None)) \<and>
   0 < high_watermark (fold exec_op [AppendOp 5 [1], AssignOp [1, 2], FollowerOp 2 1] (fresh_log 0 1 210 None None)) \<and>
   \<not> 0 < high_watermark (fold exec_op [AppendOp 5 [1], AssignOp [1, 2], FollowerOp 2 1, FollowerOp 2 0] (fresh_log 0 1 210 None None))"
  using below_high_watermark_iff [of "[AppendOp 5 [1], AssignOp [1, 2]]" 0 0 1 210 None None]
    below_high_watermark_iff [of "[AppendOp 5 [1], AssignOp [1, 2], FollowerOp 2 1]" 0 0 1 210 None None]
    below_high_watermark_iff [of "[AppendOp 5 [1], AssignOp [1, 2], FollowerOp 2 1, FollowerOp 2 0]" 0 0 1 210 None None]
  by (simp add: fits_def)

lemma restart_exposes_all_example:
  "high_watermark (restart 9 (fold exec_op [AssignOp [1, 2], AppendOp 5 [1]] (fresh_log 0 1 210 None None))) = 1"
  using restart_exposes_all [of "[AssignOp [1, 2], AppendOp 5 [1]]" 9 0 1 210 None None] by (simp add: fits_def)

text \<open>
  C36: the segment size is kept.  After any history, the log file of every segment, local or cold, is
  no longer than the segment size, unless it consists of a single message that alone exceeds it.
\<close>

theorem segments_bounded:
  fixes ops now bid max_seg max_size max_age
  defines "l \<equiv> fold exec_op ops (fresh_log now bid max_seg max_size max_age)"
  assumes "fits (appended ops)" "local_dir l c = Some f \<or> cold_dir l c = Some f"
  shows "length (sf_log f) \<le> unat max_seg \<or> (\<exists>m \<in> set (appended ops). sf_log f = m)"
proof -
  let ?bs = "block_history (unat max_seg) (appended ops)"
  obtain r where "log_ok ?bs r l" using history_blocks [OF assms(2)] unfolding l_def by blast
  then obtain b where b: "b \<in> set ?bs" "sf_log f = concat b" using log_ok_file assms(3) by blast
  have "set b \<subseteq> set (appended ops)"
    using b(1) arg_cong [OF concat_block_history [of "unat max_seg" "appended ops"], of set] by auto
  then show ?thesis using block_history_small b by (auto simp: small_block_def)
qed

theorem segments_bounded_witness:
  "\<exists>f. local_dir (fold exec_op [AppendOp 0 [1, 2, 3]] (fresh_log 0 1 2 None None)) 0 = Some f \<and>
     (length (sf_log f) \<le> 2 \<or> sf_log f = [1, 2, 3])"
proof -
  let ?l = "fold exec_op [AppendOp 0 [1, 2, 3]] (fresh_log 0 1 2 None None)"
  have "0 \<in> dom (local_dir ?l)"
    by (simp add: append_log_def fresh_log_def open_log_def clean_retention_def write_record_def active_file_def
        open_create_def empty_file_def migrate_def base_offsets_def recompute_high_watermark_def Let_def)
  then obtain f where f: "local_dir ?l 0 = Some f" by blast
  then show ?thesis
    using segments_bounded [of "[AppendOp 0 [1, 2, 3]]" 0 1 2 None None 0 f] by (simp add: fits_def)
qed

end
