(* ===== verification/Log_Manager.thy ===== *)
theory Log_Manager
  imports Log_Histories
begin

text \<open>
  The broker's table of partition logs (\<open>LogManager\<close> in \<open>rust-broker/src/log/manager.rs\<close>).  A log is
  opened when its partition is first used, from the files that are then in its directories;
  afterwards the table has it.  The directories of different partitions are taken to be disjoint,
  which holds for topic names without path separators.  Times are in nanoseconds.
\<close>

section \<open>State\<close>

record partition_dir =
  pd_legacy :: "(byte list \<times> byte list option \<times> int) option"
  pd_local :: "u64 \<rightharpoonup> seg_file"
  pd_cold :: "u64 \<rightharpoonup> seg_file"

type_synonym partition_key = "string \<times> u32"

record LogManager =
  base_dir :: "partition_key \<Rightarrow> partition_dir"
  lm_broker_id :: u32
  lm_max_segment_size :: u64
  lm_max_retention_size :: "u64 option"
  lm_max_retention_age :: "int option"
  partitions :: "partition_key \<rightharpoonup> PartitionLog"

definition NewLogManager :: "(partition_key \<Rightarrow> partition_dir) \<Rightarrow> u32 \<Rightarrow> LogManager" where
  "NewLogManager dir bid = \<lparr>base_dir = dir, lm_broker_id = bid, lm_max_segment_size = 210,
     lm_max_retention_size = Some (256 * 1024), lm_max_retention_age = Some (3600 * 10 ^ 9),
     partitions = Map.empty\<rparr>"

definition with_limits :: "u64 \<Rightarrow> u64 option \<Rightarrow> int option \<Rightarrow> LogManager \<Rightarrow> LogManager" where
  "with_limits max_seg max_size max_age lm =
     lm\<lparr>lm_max_segment_size := max_seg, lm_max_retention_size := max_size, lm_max_retention_age := max_age\<rparr>"

section \<open>Operations\<close>

definition open_partition :: "int \<Rightarrow> partition_key \<Rightarrow> LogManager \<Rightarrow> PartitionLog" where
  "open_partition now key lm =
     open_log now (pd_legacy (base_dir lm key)) (pd_local (base_dir lm key)) (pd_cold (base_dir lm key))
       (lm_broker_id lm) (lm_max_segment_size lm) (lm_max_retention_size lm) (lm_max_retention_age lm)"

definition get_partition :: "int \<Rightarrow> partition_key \<Rightarrow> LogManager \<Rightarrow> PartitionLog \<times> LogManager" where
  "get_partition now key lm =
     (case partitions lm key of
        Some l \<Rightarrow> (l, lm)
      | None \<Rightarrow>
          let l = open_partition now key lm in (l, lm\<lparr>partitions := (partitions lm)(key \<mapsto> l)\<rparr>))"

text \<open>The log is shared: what a task does to it under its lock, the table has.\<close>

definition put_partition :: "partition_key \<Rightarrow> PartitionLog \<Rightarrow> LogManager \<Rightarrow> LogManager" where
  "put_partition key l lm = lm\<lparr>partitions := (partitions lm)(key \<mapsto> l)\<rparr>"

text \<open>\<open>ks\<close> is the order in which the hash map is iterated.\<close>

definition get_all_offsets :: "partition_key list \<Rightarrow> LogManager \<Rightarrow> (string \<times> u32 \<times> i64) list" where
  "get_all_offsets ks lm =
     map (\<lambda>((topic, part), l). (topic, part, next_offset l)) (range_entries ks (partitions lm))"

section \<open>What a partition holds\<close>

definition current_log :: "int \<Rightarrow> partition_key \<Rightarrow> LogManager \<Rightarrow> PartitionLog" where
  "current_log now key lm = fst (get_partition now key lm)"

definition stores :: "LogManager \<Rightarrow> partition_key \<Rightarrow> byte list list \<Rightarrow> bool" where
  "stores lm key ms \<longleftrightarrow> (\<forall>now. holds (current_log now key lm) ms)"

text \<open>There is room for another message: its offset and its file position still fit into 64 bits.\<close>

definition has_room :: "LogManager \<Rightarrow> partition_key \<Rightarrow> byte list \<Rightarrow> bool" where
  "has_room lm key m \<longleftrightarrow> (\<forall>ms. stores lm key ms \<longrightarrow> fits (ms @ [m]))"

lemma current_log_put [simp]:
  "current_log now key (put_partition key' l lm) = (if key = key' then l else current_log now key lm)"
  by (simp add: current_log_def get_partition_def put_partition_def open_partition_def Let_def split: option.split)

lemma current_log_get [simp]: "current_log now key (snd (get_partition now' key' lm)) =
   (if key = key' \<and> partitions lm key = None then current_log now' key lm else current_log now key lm)"
  by (auto simp: current_log_def get_partition_def open_partition_def Let_def split: option.split)

lemma get_partition_put: "snd (get_partition now key (put_partition key l lm)) = put_partition key l lm"
  by (simp add: get_partition_def put_partition_def)

lemma put_get: "put_partition key l (snd (get_partition now key lm)) = put_partition key l lm"
  by (simp add: get_partition_def put_partition_def Let_def split: option.split)

lemma stores_put: "stores (put_partition key l lm) key ms \<longleftrightarrow> holds l ms"
  by (simp add: stores_def)

lemma stores_put_other: "key' \<noteq> key \<Longrightarrow> stores (put_partition key l lm) key' ms \<longleftrightarrow> stores lm key' ms"
  by (simp add: stores_def)

lemma stores_get: "stores lm key ms \<Longrightarrow> stores (snd (get_partition now key' lm)) key ms"
  by (auto simp: stores_def)

lemma stores_fresh:
  assumes "partitions lm key = None" "base_dir lm key = \<lparr>pd_legacy = None, pd_local = Map.empty, pd_cold = Map.empty\<rparr>"
  shows "stores lm key []"
  using assms by (simp add: stores_def current_log_def get_partition_def open_partition_def Let_def holds_empty)

text \<open>The heartbeat reports the number of messages of every open partition.\<close>

lemma get_all_offsets_stores:
  assumes "range_ok ks (partitions lm)" "partitions lm (topic, part) = Some l" "holds l ms"
  shows "(topic, part, word_of_nat (length ms)) \<in> set (get_all_offsets ks lm)"
  using assms by (force simp: get_all_offsets_def range_entries_ok holds_next_offset image_iff)

end
