(* ===== verification/Data_Protocol.thy ===== *)
theory Data_Protocol
  imports Client UTF8
begin

text \<open>
  The broker's side of the data-plane protocol: the request parser of \<open>handle_connection\<close>
  (\<open>rust-broker/src/net/server.rs\<close>) and the replica-fetch request that a follower builds
  (\<open>replicate_partition\<close> in \<open>rust-broker/src/grpc/mod.rs\<close>).  The lemmas relate the parser to the
  frames of the Go client and of the follower.
\<close>

section \<open>Parsing\<close>

datatype request =
    ReqProduce string u32 "byte list"
  | ReqFetch string u32 u64 u32
  | ReqReplicaFetch u32 string u32 u64 u32

definition utf8_error :: error where
  "utf8_error = ''invalid utf-8 sequence''"

definition from_utf8 :: "byte list \<Rightarrow> error + string" where
  "from_utf8 bs = (if valid_utf8 (string_of bs) then Inr (string_of bs) else Inl utf8_error)"

definition parse_produce :: "byte list \<Rightarrow> error + request" where
  "parse_produce body =
     (if length body < 10 then Inl ''Produce body too short''
      else
        let topic_len = unat (Uint16 (slice 0 2 body)) in
        if length body < 10 + topic_len then Inl ''Produce topic length exceeds body size''
        else
          case from_utf8 (slice 2 (2 + topic_len) body) of
            Inl e \<Rightarrow> Inl e
          | Inr topic \<Rightarrow>
              let part = Uint32 (slice (2 + topic_len) (6 + topic_len) body);
                  payload_len = unat (Uint32 (slice (6 + topic_len) (10 + topic_len) body))
              in if length body < 10 + topic_len + payload_len then Inl ''Produce payload length mismatch''
                 else Inr (ReqProduce topic part
                        (slice (10 + topic_len) (10 + topic_len + payload_len) body)))"

definition parse_fetch :: "byte list \<Rightarrow> error + request" where
  "parse_fetch body =
     (if length body < 18 then Inl ''Fetch body too short''
      else
        let topic_len = unat (Uint16 (slice 0 2 body)) in
        if length body < 18 + topic_len then Inl ''Fetch topic length exceeds body size''
        else
          case from_utf8 (slice 2 (2 + topic_len) body) of
            Inl e \<Rightarrow> Inl e
          | Inr topic \<Rightarrow>
              Inr (ReqFetch topic
                (Uint32 (slice (2 + topic_len) (6 + topic_len) body))
                (Uint64 (slice (6 + topic_len) (14 + topic_len) body))
                (Uint32 (slice (14 + topic_len) (18 + topic_len) body))))"

definition parse_replica_fetch :: "byte list \<Rightarrow> error + request" where
  "parse_replica_fetch body =
     (if length body < 22 then Inl ''Replica Fetch body too short''
      else
        let replica_id = Uint32 (slice 0 4 body);
            topic_len = unat (Uint16 (slice 4 6 body))
        in if length body < 22 + topic_len then Inl ''Replica Fetch topic length exceeds body size''
           else
             case from_utf8 (slice 6 (6 + topic_len) body) of
               Inl e \<Rightarrow> Inl e
             | Inr topic \<Rightarrow>
                 Inr (ReqReplicaFetch replica_id topic
                   (Uint32 (slice (6 + topic_len) (10 + topic_len) body))
                   (Uint64 (slice (10 + topic_len) (18 + topic_len) body))
                   (Uint32 (slice (18 + topic_len) (22 + topic_len) body))))"

definition parse_body :: "byte \<Rightarrow> byte list \<Rightarrow> error + request" where
  "parse_body cmd body =
     (if cmd = 1 then parse_produce body
      else if cmd = 2 then parse_fetch body
      else if cmd = 3 then parse_replica_fetch body
      else Inl (''Unknown protocol command: '' @ show_nat (unat cmd)))"

text \<open>
  One turn of the loop on the bytes received so far: the connection is closed, it fails, or a request
  is read and bytes remain.  The connection stays open, so a turn that lacks bytes waits for them;
  here the bytes are all there are before the peer closes.
\<close>

datatype read_result = Closed | Failed error | Request request "byte list"

definition read_request :: "byte list \<Rightarrow> read_result" where
  "read_request input =
     (if length input < 7 then Closed
      else
        let header = take 7 input; rest = drop 7 input in
        if header ! 0 \<noteq> 0xAE \<or> header ! 1 \<noteq> 0x01 then Failed ''Invalid protocol magic bytes''
        else
          let cmd = header ! 2; body_len = unat (Uint32 (slice 3 7 header)) in
          if length rest < body_len then Failed ''early eof''
          else case parse_body cmd (take body_len rest) of
                 Inl e \<Rightarrow> Failed e
               | Inr r \<Rightarrow> Request r (drop body_len rest))"

section \<open>The follower's request\<close>

definition replica_fetch_body :: "u32 \<Rightarrow> string \<Rightarrow> u32 \<Rightarrow> u64 \<Rightarrow> byte list" where
  "replica_fetch_body broker_id topic part next_offset =
     PutUint32 broker_id @ PutUint16 (word_of_nat (length topic)) @ bytes_of topic @
     PutUint32 part @ PutUint64 next_offset @ PutUint32 65536"

definition replica_fetch_request :: "u32 \<Rightarrow> string \<Rightarrow> u32 \<Rightarrow> u64 \<Rightarrow> byte list" where
  "replica_fetch_request broker_id topic part next_offset =
     frame_header 3 (4 + 2 + length topic + 4 + 8 + 4) @ replica_fetch_body broker_id topic part next_offset"

section \<open>Frames are read back\<close>

lemma unat_of_length_u16: "n < 65536 \<Longrightarrow> unat (word_of_nat n :: u16) = n"
  by (simp add: unsigned_of_nat take_bit_nat_eq_self)

lemma unat_of_length_u32: "n < 4294967296 \<Longrightarrow> unat (word_of_nat n :: u32) = n"
  by (simp add: unsigned_of_nat take_bit_nat_eq_self)

lemma slice_0: "slice 0 (length xs) (xs @ ys) = xs"
  by (simp add: slice_def)

lemma slice_skip: "k = length xs \<Longrightarrow> slice (k + a) (k + b) (xs @ ys) = slice a b ys"
  by (simp add: slice_def)

lemma slice_at:
  "lo = length xs \<Longrightarrow> length ys = hi - lo \<Longrightarrow> slice lo hi (xs @ ys @ zs) = ys"
  by (simp add: slice_def)

lemma slice_full: "lo = length xs \<Longrightarrow> length ys = hi - lo \<Longrightarrow> slice lo hi (xs @ ys) = ys"
  by (simp add: slice_def)

lemma parse_produce_frame:
  assumes "length topic < 65536" "length msg < 4294967296" "valid_utf8 topic"
  shows "parse_produce (produce_body topic part msg) = Inr (ReqProduce topic part (bytes_of msg))"
proof -
  let ?n = "length topic" and ?m = "length msg"
  define h where "h = PutUint16 (word_of_nat ?n)"
  define pb where "pb = PutUint32 part"
  define mb where "mb = PutUint32 (word_of_nat ?m)"
  have body: "produce_body topic part msg = h @ bytes_of topic @ pb @ mb @ bytes_of msg"
    by (simp add: produce_body_def h_def pb_def mb_def)
  have len: "length h = 2" "length pb = 4" "length mb = 4" by (simp_all add: h_def pb_def mb_def)
  have "slice 0 2 (produce_body topic part msg) = h" by (simp add: body slice_def len)
  then have tl: "unat (Uint16 (slice 0 2 (produce_body topic part msg))) = ?n"
    using assms(1) by (simp add: h_def unat_of_length_u16)
  have "slice 2 (2 + ?n) (produce_body topic part msg) = bytes_of topic"
    by (simp add: body slice_def len)
  moreover have "slice (2 + ?n) (6 + ?n) (produce_body topic part msg) = pb"
    by (simp add: body slice_def len)
  moreover have "slice (6 + ?n) (10 + ?n) (produce_body topic part msg) = mb"
    by (simp add: body slice_def len)
  moreover have "slice (10 + ?n) (10 + ?n + ?m) (produce_body topic part msg) = bytes_of msg"
    by (simp add: body slice_def len)
  moreover have "length (produce_body topic part msg) = 10 + ?n + ?m" by (simp add: body len)
  moreover have "unat (Uint32 mb) = ?m" using assms(2) by (simp add: mb_def unat_of_length_u32)
  moreover have "Uint32 pb = part" by (simp add: pb_def)
  ultimately show ?thesis
    using assms(3) by (simp add: parse_produce_def tl from_utf8_def)
qed

lemma parse_fetch_frame:
  assumes "length topic < 65536" "valid_utf8 topic"
  shows "parse_fetch (fetch_body topic part off) = Inr (ReqFetch topic part off 65536)"
proof -
  let ?n = "length topic" and ?b = "fetch_body topic part off"
  define h where "h = PutUint16 (word_of_nat ?n)"
  define pb where "pb = PutUint32 part"
  define ob where "ob = PutUint64 off"
  define mb where "mb = PutUint32 65536"
  have body: "?b = h @ bytes_of topic @ pb @ ob @ mb"
    by (simp add: fetch_body_def h_def pb_def ob_def mb_def)
  have len: "length h = 2" "length pb = 4" "length ob = 8" "length mb = 4"
    by (simp_all add: h_def pb_def ob_def mb_def)
  have "slice 0 2 ?b = h" by (simp add: body slice_def len)
  then have tl: "unat (Uint16 (slice 0 2 ?b)) = ?n"
    using assms(1) by (simp add: h_def unat_of_length_u16)
  have "slice 2 (2 + ?n) ?b = bytes_of topic" "slice (2 + ?n) (6 + ?n) ?b = pb"
    "slice (6 + ?n) (14 + ?n) ?b = ob" "slice (14 + ?n) (18 + ?n) ?b = mb"
    by (simp_all add: body slice_def len)
  moreover have "length ?b = 18 + ?n" by (simp add: body len)
  moreover have "Uint32 pb = part" "Uint64 ob = off" "Uint32 mb = 65536"
    by (simp_all add: pb_def ob_def mb_def)
  ultimately show ?thesis
    using assms(2) by (simp add: parse_fetch_def tl from_utf8_def)
qed

lemma parse_replica_fetch_frame:
  assumes "length topic < 65536" "valid_utf8 topic"
  shows "parse_replica_fetch (replica_fetch_body b topic part off) = Inr (ReqReplicaFetch b topic part off 65536)"
proof -
  let ?n = "length topic" and ?b = "replica_fetch_body b topic part off"
  define rb where "rb = PutUint32 b"
  define h where "h = PutUint16 (word_of_nat ?n)"
  define pb where "pb = PutUint32 part"
  define ob where "ob = PutUint64 off"
  define mb where "mb = PutUint32 65536"
  have body: "?b = rb @ h @ bytes_of topic @ pb @ ob @ mb"
    by (simp add: replica_fetch_body_def rb_def h_def pb_def ob_def mb_def)
  have len: "length rb = 4" "length h = 2" "length pb = 4" "length ob = 8" "length mb = 4"
    by (simp_all add: rb_def h_def pb_def ob_def mb_def)
  have "slice 4 6 ?b = h" by (simp add: body slice_def len)
  then have tl: "unat (Uint16 (slice 4 6 ?b)) = ?n"
    using assms(1) by (simp add: h_def unat_of_length_u16)
  have "slice 0 4 ?b = rb" "slice 6 (6 + ?n) ?b = bytes_of topic" "slice (6 + ?n) (10 + ?n) ?b = pb"
    "slice (10 + ?n) (18 + ?n) ?b = ob" "slice (18 + ?n) (22 + ?n) ?b = mb"
    by (simp_all add: body slice_def len)
  moreover have "length ?b = 22 + ?n" by (simp add: body len)
  moreover have "Uint32 rb = b" "Uint32 pb = part" "Uint64 ob = off" "Uint32 mb = 65536"
    by (simp_all add: rb_def pb_def ob_def mb_def)
  ultimately show ?thesis
    using assms(2) by (simp add: parse_replica_fetch_def tl from_utf8_def)
qed

lemma read_request_frame:
  assumes "length body = n" "n < 4294967296" "parse_body cmd body = Inr r"
  shows "read_request (frame_header cmd n @ body @ rest) = Request r rest"
proof -
  have "length (frame_header cmd n) = 7" by (simp add: frame_header_def)
  moreover have "slice 3 7 (frame_header cmd n) = PutUint32 (word_of_nat n)"
    by (simp add: frame_header_def slice_def)
  moreover have "frame_header cmd n ! 0 = 0xAE" "frame_header cmd n ! 1 = 0x01" "frame_header cmd n ! 2 = cmd"
    by (simp_all add: frame_header_def numeral_2_eq_2)
  ultimately show ?thesis
    using assms by (simp add: read_request_def Let_def unat_of_length_u32)
qed

section \<open>Properties\<close>

text \<open>
  C23: the broker reads what is sent.  The produce and fetch frames of the Go client and the
  replica-fetch request of a follower are parsed into the same topic, partition, offset and message,
  and the parser stops exactly at the end of the frame, for topics of valid UTF-8 below 65536
  bytes and frames below 4 GiB.
\<close>

theorem requests_read_back:
  assumes "valid_utf8 topic" "length topic < 65536" "10 + length topic + length msg < 4294967296"
  shows "read_request (frame_header 1 (2 + length topic + 4 + 4 + length msg) @
      produce_body topic part msg @ rest) = Request (ReqProduce topic part (bytes_of msg)) rest \<and>
    read_request (frame_header 2 (2 + length topic + 4 + 8 + 4) @ fetch_body topic part off @ rest) =
      Request (ReqFetch topic part off 65536) rest \<and>
    read_request (replica_fetch_request b topic part off @ rest) =
      Request (ReqReplicaFetch b topic part off 65536) rest"
proof (intro conjI)
  show "read_request (frame_header 1 (2 + length topic + 4 + 4 + length msg) @
      produce_body topic part msg @ rest) = Request (ReqProduce topic part (bytes_of msg)) rest"
    using assms by (intro read_request_frame) (simp_all add: parse_body_def parse_produce_frame, simp add: produce_body_def)
  show "read_request (frame_header 2 (2 + length topic + 4 + 8 + 4) @ fetch_body topic part off @ rest) =
      Request (ReqFetch topic part off 65536) rest"
    using assms by (intro read_request_frame) (simp_all add: parse_body_def parse_fetch_frame, simp add: fetch_body_def)
  have "read_request (frame_header 3 (4 + 2 + length topic + 4 + 8 + 4) @ replica_fetch_body b topic part off @ rest) =
      Request (ReqReplicaFetch b topic part off 65536) rest"
    using assms by (intro read_request_frame)
      (simp_all add: parse_body_def parse_replica_fetch_frame, simp add: replica_fetch_body_def)
  then show "read_request (replica_fetch_request b topic part off @ rest) =
      Request (ReqReplicaFetch b topic part off 65536) rest"
    by (simp add: replica_fetch_request_def)
qed

text \<open>
  Longer topics are not refused but misread: the length field has 16 bits, and a produce request
  for a topic of 65536 bytes or more never reaches the broker as a request for that topic.
\<close>

lemma long_topic_misread:
  assumes "65536 \<le> length topic"
  shows "parse_produce (produce_body topic part msg) \<noteq> Inr (ReqProduce topic part' payload)"
proof
  assume eq: "parse_produce (produce_body topic part msg) = Inr (ReqProduce topic part' payload)"
  let ?b = "produce_body topic part msg"
  let ?n = "unat (Uint16 (slice 0 2 ?b))"
  from eq have "topic = string_of (slice 2 (2 + ?n) ?b)"
    by (auto simp: parse_produce_def Let_def from_utf8_def split: if_splits)
  moreover have "length (string_of (slice 2 (2 + ?n) ?b)) \<le> ?n" by (simp add: string_of_def slice_def)
  ultimately have "length topic \<le> ?n" by argo
  with assms show False using unat_u16_less [of "Uint16 (slice 0 2 ?b)"] by linarith
qed

theorem requests_read_back_witness:
  "read_request (frame_header 1 13 @ produce_body ''t'' 3 ''hi'' @ [0xAE]) =
     Request (ReqProduce ''t'' 3 [104, 105]) [0xAE]"
  using requests_read_back [of "''t''" "''hi''" 3 "[0xAE]"] by (simp add: bytes_of_def)

lemma long_topic_misread_example:
  "parse_produce (produce_body (replicate 65536 CHR ''a'') 0 ''hi'') \<noteq>
     Inr (ReqProduce (replicate 65536 CHR ''a'') 0 [])"
  by (rule long_topic_misread) simp

end
