(* ===== verification/Data_Server.thy ===== *)
theory Data_Server
  imports Log_Manager Data_Protocol
begin

text \<open>
  Serving the data-plane requests (\<open>handle_connection\<close> in \<open>rust-broker/src/net/server.rs\<close>): produce,
  fetch with its wait for the high watermark, and replica fetch.

  The system call \<open>sendfile\<close> is an argument: how many bytes it writes of those asked for, negative for
  an error.  What other tasks do to a partition while a fetch sleeps is an argument too.  A reply is
  the bytes written to the socket and the error that ends the connection, if any.
\<close>

section \<open>Replies\<close>

type_synonym reply = "byte list \<times> error option"

type_synonym sendfile = "nat \<Rightarrow> nat \<Rightarrow> int"

function sendfile_loop :: "sendfile \<Rightarrow> byte list \<Rightarrow> nat \<Rightarrow> nat \<Rightarrow> reply" where
  "sendfile_loop sf file off remaining =
     (if remaining = 0 then ([], None)
      else
        let written = sf off remaining in
        if written < 0 then ([], Some ''sendfile'')
        else if written = 0 then ([], None)
        else
          let (sent, err) = sendfile_loop sf file (off + nat written) (remaining - nat written) in
          (slice off (off + nat written) file @ sent, err))"
  by pat_completeness auto
termination
  by (relation "measure (\<lambda>(sf, file, off, remaining). remaining)") auto

declare sendfile_loop.simps [simp del]

definition produce_reply :: "u64 \<Rightarrow> reply" where
  "produce_reply off = ([0xAE, 0x01, 0] @ PutUint64 off, None)"

definition read_reply :: "sendfile \<Rightarrow> error + (byte list \<times> u64 \<times> u32) option \<Rightarrow> reply" where
  "read_reply sf res =
     (case res of
        Inl e \<Rightarrow> ([], Some e)
      | Inr None \<Rightarrow> ([0xAE, 0x01, 1], None)
      | Inr (Some (file, position, bytes_to_read)) \<Rightarrow>
          let (sent, err) = sendfile_loop sf file (unat position) (unat bytes_to_read) in
          ([0xAE, 0x01, 2] @ PutUint32 bytes_to_read @ sent, err))"

section \<open>Requests\<close>

definition serve_produce :: "int \<Rightarrow> string \<Rightarrow> u32 \<Rightarrow> byte list \<Rightarrow> LogManager \<Rightarrow> reply \<times> LogManager" where
  "serve_produce now topic part payload lm =
     (let (l, lm) = get_partition now (topic, part) lm;
          (off, l) = append_log now payload l
      in (produce_reply off, put_partition (topic, part) l lm))"

text \<open>At most ten attempts; \<open>others k\<close> is what happens to the log during the \<open>k\<close>-th sleep.\<close>

function fetch_wait ::
  "(nat \<Rightarrow> PartitionLog \<Rightarrow> PartitionLog) \<Rightarrow> u64 \<Rightarrow> u32 \<Rightarrow> nat \<Rightarrow> PartitionLog \<Rightarrow>
   (error + (byte list \<times> u64 \<times> u32) option) \<times> PartitionLog"
where
  "fetch_wait others start_offset max_bytes attempts l =
     (if start_offset < high_watermark l then (read_from_offset start_offset max_bytes l, l)
      else if attempts + 1 \<ge> 10 then (Inr None, l)
      else fetch_wait others start_offset max_bytes (attempts + 1) (others attempts l))"
  by pat_completeness auto
termination
  by (relation "measure (\<lambda>(others, start_offset, max_bytes, attempts, l). 10 - attempts)") auto

declare fetch_wait.simps [simp del]

definition serve_fetch ::
  "sendfile \<Rightarrow> (nat \<Rightarrow> PartitionLog \<Rightarrow> PartitionLog) \<Rightarrow> int \<Rightarrow> string \<Rightarrow> u32 \<Rightarrow> u64 \<Rightarrow> u32 \<Rightarrow>
   LogManager \<Rightarrow> reply \<times> LogManager"
where
  "serve_fetch sf others now topic part start_offset max_bytes lm =
     (let (l, lm) = get_partition now (topic, part) lm;
          (data_opt, l) = fetch_wait others start_offset max_bytes 0 l
      in (read_reply sf data_opt, put_partition (topic, part) l lm))"

definition serve_replica_fetch ::
  "sendfile \<Rightarrow> int \<Rightarrow> u32 \<Rightarrow> string \<Rightarrow> u32 \<Rightarrow> u64 \<Rightarrow> u32 \<Rightarrow> LogManager \<Rightarrow> reply \<times> LogManager"
where
  "serve_replica_fetch sf now replica_id topic part start_offset max_bytes lm =
     (let (l, lm) = get_partition now (topic, part) lm;
          l = update_follower_offset replica_id start_offset l
      in (read_reply sf (read_from_offset start_offset max_bytes l), put_partition (topic, part) l lm))"

fun handle_request ::
  "sendfile \<Rightarrow> (nat \<Rightarrow> PartitionLog \<Rightarrow> PartitionLog) \<Rightarrow> int \<Rightarrow> request \<Rightarrow> LogManager \<Rightarrow> reply \<times> LogManager"
where
  "handle_request sf others now (ReqProduce topic part payload) lm = serve_produce now topic part payload lm"
| "handle_request sf others now (ReqFetch topic part off n) lm = serve_fetch sf others now topic part off n lm"
| "handle_request sf others now (ReqReplicaFetch replica topic part off n) lm =
     serve_replica_fetch sf now replica topic part off n lm"

section \<open>Connections\<close>

lemma read_request_shorter: "read_request input = Request r rest \<Longrightarrow> length rest < length input"
  by (auto simp: read_request_def Let_def split: if_splits sum.splits)

text \<open>
  The loop on everything a peer sends before it closes.  \<open>clock i\<close> is the time at which the \<open>i\<close>-th
  request is served and \<open>others i\<close> what happens while it sleeps.
\<close>

function handle_connection ::
  "sendfile \<Rightarrow> (nat \<Rightarrow> nat \<Rightarrow> PartitionLog \<Rightarrow> PartitionLog) \<Rightarrow> (nat \<Rightarrow> int) \<Rightarrow> nat \<Rightarrow> byte list \<Rightarrow>
   LogManager \<Rightarrow> reply \<times> LogManager"
where
  "handle_connection sf others clock i input lm =
     (case read_request input of
        Closed \<Rightarrow> (([], None), lm)
      | Failed e \<Rightarrow> (([], Some e), lm)
      | Request r rest \<Rightarrow>
          (case handle_request sf (others i) (clock i) r lm of
             ((out, Some e), lm) \<Rightarrow> ((out, Some e), lm)
           | ((out, None), lm) \<Rightarrow>
               let ((out', err), lm) = handle_connection sf others clock (Suc i) rest lm in
               ((out @ out', err), lm)))"
  by pat_completeness auto
termination
  by (relation "measure (\<lambda>(sf, others, clock, i, input, lm). length input)")
    (auto dest: read_request_shorter)

declare handle_connection.simps [simp del]

section \<open>The bytes sent\<close>

text \<open>No fault: \<open>sendfile\<close> sends some of the bytes it is asked to.\<close>

definition sendfile_ok :: "sendfile \<Rightarrow> bool" where
  "sendfile_ok sf \<longleftrightarrow> (\<forall>off n. 0 < n \<longrightarrow> 0 < sf off n \<and> sf off n \<le> int n)"

lemma sendfile_loop_sends:
  assumes "sendfile_ok sf" "off + n \<le> length file"
  shows "sendfile_loop sf file off n = (take n (drop off file), None)"
  using assms(2)
proof (induction n arbitrary: off rule: less_induct)
  case (less n)
  show ?case
  proof (cases "n = 0")
    case False
    define w where "w = nat (sf off n)"
    have w: "0 < sf off n" "0 < w" "w \<le> n" using assms(1) False by (auto simp: sendfile_ok_def w_def nat_le_iff)
    have "sendfile_loop sf file (off + w) (n - w) = (take (n - w) (drop (off + w) file), None)"
      using w less.prems by (intro less.IH) auto
    moreover have "slice off (off + w) file @ take (n - w) (drop (off + w) file) = take n (drop off file)"
      using w(3) take_add [of w "n - w" "drop off file"] by (simp add: slice_def add.commute)
    ultimately show ?thesis
      using False w(1) by (subst sendfile_loop.simps) (simp add: w_def [symmetric] Let_def)
  qed (simp add: sendfile_loop.simps)
qed

definition message_reply :: "byte list option \<Rightarrow> byte list" where
  "message_reply m =
     (case m of
        None \<Rightarrow> [0xAE, 0x01, 1]
      | Some bs \<Rightarrow> [0xAE, 0x01, 2] @ PutUint32 (word_of_nat (length bs)) @ bs)"

text \<open>A read of a log that represents messages finds no data, or the message as a part of a file.\<close>

lemma read_result:
  assumes h: "holds l ms" and small: "\<forall>m \<in> set ms. length m < 2 ^ 32"
  obtains (none) "read_from_offset off n l = Inr None" "message_at ms off n = None"
  | (data) log_file pos k where "read_from_offset off n l = Inr (Some (log_file, pos, k))" "unat pos + unat k \<le> length log_file"
      "message_at ms off n = Some (take (unat k) (drop (unat pos) log_file))"
      "message_reply (message_at ms off n) = [0xAE, 0x01, 2] @ PutUint32 k @ take (unat k) (drop (unat pos) log_file)"
proof (cases "read_from_offset off n l")
  case (Inl e)
  then show ?thesis using plog.read_represents [OF h small, of off n] by (simp add: read_bytes_def)
next
  case (Inr res)
  then have res: "map_option file_bytes res = message_at ms off n"
    using plog.read_represents [OF h small, of off n] by (simp add: read_bytes_def)
  show ?thesis
  proof (cases res)
    case None
    with Inr res none show ?thesis by simp
  next
    case (Some x)
    obtain log_file pos k where x: "x = (log_file, pos, k)" by (cases x)
    have le: "unat pos + unat k \<le> length log_file"
      using holds_read_in_file [OF h small, of off n x] Inr Some by (simp add: x in_file_def)
    have msg: "message_at ms off n = Some (take (unat k) (drop (unat pos) log_file))"
      using res [symmetric] by (simp add: Some x file_bytes_def)
    have "word_of_nat (length (take (unat k) (drop (unat pos) log_file))) = k" using le by simp
    then show ?thesis using data [OF _ le msg] by (simp add: Inr Some x msg message_reply_def)
  qed
qed

lemma read_reply_holds:
  assumes h: "holds l ms" and small: "\<forall>m \<in> set ms. length m < 2 ^ 32" and sf: "sendfile_ok sf"
  shows "read_reply sf (read_from_offset off n l) = (message_reply (message_at ms off n), None)"
  using h small
proof (cases rule: read_result [of l ms off n])
  case none
  then show ?thesis by (simp add: read_reply_def message_reply_def)
next
  case (data log_file pos k)
  then show ?thesis using sendfile_loop_sends [OF sf data(2)] by (simp add: read_reply_def)
qed

text \<open>\<open>sendfile\<close> may fail or send nothing; it never sends more than it is asked to.\<close>

definition sendfile_any :: "sendfile \<Rightarrow> bool" where
  "sendfile_any sf \<longleftrightarrow> (\<forall>off n. sf off n \<le> int n)"

lemma sendfile_loop_part:
  assumes "sendfile_any sf" "off + n \<le> length file"
  shows "\<exists>j. fst (sendfile_loop sf file off n) = take j (take n (drop off file))"
  using assms(2)
proof (induction n arbitrary: off rule: less_induct)
  case (less n)
  show ?case
  proof (cases "n = 0 \<or> sf off n \<le> 0")
    case True
    then show ?thesis by (subst sendfile_loop.simps) (auto simp: Let_def intro: exI [of _ 0])
  next
    case False
    define w where "w = nat (sf off n)"
    have w: "0 < sf off n" "0 < w" "w \<le> n" using assms(1) False by (auto simp: sendfile_any_def w_def nat_le_iff)
    obtain j where j: "fst (sendfile_loop sf file (off + w) (n - w)) = take j (take (n - w) (drop (off + w) file))"
      using less.IH [of "n - w" "off + w"] w less.prems by auto
    have "drop (off + w) file = drop w (drop off file)" by (simp add: add.commute)
    then have "slice off (off + w) file @ take j (take (n - w) (drop (off + w) file)) = take (w + j) (take n (drop off file))"
      using w(3) unfolding take_add by (simp add: slice_def drop_take min_absorb1)
    then show ?thesis
      using False w(1) j by (subst sendfile_loop.simps) (auto simp: w_def [symmetric] Let_def split_beta)
  qed
qed

lemma read_reply_part:
  assumes h: "holds l ms" and small: "\<forall>m \<in> set ms. length m < 2 ^ 32" and sf: "sendfile_any sf"
    and res: "read_from_offset off n l = Inr res"
  shows "\<exists>j. fst (read_reply sf (Inr res)) = take j (message_reply (message_at ms off n))"
  using h small
proof (cases rule: read_result [of l ms off n])
  case none
  then show ?thesis using res by (auto simp: read_reply_def message_reply_def intro: exI [of _ 3])
next
  case (data log_file pos k)
  let ?head = "[0xAE, 0x01, 2] @ PutUint32 k" and ?data = "take (unat k) (drop (unat pos) log_file)"
  obtain j where "fst (sendfile_loop sf log_file (unat pos) (unat k)) = take j ?data"
    using sendfile_loop_part [OF sf data(2)] by blast
  moreover have "res = Some (log_file, pos, k)" using res data(1) by simp
  ultimately have "fst (read_reply sf (Inr res)) = ?head @ take j ?data" by (simp add: read_reply_def split_beta)
  also have "\<dots> = take (length ?head + j) (?head @ ?data)" by (simp only: take_append) simp
  finally show ?thesis unfolding data(4) append_assoc by blast
qed

section \<open>Waiting for the high watermark\<close>

fun wait_state :: "(nat \<Rightarrow> PartitionLog \<Rightarrow> PartitionLog) \<Rightarrow> PartitionLog \<Rightarrow> nat \<Rightarrow> PartitionLog" where
  "wait_state others l 0 = l"
| "wait_state others l (Suc k) = others k (wait_state others l k)"

lemma fetch_wait_reaches:
  assumes "a < 10"
  shows "\<exists>j < 10. a \<le> j \<and> (\<forall>k. a \<le> k \<and> k < j \<longrightarrow> \<not> off < high_watermark (wait_state others l k)) \<and>
    fetch_wait others off n a (wait_state others l a) =
      (if off < high_watermark (wait_state others l j) then read_from_offset off n (wait_state others l j)
       else Inr None, wait_state others l j) \<and>
    (off < high_watermark (wait_state others l j) \<or> j = 9)"
  using assms
proof (induction "9 - a" arbitrary: a)
  case 0
  then have "a = 9" by simp
  then show ?case by (intro exI [of _ 9]) (auto simp: fetch_wait.simps [of others off n 9])
next
  case (Suc d)
  let ?st = "wait_state others l"
  show ?case
  proof (cases "off < high_watermark (?st a)")
    case True
    then show ?thesis using Suc.prems
      by (intro exI [of _ a]) (auto simp: fetch_wait.simps [of others off n a])
  next
    case False
    have a: "d = 9 - Suc a" "Suc a < 10" using Suc(2) by auto
    from Suc(1) [OF a] obtain j where j: "j < 10" "Suc a \<le> j"
        "\<forall>k. Suc a \<le> k \<and> k < j \<longrightarrow> \<not> off < high_watermark (?st k)"
        "fetch_wait others off n (Suc a) (?st (Suc a)) =
          (if off < high_watermark (?st j) then read_from_offset off n (?st j) else Inr None, ?st j)"
        "off < high_watermark (?st j) \<or> j = 9" by blast
    have "fetch_wait others off n a (?st a) = fetch_wait others off n (Suc a) (?st (Suc a))"
      using False a(2) by (subst fetch_wait.simps) simp
    moreover have "\<forall>k. a \<le> k \<and> k < j \<longrightarrow> \<not> off < high_watermark (?st k)"
      using j(3) False by (metis Suc_leI le_neq_implies_less)
    ultimately show ?thesis using j by (intro exI [of _ j]) auto
  qed
qed

lemma message_at_append:
  "unat off < length ms \<Longrightarrow> message_at (ms @ ns) off n = message_at ms off n"
  by (simp add: message_at_def nth_append)

lemma watermark_in_range:
  assumes "holds l ms" "hw_ok l" "off < high_watermark l"
  shows "unat off < length ms"
proof -
  have "off < next_offset l" using assms(2,3) by (simp add: hw_ok_def other_replicas_def)
  then show ?thesis
    using holds_next_offset [OF assms(1)] holds_fits [OF assms(1)]
    by (simp add: word_less_nat_alt unat_word_of_nat_u64 fits_def)
qed

text \<open>The history of a log up to the \<open>k\<close>-th attempt, when \<open>ops k\<close> happens during the \<open>k\<close>-th sleep.\<close>

definition history :: "log_op list \<Rightarrow> (nat \<Rightarrow> log_op list) \<Rightarrow> nat \<Rightarrow> log_op list" where
  "history before ops k = before @ concat (map ops [0..<k])"

lemma wait_state_history:
  "wait_state (\<lambda>k. fold exec_op (ops k)) (fold exec_op before l) k = fold exec_op (history before ops k) l"
  by (induction k) (simp_all add: history_def)

lemma appended_history_prefix:
  assumes "j \<le> k"
  shows "\<exists>ns. appended (history before ops k) = appended (history before ops j) @ ns"
proof -
  have "[0..<k] = [0..<j] @ [j..<k]" using assms upt_add_eq_append [of 0 j "k - j"] by simp
  then show ?thesis by (simp add: history_def appended_append)
qed

section \<open>Properties\<close>

text \<open>
  C20: a fetch waits for the high watermark, and no longer than ten attempts.  If the offset is
  below the high watermark at one of the ten attempts, whatever happens to the log in between, then the
  reply is the message at that offset, cut to the requested size; otherwise it is the reply for no
  data.  Nothing at or above the high watermark is ever sent.
\<close>

theorem fetch_waits_for_watermark:
  fixes before ops now bid max_seg max_size max_age
  defines "L \<equiv> \<lambda>k. fold exec_op (history before ops k) (fresh_log now bid max_seg max_size max_age)"
    and "ms \<equiv> appended (history before ops 9)"
  assumes "sendfile_ok sf" "fits ms" "\<forall>m \<in> set ms. length m < 2 ^ 32"
  shows "read_reply sf (fst (fetch_wait (\<lambda>k. fold exec_op (ops k)) off n 0 (L 0))) =
    (message_reply (if \<exists>k < 10. off < high_watermark (L k) then message_at ms off n else None), None)"
proof -
  let ?st = "wait_state (\<lambda>k. fold exec_op (ops k)) (L 0)"
  have st: "?st k = L k" for k
    using wait_state_history [of ops before "fresh_log now bid max_seg max_size max_age" k]
    by (simp add: L_def history_def)
  obtain j where j: "j < 10" "\<forall>k. 0 \<le> k \<and> k < j \<longrightarrow> \<not> off < high_watermark (L k)"
      "fetch_wait (\<lambda>k. fold exec_op (ops k)) off n 0 (L 0) =
        (if off < high_watermark (L j) then read_from_offset off n (L j) else Inr None, L j)"
      "off < high_watermark (L j) \<or> j = 9"
    using fetch_wait_reaches [of 0 off "\<lambda>k. fold exec_op (ops k)" "L 0" n, OF zero_less_numeral]
    unfolding st by blast
  let ?ms = "appended (history before ops j)"
  obtain ns where ns: "ms = ?ms @ ns"
    using appended_history_prefix [of j 9 before ops] j(1) by (auto simp: ms_def)
  have h: "holds (L j) ?ms" and hw: "hw_ok (L j)"
    unfolding L_def using assms(4) ns by (auto intro: history_holds history_hw_ok fits_prefix)
  have small: "\<forall>m \<in> set ?ms. length m < 2 ^ 32" using assms(5) by (simp add: ns)
  show ?thesis
  proof (cases "off < high_watermark (L j)")
    case True
    then have "message_at ms off n = message_at ?ms off n"
      using watermark_in_range [OF h hw] by (simp add: ns message_at_append)
    then show ?thesis using read_reply_holds [OF h small assms(3), of off n] j(1,3) True by auto
  next
    case False
    then have "j = 9" using j(4) by simp
    then have "\<not> off < high_watermark (L k)" if "k < 10" for k
      using that j(2) False by (cases "k = 9") auto
    then show ?thesis using j(3) False by (auto simp: read_reply_def message_reply_def)
  qed
qed

theorem fetch_waits_for_watermark_witness:
  "read_reply (\<lambda>off n. int n) (fst (fetch_wait
       (\<lambda>k. fold exec_op (if k = 3 then [FollowerOp 2 1] else [])) 0 65536 0
       (fold exec_op [AssignOp [1, 2], AppendOp 5 [7, 8]] (fresh_log 0 1 210 None None)))) =
     ([0xAE, 0x01, 2] @ PutUint32 2 @ [7, 8], None)"
proof -
  let ?before = "[AssignOp [1, 2], AppendOp 5 [7, 8]]" and ?ops = "\<lambda>k. if k = 3 then [FollowerOp 2 1] else [] :: log_op list"
  have hist: "history ?before ?ops 0 = ?before" "history ?before ?ops 9 = ?before @ [FollowerOp 2 1]"
    "history ?before ?ops 4 = ?before @ [FollowerOp 2 1]"
    by (simp_all add: history_def upt_rec)
  let ?l = "fold exec_op (?before @ [FollowerOp 2 1]) (fresh_log 0 1 210 None None)"
  have "next_offset ?l = 1"
    using holds_next_offset [OF history_holds, of "?before @ [FollowerOp 2 1]" 0 1 210 None None] by (simp add: fits_def)
  then have "0 < high_watermark ?l"
    using history_hw_ok [of "?before @ [FollowerOp 2 1]" 0 1 210 None None]
    by (simp add: hw_ok_def other_replicas_def follower_progress_def assign_replicas_def
        update_follower_offset_def fresh_log_def open_log_def Let_def)
  then have "\<exists>k < 10. 0 < high_watermark (fold exec_op (history ?before ?ops k) (fresh_log 0 1 210 None None))"
    using hist(3) by (intro exI [of _ 4]) simp
  then show ?thesis
    using fetch_waits_for_watermark [of "\<lambda>off n. int n" ?before ?ops 0 65536 0 1 210 None None] hist(1,2)
    by (simp add: sendfile_ok_def fits_def message_at_def message_reply_def)
qed

end
