(* ===== verification/Broker_World.thy ===== *)
theory Broker_World
  imports Data_Server
begin

text \<open>
  The Go client connected to a broker.  The world of the connection is what the client has sent and the
  broker has not read yet, what the broker has sent and the client has not read yet, and the
  broker's log manager.  The broker serves every complete request it has received, as the loop of
  \<open>handle_connection\<close> does, and \<open>broker_net\<close> is the connection the client's \<open>sendProduce\<close> and
  \<open>sendFetch\<close> work on.  No other task changes the partition in the meantime.
\<close>

section \<open>The connection\<close>

record broker_world =
  bw_in :: "byte list"
  bw_out :: "byte list"
  bw_err :: "error option"
  bw_served :: nat
  bw_logs :: LogManager

text \<open>The broker can finish its two \<open>read_exact\<close> calls, or fail on the first.\<close>

definition frame_ready :: "byte list \<Rightarrow> bool" where
  "frame_ready input \<longleftrightarrow> 7 \<le> length input \<and>
     (input ! 0 \<noteq> 0xAE \<or> input ! 1 \<noteq> 0x01 \<or> 7 + unat (Uint32 (slice 3 7 input)) \<le> length input)"

definition serve_one :: "sendfile \<Rightarrow> (nat \<Rightarrow> int) \<Rightarrow> request \<Rightarrow> byte list \<Rightarrow> broker_world \<Rightarrow> broker_world" where
  "serve_one sf clock r rest w =
     (let ((out, err), lm) = handle_request sf (\<lambda>k l. l) (clock (bw_served w)) r (bw_logs w)
      in w\<lparr>bw_in := rest, bw_out := bw_out w @ out, bw_err := err, bw_served := Suc (bw_served w), bw_logs := lm\<rparr>)"

function pump :: "sendfile \<Rightarrow> (nat \<Rightarrow> int) \<Rightarrow> broker_world \<Rightarrow> broker_world" where
  "pump sf clock w =
     (if bw_err w \<noteq> None \<or> \<not> frame_ready (bw_in w) then w
      else case read_request (bw_in w) of
             Closed \<Rightarrow> w
           | Failed e \<Rightarrow> w\<lparr>bw_err := Some e\<rparr>
           | Request r rest \<Rightarrow> pump sf clock (serve_one sf clock r rest w))"
  by pat_completeness auto
termination
  by (relation "measure (\<lambda>(sf, clock, w). length (bw_in w))")
    (auto simp: serve_one_def Let_def split: prod.split dest: read_request_shorter)

declare pump.simps [simp del]

definition broker_net :: "sendfile \<Rightarrow> (nat \<Rightarrow> int) \<Rightarrow> broker_world net" where
  "broker_net sf clock = \<lparr>
     net_Write = (\<lambda>bs w. if bw_err w \<noteq> None then (Some ''broken pipe'', w)
                         else (None, pump sf clock (w\<lparr>bw_in := bw_in w @ bs\<rparr>))),
     net_ReadFull = (\<lambda>n w. if length (bw_out w) < n then (Inl ''unexpected EOF'', w)
                           else (Inr (take n (bw_out w)), w\<lparr>bw_out := drop n (bw_out w)\<rparr>))\<rparr>"

section \<open>A request on an idle connection\<close>

definition idle :: "broker_world \<Rightarrow> bool" where
  "idle w \<longleftrightarrow> bw_in w = [] \<and> bw_out w = [] \<and> bw_err w = None"

lemma header_not_ready:
  assumes "0 < n" "n < 4294967296"
  shows "\<not> frame_ready (frame_header cmd n)"
proof -
  have "slice 3 7 (frame_header cmd n) = PutUint32 (word_of_nat n)" by (simp add: frame_header_def slice_def)
  moreover have "length (frame_header cmd n) = 7" by (simp add: frame_header_def)
  ultimately show ?thesis
    using assms by (simp add: frame_ready_def unat_of_length_u32) (simp add: frame_header_def)
qed

lemma frame_is_ready:
  assumes "length body = n" "n < 4294967296"
  shows "frame_ready (frame_header cmd n @ body)"
proof -
  have "slice 3 7 (frame_header cmd n @ body) = PutUint32 (word_of_nat n)" by (simp add: frame_header_def slice_def)
  moreover have "length (frame_header cmd n) = 7" by (simp add: frame_header_def)
  ultimately show ?thesis using assms by (simp add: frame_ready_def unat_of_length_u32)
qed

lemma pump_idle: "bw_in w = [] \<Longrightarrow> pump sf clock w = w"
  by (subst pump.simps) (simp add: frame_ready_def)

lemma write_request_served:
  assumes "idle w" "length body = n" "0 < n" "n < 4294967296" "parse_body cmd body = Inr r"
  shows "write_request (broker_net sf clock) (frame_header cmd n) body w k = k (serve_one sf clock r [] w)"
proof -
  have w: "bw_in w = []" "bw_err w = None" using assms(1) by (auto simp: idle_def)
  have 1: "pump sf clock (w\<lparr>bw_in := frame_header cmd n\<rparr>) = w\<lparr>bw_in := frame_header cmd n\<rparr>"
    using header_not_ready [OF assms(3,4)] by (subst pump.simps) simp
  have "read_request (frame_header cmd n @ body) = Request r []"
    using read_request_frame [OF assms(2,4,5), of "[]"] by simp
  then have "pump sf clock (w\<lparr>bw_in := frame_header cmd n @ body\<rparr>) =
      pump sf clock (serve_one sf clock r [] (w\<lparr>bw_in := frame_header cmd n @ body\<rparr>))"
    using frame_is_ready [OF assms(2,4)] w by (subst pump.simps) simp
  also have "\<dots> = serve_one sf clock r [] w"
    using w by (subst pump_idle) (simp_all add: serve_one_def Let_def split: prod.split)
  finally show ?thesis using 1 w by (simp add: write_request_def broker_net_def)
qed

section \<open>Produce and fetch\<close>

text \<open>
  \<open>led lm key ms\<close>: the partition holds the messages \<open>ms\<close>, all of them below the high watermark, and has
  no other replicas to wait for.
\<close>

definition led :: "LogManager \<Rightarrow> partition_key \<Rightarrow> byte list list \<Rightarrow> bool" where
  "led lm key ms \<longleftrightarrow> (\<forall>now. let l = current_log now key lm in holds l ms \<and> hw_ok l \<and> other_replicas l = {})"

lemma led_fresh:
  assumes "partitions lm key = None" "base_dir lm key = \<lparr>pd_legacy = None, pd_local = Map.empty, pd_cold = Map.empty\<rparr>"
  shows "led lm key []"
proof -
  have "hw_ok (open_log now None Map.empty Map.empty b s z a) \<and>
      other_replicas (open_log now None Map.empty Map.empty b s z a) = {}" for now b s z a
    by (simp add: open_log_def Let_def) (simp add: other_replicas_def)
  then show ?thesis
    using assms holds_empty by (simp add: led_def current_log_def get_partition_def open_partition_def Let_def)
qed

lemma led_put:
  "led (put_partition key l lm) key ms \<longleftrightarrow> holds l ms \<and> hw_ok l \<and> other_replicas l = {}"
  by (simp add: led_def)

lemma append_led:
  assumes "holds l ms" "hw_ok l" "other_replicas l = {}" "fits (ms @ [m])"
  shows "holds (snd (append_log now m l)) (ms @ [m]) \<and> hw_ok (snd (append_log now m l)) \<and>
    other_replicas (snd (append_log now m l)) = {}"
proof -
  have "hw_ok (snd (append_log now m l))" using exec_op_hw_ok [of "AppendOp now m" l] by simp
  then show ?thesis
    using assms plog.append_represents by (simp add: other_replicas_def)
qed

text \<open>Both requests, for any log that holds messages.\<close>

lemma sendProduce_log:
  fixes w topic part clock
  defines "now \<equiv> clock (bw_served w)"
  defines "l \<equiv> current_log now (topic, part) (bw_logs w)"
  assumes w: "idle w" and l: "holds l ms"
    and topic: "valid_utf8 topic" "length topic < 65536" "10 + length topic + length msg < 4294967296"
    and fits: "fits (ms @ [bytes_of msg])"
  shows "\<exists>w'. sendProduce (broker_net sf clock) topic part msg w = (Inr (word_of_nat (length ms)), w') \<and>
    idle w' \<and> bw_logs w' = put_partition (topic, part) (snd (append_log now (bytes_of msg) l)) (bw_logs w)"
proof -
  let ?key = "(topic, part)"
  define l' where "l' = snd (append_log now (bytes_of msg) l)"
  have "append_log now (bytes_of msg) l = (word_of_nat (length ms), l')"
    using plog.append_offset [OF l fits, of now] by (metis l'_def prod.collapse)
  then have "serve_produce now topic part (bytes_of msg) (bw_logs w) =
      (produce_reply (word_of_nat (length ms)), put_partition ?key l' (bw_logs w))"
    by (simp add: serve_produce_def split_beta l_def current_log_def put_get)
  then have serve: "serve_one sf clock (ReqProduce topic part (bytes_of msg)) [] w =
      w\<lparr>bw_out := [0xAE, 0x01, 0] @ PutUint64 (word_of_nat (length ms)), bw_served := Suc (bw_served w),
        bw_logs := put_partition ?key l' (bw_logs w)\<rparr>"
    using w by (simp add: serve_one_def produce_reply_def idle_def now_def)
  have body: "length (produce_body topic part msg) = 2 + length topic + 4 + 4 + length msg"
    by (simp add: produce_body_def)
  have parse: "parse_body 1 (produce_body topic part msg) = Inr (ReqProduce topic part (bytes_of msg))"
    using topic by (simp add: parse_body_def parse_produce_frame)
  have bound: "0 < 2 + length topic + 4 + 4 + length msg" "2 + length topic + 4 + 4 + length msg < 4294967296"
    using topic(3) by auto
  show ?thesis
    unfolding sendProduce_def Let_def write_request_served [OF w body bound parse] serve l'_def [symmetric]
    using w by (simp add: broker_net_def slice_def idle_def)
qed

lemma fetch_wait_alone:
  "fetch_wait (\<lambda>k l. l) off n 0 l = (if off < high_watermark l then read_from_offset off n l else Inr None, l)"
proof -
  have "wait_state (\<lambda>k l. l) l k = l" for k by (induction k) auto
  then show ?thesis using fetch_wait_reaches [of 0 off "\<lambda>k l. l" l n] by auto
qed

lemma read_fetch_response_message:
  assumes "m = None \<or> m = Some bs" "length bs < 4294967296"
  shows "read_fetch_response (broker_net sf clock) (w\<lparr>bw_out := message_reply m\<rparr>) = (Inr m, w\<lparr>bw_out := []\<rparr>)"
  using assms by (auto simp: read_fetch_response_def message_reply_def broker_net_def unat_of_length_u32)

lemma sendFetch_log:
  fixes w topic part clock
  defines "l \<equiv> current_log (clock (bw_served w)) (topic, part) (bw_logs w)"
  assumes w: "idle w" and l: "holds l ms" and topic: "valid_utf8 topic" "length topic < 65536"
    and sf: "sendfile_ok sf" and small: "\<forall>m \<in> set ms. length m < 2 ^ 32"
  shows "\<exists>w'. sendFetch (broker_net sf clock) topic part off w =
      (Inr (if off < high_watermark l then message_at ms off 65536 else None), w') \<and>
    idle w' \<and> bw_logs w' = put_partition (topic, part) l (bw_logs w)"
proof -
  let ?m = "if off < high_watermark l then message_at ms off 65536 else None"
  have "read_reply sf (if off < high_watermark l then read_from_offset off 65536 l else Inr None) =
      (message_reply ?m, None)"
    using read_reply_holds [OF l small sf, of off 65536] by (simp add: read_reply_def message_reply_def)
  then have serve: "serve_fetch sf (\<lambda>k l. l) (clock (bw_served w)) topic part off 65536 (bw_logs w) =
      ((message_reply ?m, None), put_partition (topic, part) l (bw_logs w))"
    by (simp only: serve_fetch_def split_beta Let_def fetch_wait_alone fst_conv snd_conv put_get
        l_def [unfolded current_log_def, symmetric])
  define w1 where "w1 = w\<lparr>bw_served := Suc (bw_served w), bw_logs := put_partition (topic, part) l (bw_logs w)\<rparr>"
  have one: "serve_one sf clock (ReqFetch topic part off 65536) [] w = w1\<lparr>bw_out := message_reply ?m\<rparr>"
    using w serve by (simp add: serve_one_def idle_def w1_def del: if_split)
  have body: "length (fetch_body topic part off) = 2 + length topic + 4 + 8 + 4" by (simp add: fetch_body_def)
  have parse: "parse_body 2 (fetch_body topic part off) = Inr (ReqFetch topic part off 65536)"
    using topic by (simp add: parse_body_def parse_fetch_frame)
  have bound: "0 < 2 + length topic + 4 + 8 + 4" "2 + length topic + 4 + 8 + 4 < 4294967296" using topic(2) by auto
  define bs where "bs = (case ?m of None \<Rightarrow> [] | Some bs \<Rightarrow> bs)"
  have bs: "?m = None \<or> ?m = Some bs" "length bs < 4294967296"
    by (auto simp: bs_def message_at_def split: if_splits)
  have "sendFetch (broker_net sf clock) topic part off w = (Inr ?m, w1\<lparr>bw_out := []\<rparr>)"
    unfolding sendFetch_def Let_def write_request_served [OF w body bound parse] one
    by (rule read_fetch_response_message [OF bs])
  moreover have "idle (w1\<lparr>bw_out := []\<rparr>)" using w by (simp add: idle_def w1_def)
  ultimately show ?thesis by (simp add: w1_def)
qed

text \<open>On a partition without other replicas.\<close>

lemma sendProduce_broker:
  assumes w: "idle w" "led (bw_logs w) (topic, part) ms"
    and topic: "valid_utf8 topic" "length topic < 65536" "10 + length topic + length msg < 4294967296"
    and fits: "fits (ms @ [bytes_of msg])"
  shows "\<exists>w'. sendProduce (broker_net sf clock) topic part msg w = (Inr (word_of_nat (length ms)), w') \<and>
    idle w' \<and> led (bw_logs w') (topic, part) (ms @ [bytes_of msg])"
proof -
  let ?now = "clock (bw_served w)"
  let ?l = "current_log ?now (topic, part) (bw_logs w)"
  have l: "holds ?l ms" "hw_ok ?l" "other_replicas ?l = {}" using w(2) by (auto simp: led_def Let_def)
  from sendProduce_log [where clock = clock, OF w(1) l(1) topic fits] append_led [OF l fits, of ?now]
  show ?thesis by (metis led_put)
qed

lemma sendFetch_broker:
  assumes w: "idle w" "led (bw_logs w) (topic, part) ms"
    and topic: "valid_utf8 topic" "length topic < 65536"
    and sf: "sendfile_ok sf" and small: "\<forall>m \<in> set ms. length m < 2 ^ 32"
  shows "\<exists>w'. sendFetch (broker_net sf clock) topic part off w = (Inr (message_at ms off 65536), w') \<and>
    idle w' \<and> led (bw_logs w') (topic, part) ms"
proof -
  let ?l = "current_log (clock (bw_served w)) (topic, part) (bw_logs w)"
  have l: "holds ?l ms" "hw_ok ?l" "other_replicas ?l = {}" using w(2) by (auto simp: led_def Let_def)
  have hw: "high_watermark ?l = word_of_nat (length ms)" using l by (simp add: hw_ok_def holds_next_offset)
  have len: "length ms < 2 ^ 64" using holds_fits [OF l(1)] by (simp add: fits_def)
  have "message_at ms off 65536 = None" if "\<not> off < high_watermark ?l"
    using that len by (simp add: hw word_less_nat_alt unat_word_of_nat_u64 message_at_def)
  then have "(if off < high_watermark ?l then message_at ms off 65536 else None) = message_at ms off 65536" by simp
  then obtain w' where "sendFetch (broker_net sf clock) topic part off w = (Inr (message_at ms off 65536), w')"
      "idle w'" "bw_logs w' = put_partition (topic, part) ?l (bw_logs w)"
    using sendFetch_log [where clock = clock and off = off, OF w(1) l(1) topic sf small] by auto
  then show ?thesis using l by (simp add: led_put)
qed

section \<open>Properties\<close>

fun produce_all ::
  "'w net \<Rightarrow> string \<Rightarrow> u32 \<Rightarrow> string list \<Rightarrow> 'w \<Rightarrow> (error + u64) list \<times> 'w"
where
  "produce_all net topic part [] w = ([], w)"
| "produce_all net topic part (m # ms) w =
     (let (r, w) = sendProduce net topic part m w; (rs, w) = produce_all net topic part ms w in (r # rs, w))"

lemma produce_all_led:
  assumes "idle w" "led (bw_logs w) (topic, part) ms" "valid_utf8 topic" "length topic < 65536"
    and "\<forall>m \<in> set msgs. 10 + length topic + length m < 4294967296" "fits (ms @ map bytes_of msgs)"
  shows "\<exists>w'. produce_all (broker_net sf clock) topic part msgs w =
      (map (\<lambda>k. Inr (word_of_nat (length ms + k))) [0..<length msgs], w') \<and>
    idle w' \<and> led (bw_logs w') (topic, part) (ms @ map bytes_of msgs)"
  using assms
proof (induction msgs arbitrary: w ms)
  case (Cons m msgs)
  have "fits (ms @ [bytes_of m])" using Cons.prems(6) fits_prefix [of "ms @ [bytes_of m]"] by simp
  then obtain w1 where w1: "sendProduce (broker_net sf clock) topic part m w = (Inr (word_of_nat (length ms)), w1)"
      "idle w1" "led (bw_logs w1) (topic, part) (ms @ [bytes_of m])"
    using sendProduce_broker [OF Cons.prems(1-4), of m sf clock] Cons.prems(5) by auto
  obtain w2 where w2: "produce_all (broker_net sf clock) topic part msgs w1 =
      (map (\<lambda>k. Inr (word_of_nat (length (ms @ [bytes_of m]) + k))) [0..<length msgs], w2)"
      "idle w2" "led (bw_logs w2) (topic, part) ((ms @ [bytes_of m]) @ map bytes_of msgs)"
    using Cons.IH [OF w1(2,3) Cons.prems(3,4)] Cons.prems(5,6) by auto
  have "map (\<lambda>k. Inr (word_of_nat (length ms + k)) :: error + u64) [0..<length (m # msgs)] =
      Inr (word_of_nat (length ms)) # map (\<lambda>k. Inr (word_of_nat (length (ms @ [bytes_of m]) + k))) [0..<length msgs]"
    unfolding length_Cons map_upt_Suc by simp
  then show ?case using w1(1) w2 by (simp del: upt_Suc)
qed simp

lemma broker_serves:
  assumes sf: "sendfile_ok sf" and topic: "valid_utf8 topic" "length topic < 65536"
    and ms: "\<forall>m \<in> set ms. m \<noteq> [] \<and> length m \<le> 65536" "fits ms"
  shows "serves (\<lambda>w. idle w \<and> led (bw_logs w) (topic, part) ms) (broker_net sf clock) topic part 0 ms"
  unfolding serves_def
proof (intro allI impI)
  fix w k
  assume w: "idle w \<and> led (bw_logs w) (topic, part) ms" and k: "k \<le> length ms"
  have "unat (word_of_nat k :: u64) = k" using k ms(2) by (intro unat_word_of_nat_u64) (simp add: fits_def)
  then have "message_at ms (word_of_nat k) 65536 = (if k < length ms then Some (ms ! k) else None)"
    using ms(1) by (auto simp: message_at_def)
  moreover have "\<forall>m \<in> set ms. length m < 2 ^ 32" using ms(1) by fastforce
  ultimately show "\<exists>w'. (idle w' \<and> led (bw_logs w') (topic, part) ms) \<and>
      sendFetch (broker_net sf clock) topic part (0 + word_of_nat k) w =
        (Inr (if k < length ms then Some (ms ! k) else None), w')"
    using sendFetch_broker [of w topic part ms sf clock "word_of_nat k"] w topic sf by auto
qed

text \<open>
  Produce, then consume.  On an empty partition that waits for no other replica, the Go client's
  produce requests are answered with the offsets 0, 1, 2 and so on, and the Go consumer started at
  offset 0 afterwards ends and prints exactly those messages, in order, under these offsets, for
  messages of 1 to 65536 bytes.  Segment roll-over and retention in the broker cannot be noticed.
\<close>

lemma produce_then_consume:
  assumes "sendfile_ok sf" "valid_utf8 topic" "length topic < 65536" "idle w" "led (bw_logs w) (topic, part) []"
    and "\<forall>m \<in> set msgs. m \<noteq> [] \<and> length m \<le> 65536" "fits (map bytes_of msgs)" "length msgs < fuel"
  shows "\<exists>w1 w2. produce_all (broker_net sf clock) topic part msgs w =
      (map (\<lambda>k. Inr (word_of_nat k)) [0..<length msgs], w1) \<and>
    consume_loop fuel (broker_net sf clock) topic part 0 False [] w1 =
      Some (Inr (map (\<lambda>k. (word_of_nat k, bytes_of (msgs ! k))) [0..<length msgs]), w2)"
proof -
  have "\<forall>m \<in> set msgs. 10 + length topic + length m < 4294967296" using assms(3,6) by fastforce
  then obtain w1 where w1: "produce_all (broker_net sf clock) topic part msgs w =
      (map (\<lambda>k. Inr (word_of_nat k)) [0..<length msgs], w1)"
      "idle w1" "led (bw_logs w1) (topic, part) (map bytes_of msgs)"
    using produce_all_led [OF assms(4,5,2,3), of msgs sf clock] assms(7) by auto
  have "serves (\<lambda>w. idle w \<and> led (bw_logs w) (topic, part) (map bytes_of msgs)) (broker_net sf clock) topic part 0
      (map bytes_of msgs)"
    using assms(1-3,6,7) by (intro broker_serves) (auto simp: bytes_of_def)
  from consume_loop_serves [OF this, of w1 fuel "[]"] obtain w2 where
    "consume_loop fuel (broker_net sf clock) topic part 0 False [] w1 =
      Some (Inr (map (\<lambda>k. (0 + word_of_nat k, map bytes_of msgs ! k)) [0..<length (map bytes_of msgs)]), w2)"
    using w1(2,3) assms(8) by (auto simp del: map_eq_conv)
  moreover have "map (\<lambda>k. (0 + word_of_nat k :: u64, map bytes_of msgs ! k)) [0..<length (map bytes_of msgs)] =
      map (\<lambda>k. (word_of_nat k, bytes_of (msgs ! k))) [0..<length msgs]" by simp
  ultimately show ?thesis using w1(1) by (intro exI [of _ w1] exI [of _ w2] conjI) simp_all
qed

definition empty_broker :: broker_world where
  "empty_broker = \<lparr>bw_in = [], bw_out = [], bw_err = None, bw_served = 0,
     bw_logs = NewLogManager (\<lambda>key. \<lparr>pd_legacy = None, pd_local = Map.empty, pd_cold = Map.empty\<rparr>) 1\<rparr>"

lemma produce_then_consume_example:
  "\<exists>w1 w2. produce_all (broker_net (\<lambda>off n. int n) int) ''t'' 0 [''hi'', ''you''] empty_broker = ([Inr 0, Inr 1], w1) \<and>
     consume_loop 3 (broker_net (\<lambda>off n. int n) int) ''t'' 0 0 False [] w1 =
       Some (Inr [(0, [104, 105]), (1, [121, 111, 117])], w2)"
proof -
  have "led (bw_logs empty_broker) (''t'', 0) []"
    by (rule led_fresh) (simp_all add: empty_broker_def NewLogManager_def)
  moreover have "idle empty_broker" by (simp add: idle_def empty_broker_def)
  moreover have "valid_utf8 ''t''" by code_simp
  ultimately show ?thesis
    using produce_then_consume [of "\<lambda>off n. int n" "''t''" empty_broker 0 "[''hi'', ''you'']" 3 int]
    by (simp add: sendfile_ok_def fits_def bytes_of_def)
qed

end
