(* ===== verification/Replication.thy ===== *)
theory Replication
  imports Broker_World Pb
begin

text \<open>
  Replication of a partition (\<open>replicate_partition\<close> in \<open>rust-broker/src/grpc/mod.rs\<close>): a follower asks
  the leader for the message at its own next offset and appends what it gets.  The controller's
  metadata request and the TCP connection are arguments; in the lemmas the connection is the one
  to a broker of \<open>Broker_World\<close>, which records the follower's progress.

  A task of this kind is spawned with every heartbeat response, whether or not an earlier one still runs; the
  step relation at the end has any number of them, interleaved.
\<close>

section \<open>The request and its response\<close>

definition replica_fetch ::
  "'w net \<Rightarrow> u32 \<Rightarrow> string \<Rightarrow> u32 \<Rightarrow> u64 \<Rightarrow> 'w \<Rightarrow> (error + byte list option) \<times> 'w"
where
  "replica_fetch net bid topic part off w =
     (case net_Write net (replica_fetch_request bid topic part off) w of
        (Some err, w) \<Rightarrow> (Inl err, w)
      | (None, w) \<Rightarrow>
          (case net_ReadFull net 3 w of
             (Inl err, w) \<Rightarrow> (Inl err, w)
           | (Inr resp_header, w) \<Rightarrow>
               if resp_header ! 0 \<noteq> 0xAE \<or> resp_header ! 1 \<noteq> 0x01
               then (Inl ''Invalid protocol magic in replica response'', w)
               else if resp_header ! 2 = 2 then
                 (case net_ReadFull net 4 w of
                    (Inl err, w) \<Rightarrow> (Inl err, w)
                  | (Inr len_buf, w) \<Rightarrow>
                      (case net_ReadFull net (unat (Uint32 len_buf)) w of
                         (Inl err, w) \<Rightarrow> (Inl err, w)
                       | (Inr payload, w) \<Rightarrow> (Inr (Some payload), w)))
               else (Inr None, w)))"

definition append_replica :: "int \<Rightarrow> partition_key \<Rightarrow> byte list \<Rightarrow> LogManager \<Rightarrow> LogManager" where
  "append_replica now key payload lm =
     (let (l, lm) = get_partition now key lm in put_partition key (snd (append_log now payload l)) lm)"

definition replicate_partition ::
  "(MetadataRequest \<Rightarrow> error + MetadataResponse) \<Rightarrow> (string \<Rightarrow> 'w \<Rightarrow> (error + 'w net) \<times> 'w) \<Rightarrow> int \<Rightarrow>
   u32 \<Rightarrow> string \<Rightarrow> u32 \<Rightarrow> u32 \<Rightarrow> LogManager \<times> 'w \<Rightarrow> (error + unit) \<times> LogManager \<times> 'w"
where
  "replicate_partition rpc dial now bid topic part leader_id = (\<lambda>(lm, w).
     if leader_id = bid then (Inr (), lm, w)
     else
       case rpc \<lparr>mdq_Topics = [topic]\<rparr> of
         Inl err \<Rightarrow> (Inl err, lm, w)
       | Inr meta_resp \<Rightarrow>
           (case List.find (\<lambda>b. bi_BrokerId b = leader_id) (mdr_Brokers meta_resp) of
              None \<Rightarrow> (Inl (''Leader broker '' @ show_u32 leader_id @ '' not found in cluster metadata''), lm, w)
            | Some leader \<Rightarrow>
                let leader_addr = bi_Host leader @ '':'' @ show_i32 (bi_Port leader);
                    (l, lm) = get_partition now (topic, part) lm
                in case dial leader_addr w of
                     (Inl err, w) \<Rightarrow> (Inl err, lm, w)
                   | (Inr stream, w) \<Rightarrow>
                       (case replica_fetch stream bid topic part (next_offset l) w of
                          (Inl err, w) \<Rightarrow> (Inl err, lm, w)
                        | (Inr None, w) \<Rightarrow> (Inr (), lm, w)
                        | (Inr (Some payload), w) \<Rightarrow>
                            (Inr (), append_replica now (topic, part) payload lm, w))))"

section \<open>The leader's answer\<close>

lemma pump_request:
  assumes "idle w" "frame_ready input" "read_request input = Request r []"
  shows "pump sf clock (w\<lparr>bw_in := input\<rparr>) = serve_one sf clock r [] w"
proof -
  have "pump sf clock (w\<lparr>bw_in := input\<rparr>) = pump sf clock (serve_one sf clock r [] (w\<lparr>bw_in := input\<rparr>))"
    using assms by (subst pump.simps) (simp add: idle_def)
  also have "\<dots> = serve_one sf clock r [] w"
    using assms(1) by (subst pump_idle) (simp_all add: idle_def serve_one_def Let_def split: prod.split)
  finally show ?thesis .
qed

text \<open>
  The leader's log keeps its messages; the follower's progress is recorded.
\<close>

definition leading :: "LogManager \<Rightarrow> partition_key \<Rightarrow> byte list list \<Rightarrow> u32 set \<Rightarrow> bool" where
  "leading lm key ms ids \<longleftrightarrow> (\<exists>l. partitions lm key = Some l \<and> holds l ms \<and> hw_ok l \<and> other_replicas l = ids)"

definition watermark :: "LogManager \<Rightarrow> partition_key \<Rightarrow> u64" where
  "watermark lm key = (case partitions lm key of Some l \<Rightarrow> high_watermark l | None \<Rightarrow> 0)"

definition progress :: "LogManager \<Rightarrow> partition_key \<Rightarrow> u32 \<Rightarrow> u64" where
  "progress lm key r = (case partitions lm key of Some l \<Rightarrow> follower_progress l r | None \<Rightarrow> 0)"

lemma serve_replica_fetch_log:
  assumes "partitions lm (topic, part) = Some l" "holds l ms" "sendfile_ok sf" "\<forall>m \<in> set ms. length m < 2 ^ 32"
  shows "serve_replica_fetch sf now r topic part off n lm =
    ((message_reply (message_at ms off n), None), put_partition (topic, part) (update_follower_offset r off l) lm)"
proof -
  have "holds (update_follower_offset r off l) ms" using exec_op_holds [of l ms "FollowerOp r off"] assms(2) holds_fits by simp
  from read_reply_holds [OF this assms(4,3), of off n] show ?thesis
    using assms(1) by (simp add: serve_replica_fetch_def get_partition_def)
qed

lemma replica_fetch_log:
  assumes w: "idle w" and l: "partitions (bw_logs w) (topic, part) = Some l" "holds l ms"
    and topic: "valid_utf8 topic" "length topic < 65536"
    and sf: "sendfile_ok sf" and small: "\<forall>m \<in> set ms. length m < 2 ^ 32"
  shows "\<exists>w'. replica_fetch (broker_net sf clock) bid topic part off w = (Inr (message_at ms off 65536), w') \<and>
    idle w' \<and> bw_logs w' = put_partition (topic, part) (update_follower_offset bid off l) (bw_logs w)"
proof -
  let ?m = "message_at ms off 65536" and ?n = "4 + 2 + length topic + 4 + 8 + 4"
  let ?lm = "put_partition (topic, part) (update_follower_offset bid off l) (bw_logs w)"
  define w1 where "w1 = w\<lparr>bw_served := Suc (bw_served w), bw_logs := ?lm\<rparr>"
  have one: "serve_one sf clock (ReqReplicaFetch bid topic part off 65536) [] w = w1\<lparr>bw_out := message_reply ?m\<rparr>"
    using w serve_replica_fetch_log [OF l sf small] by (simp add: serve_one_def idle_def w1_def)
  have parse: "parse_body 3 (replica_fetch_body bid topic part off) = Inr (ReqReplicaFetch bid topic part off 65536)"
    using topic by (simp add: parse_body_def parse_replica_fetch_frame)
  have body: "length (replica_fetch_body bid topic part off) = ?n" "?n < 4294967296"
    using topic(2) by (simp_all add: replica_fetch_body_def)
  have "pump sf clock (w\<lparr>bw_in := replica_fetch_request bid topic part off\<rparr>) = w1\<lparr>bw_out := message_reply ?m\<rparr>"
    unfolding replica_fetch_request_def one [symmetric]
    using read_request_frame [OF body parse, of "[]"] frame_is_ready [OF body]
    by (intro pump_request [OF w]) simp_all
  then have "net_Write (broker_net sf clock) (replica_fetch_request bid topic part off) w =
      (None, w1\<lparr>bw_out := message_reply ?m\<rparr>)"
    using w by (simp add: broker_net_def idle_def)
  moreover have "length bs < 4294967296" if "?m = Some bs" for bs
    using that by (auto simp: message_at_def split: if_splits)
  ultimately have "replica_fetch (broker_net sf clock) bid topic part off w = (Inr ?m, w1\<lparr>bw_out := []\<rparr>)"
    by (cases ?m) (simp_all add: replica_fetch_def message_reply_def broker_net_def unat_of_length_u32)
  then show ?thesis using w by (simp add: w1_def idle_def)
qed

lemma replica_fetch_leading:
  assumes w: "idle w" "leading (bw_logs w) (topic, part) ms ids"
    and topic: "valid_utf8 topic" "length topic < 65536"
    and sf: "sendfile_ok sf" and small: "\<forall>m \<in> set ms. length m < 2 ^ 32"
  shows "\<exists>w'. replica_fetch (broker_net sf clock) bid topic part off w = (Inr (message_at ms off 65536), w') \<and>
    idle w' \<and> leading (bw_logs w') (topic, part) ms ids \<and>
    progress (bw_logs w') (topic, part) = (progress (bw_logs w) (topic, part))(bid := off)"
proof -
  obtain l where l: "partitions (bw_logs w) (topic, part) = Some l" "holds l ms" "hw_ok l" "other_replicas l = ids"
    using w(2) by (auto simp: leading_def)
  let ?l = "update_follower_offset bid off l"
  have "holds ?l ms" using exec_op_holds [of l ms "FollowerOp bid off"] l(2) holds_fits by simp
  moreover have "hw_ok ?l" using exec_op_hw_ok [of "FollowerOp bid off" l] by simp
  moreover have "other_replicas ?l = ids" "follower_progress ?l = (follower_progress l)(bid := off)"
    using l(4) by (simp_all add: update_follower_offset_def follower_progress_def other_replicas_def fun_eq_iff)
  ultimately show ?thesis
    using replica_fetch_log [OF w(1) l(1,2) topic sf small, of clock bid off] l(1)
    by (auto simp: leading_def progress_def put_partition_def fun_eq_iff)
qed

section \<open>One round\<close>

definition copied :: "byte list list \<Rightarrow> nat \<Rightarrow> byte list list" where
  "copied ms k = (case message_at ms (word_of_nat k) 65536 of None \<Rightarrow> [] | Some m \<Rightarrow> [m])"

text \<open>
  The surroundings of a follower task: the metadata has the leader, and dialing its address gives a
  connection to it.
\<close>

definition leader_reachable ::
  "(MetadataRequest \<Rightarrow> error + MetadataResponse) \<Rightarrow> (string \<Rightarrow> 'w \<Rightarrow> (error + 'w net) \<times> 'w) \<Rightarrow>
   string \<Rightarrow> u32 \<Rightarrow> 'w net \<Rightarrow> bool"
where
  "leader_reachable rpc dial topic leader_id net \<longleftrightarrow>
     (\<exists>resp b. rpc \<lparr>mdq_Topics = [topic]\<rparr> = Inr resp \<and>
        List.find (\<lambda>b. bi_BrokerId b = leader_id) (mdr_Brokers resp) = Some b \<and>
        (\<forall>w. dial (bi_Host b @ '':'' @ show_i32 (bi_Port b)) w = (Inr net, w)))"

lemma append_replica_stores:
  assumes "stores lm key ns" "fits (ns @ [m])"
  shows "stores (append_replica now key m lm) key (ns @ [m])"
proof -
  have "holds (fst (get_partition now key lm)) ns" using assms(1) by (simp add: stores_def current_log_def)
  then show ?thesis
    using plog.append_represents assms(2) by (simp add: append_replica_def split_beta stores_put)
qed

lemma replicate_partition_round:
  assumes reach: "leader_reachable rpc dial topic leader_id (broker_net sf clock)" and other: "leader_id \<noteq> bid"
    and w: "idle w" "leading (bw_logs w) (topic, part) ms ids"
    and topic: "valid_utf8 topic" "length topic < 65536" and sf: "sendfile_ok sf"
    and ms: "\<forall>m \<in> set ms. length m < 2 ^ 32"
    and f: "stores lm (topic, part) ns" "fits (ns @ copied ms (length ns))"
  shows "\<exists>lm' w'. replicate_partition rpc dial now bid topic part leader_id (lm, w) = (Inr (), lm', w') \<and>
    stores lm' (topic, part) (ns @ copied ms (length ns)) \<and> idle w' \<and> leading (bw_logs w') (topic, part) ms ids \<and>
    progress (bw_logs w') (topic, part) bid = word_of_nat (length ns)"
proof -
  obtain resp b where r: "rpc \<lparr>mdq_Topics = [topic]\<rparr> = Inr resp"
      "List.find (\<lambda>b. bi_BrokerId b = leader_id) (mdr_Brokers resp) = Some b"
      "\<And>w. dial (bi_Host b @ '':'' @ show_i32 (bi_Port b)) w = (Inr (broker_net sf clock), w)"
    using reach by (auto simp: leader_reachable_def)
  define l where "l = fst (get_partition now (topic, part) lm)"
  define lm1 where "lm1 = snd (get_partition now (topic, part) lm)"
  have get: "get_partition now (topic, part) lm = (l, lm1)" by (simp add: l_def lm1_def)
  have nxt: "next_offset l = word_of_nat (length ns)"
    using f(1) by (auto simp: stores_def current_log_def l_def intro: holds_next_offset)
  have st: "stores lm1 (topic, part) ns" unfolding lm1_def using f(1) by (rule stores_get)
  obtain w' where w': "replica_fetch (broker_net sf clock) bid topic part (word_of_nat (length ns)) w =
      (Inr (message_at ms (word_of_nat (length ns)) 65536), w')"
      "idle w'" "leading (bw_logs w') (topic, part) ms ids" "progress (bw_logs w') (topic, part) bid = word_of_nat (length ns)"
    using replica_fetch_leading [OF w topic sf ms, of clock bid "word_of_nat (length ns)"] by auto
  show ?thesis
  proof (cases "message_at ms (word_of_nat (length ns)) 65536")
    case None
    then show ?thesis
      using r w' st other by (simp add: replicate_partition_def get nxt copied_def)
  next
    case (Some m)
    then have "stores (append_replica now (topic, part) m lm1) (topic, part) (ns @ copied ms (length ns))"
      using append_replica_stores [OF st] f(2) by (simp add: copied_def)
    with Some show ?thesis
      using r w' other by (simp add: replicate_partition_def get nxt)
  qed
qed

section \<open>Rounds\<close>

fun replicate_rounds ::
  "(MetadataRequest \<Rightarrow> error + MetadataResponse) \<Rightarrow> (string \<Rightarrow> 'w \<Rightarrow> (error + 'w net) \<times> 'w) \<Rightarrow> (nat \<Rightarrow> int) \<Rightarrow>
   u32 \<Rightarrow> string \<Rightarrow> u32 \<Rightarrow> u32 \<Rightarrow> nat \<Rightarrow> LogManager \<times> 'w \<Rightarrow> LogManager \<times> 'w"
where
  "replicate_rounds rpc dial time bid topic part leader_id 0 s = s"
| "replicate_rounds rpc dial time bid topic part leader_id (Suc n) s =
     snd (replicate_partition rpc dial (time n) bid topic part leader_id
       (replicate_rounds rpc dial time bid topic part leader_id n s))"

text \<open>What a follower that starts empty has after \<open>n\<close> rounds.\<close>

fun after_rounds :: "byte list list \<Rightarrow> nat \<Rightarrow> byte list list" where
  "after_rounds ms 0 = []"
| "after_rounds ms (Suc n) = after_rounds ms n @ copied ms (length (after_rounds ms n))"

lemma after_rounds_take:
  assumes "\<forall>m \<in> set ms. m \<noteq> [] \<and> length m \<le> 65536" "fits ms"
  shows "after_rounds ms n = take n ms"
proof (induction n)
  case (Suc n)
  have "copied ms (length (take n ms)) = (if n < length ms then [ms ! n] else [])"
  proof (cases "n < length ms")
    case True
    then have "unat (word_of_nat n :: u64) = n" using assms(2) by (intro unat_word_of_nat_u64) (simp add: fits_def)
    moreover have "ms ! n \<noteq> []" "length (ms ! n) \<le> 65536" using assms(1) True by auto
    ultimately show ?thesis using True by (simp add: copied_def message_at_def)
  next
    case False
    have "unat (word_of_nat (length ms) :: u64) = length ms"
      using assms(2) by (intro unat_word_of_nat_u64) (simp add: fits_def)
    with False show ?thesis by (simp add: copied_def message_at_def)
  qed
  then show ?case using Suc by (simp add: take_Suc_conv_app_nth)
qed simp

lemma replicate_rounds_state:
  assumes reach: "leader_reachable rpc dial topic leader_id (broker_net sf clock)" and other: "leader_id \<noteq> bid"
    and w: "idle w" "leading (bw_logs w) (topic, part) ms ids"
    and topic: "valid_utf8 topic" "length topic < 65536" and sf: "sendfile_ok sf"
    and ms: "\<forall>m \<in> set ms. length m < 2 ^ 32" and f: "stores lm (topic, part) []" "fits (after_rounds ms n)"
  shows "\<exists>lm' w'. replicate_rounds rpc dial time bid topic part leader_id n (lm, w) = (lm', w') \<and>
    stores lm' (topic, part) (after_rounds ms n) \<and> idle w' \<and> leading (bw_logs w') (topic, part) ms ids \<and>
    (0 < n \<longrightarrow> progress (bw_logs w') (topic, part) bid = word_of_nat (length (after_rounds ms (n - 1))))"
  using f(2)
proof (induction n)
  case (Suc n)
  have "fits (after_rounds ms n)" using Suc.prems by (auto intro: fits_prefix)
  then obtain lm1 w1 where s: "replicate_rounds rpc dial time bid topic part leader_id n (lm, w) = (lm1, w1)"
      "stores lm1 (topic, part) (after_rounds ms n)" "idle w1" "leading (bw_logs w1) (topic, part) ms ids"
    using Suc.IH by blast
  show ?case
    using replicate_partition_round [OF reach other s(3,4) topic sf ms s(2), of "time n"] Suc.prems s(1) by auto
qed (use w f in simp)

lemma leading_watermark:
  assumes "leading lm key ms {r}" "progress lm key r = word_of_nat k" "k \<le> length ms"
  shows "watermark lm key = word_of_nat k"
proof -
  obtain l where l: "partitions lm key = Some l" "holds l ms" "hw_ok l" "other_replicas l = {r}"
    using assms(1) by (auto simp: leading_def)
  have "length ms < 2 ^ 64" using holds_fits [OF l(2)] by (simp add: fits_def)
  then have "(word_of_nat k :: u64) \<le> word_of_nat (length ms)" using assms(3) by (subst word_of_nat_le_u64) auto
  then show ?thesis
    using l assms(2) by (simp add: watermark_def progress_def hw_ok_def holds_next_offset min_absorb2)
qed

lemma after_rounds_stuck:
  assumes "k < length ms" "\<forall>i < k. ms ! i \<noteq> [] \<and> length (ms ! i) \<le> 65536" "ms ! k = []" "fits ms"
  shows "after_rounds ms (k + n) = take k ms"
proof -
  have fit: "unat (word_of_nat i :: u64) = i" if "i < length ms" for i
    using that assms(4) by (intro unat_word_of_nat_u64) (simp add: fits_def)
  have take: "after_rounds ms i = take i ms" if "i \<le> k" for i
    using that
  proof (induction i)
    case (Suc i)
    then have "copied ms i = [ms ! i]" using assms(1,2) fit [of i] by (simp add: copied_def message_at_def)
    then show ?case using Suc assms(1) by (simp add: take_Suc_conv_app_nth)
  qed simp
  have "copied ms k = []" using assms(1,3) fit by (simp add: copied_def message_at_def)
  then show ?thesis using take [of k] assms(1) by (induction n) simp_all
qed

section \<open>Interleaved tasks\<close>

text \<open>
  Tasks of one follower partition whose leader holds \<open>ms\<close>: each reads the next offset under the lock,
  later has the leader's answer to that offset, and appends it under the lock again.  Between
  these steps the other tasks may run.
\<close>

datatype task = Started | Asked u64 | Received "byte list" | Ended

inductive task_step ::
  "byte list list \<Rightarrow> partition_key \<Rightarrow> LogManager \<times> task list \<Rightarrow> LogManager \<times> task list \<Rightarrow> bool"
  for ms key
where
  spawn: "task_step ms key (lm, ts) (lm, ts @ [Started])"
| ask: "i < length ts \<Longrightarrow> ts ! i = Started \<Longrightarrow> get_partition now key lm = (l, lm') \<Longrightarrow>
    task_step ms key (lm, ts) (lm', ts[i := Asked (next_offset l)])"
| answer: "i < length ts \<Longrightarrow> ts ! i = Asked off \<Longrightarrow>
    task_step ms key (lm, ts)
      (lm, ts[i := (case message_at ms off 65536 of None \<Rightarrow> Ended | Some m \<Rightarrow> Received m)])"
| store: "i < length ts \<Longrightarrow> ts ! i = Received m \<Longrightarrow>
    task_step ms key (lm, ts) (append_replica now key m lm, ts[i := Ended])"

definition running :: "task list \<Rightarrow> nat" where
  "running ts = length (filter (\<lambda>t. t \<noteq> Ended) ts)"

text \<open>Runs in which a task is spawned only when no other is running.\<close>

definition serial_step ::
  "byte list list \<Rightarrow> partition_key \<Rightarrow> LogManager \<times> task list \<Rightarrow> LogManager \<times> task list \<Rightarrow> bool"
where
  "serial_step ms key s s' \<longleftrightarrow> task_step ms key s s' \<and> running (snd s') \<le> 1"

inductive_cases task_stepE: "task_step ms key (lm, ts) s'"

lemmas task_step_cases = task_stepE [consumes 1, case_names spawn ask answer store]

lemma running_end:
  assumes "i < length ts" "ts ! i \<noteq> Ended"
  shows "running ts = Suc (running (ts[i := Ended]))"
proof -
  have "running (take i ts @ ts ! i # drop (Suc i) ts) = Suc (running (take i ts @ Ended # drop (Suc i) ts))"
    using assms(2) by (simp add: running_def)
  then show ?thesis using id_take_nth_drop [OF assms(1)] upd_conv_take_nth_drop [OF assms(1), of Ended] by simp
qed

lemma running_0: "running ts = 0 \<Longrightarrow> t \<in> set ts \<Longrightarrow> t = Ended"
  by (auto simp: running_def filter_empty_conv)

definition task_ok :: "byte list list \<Rightarrow> nat \<Rightarrow> task \<Rightarrow> bool" where
  "task_ok ms k t =
     (case t of Asked off \<Rightarrow> off = word_of_nat k | Received m \<Rightarrow> k < length ms \<and> m = ms ! k | _ \<Rightarrow> True)"

lemma task_ok_simps [simp]:
  "task_ok ms k Started" "task_ok ms k Ended" "task_ok ms k (Asked off) = (off = word_of_nat k)"
  "task_ok ms k (Received m) = (k < length ms \<and> m = ms ! k)"
  by (simp_all add: task_ok_def)

definition prefix_ok :: "byte list list \<Rightarrow> partition_key \<Rightarrow> LogManager \<times> task list \<Rightarrow> bool" where
  "prefix_ok ms key s \<longleftrightarrow> running (snd s) \<le> 1 \<and>
     (\<exists>k \<le> length ms. stores (fst s) key (take k ms) \<and> (\<forall>t \<in> set (snd s). task_ok ms k t))"

lemma update_task_ok:
  "\<forall>t \<in> set ts. task_ok ms k t \<Longrightarrow> task_ok ms k t' \<Longrightarrow> \<forall>t \<in> set (ts[i := t']). task_ok ms k t"
  using set_update_subset_insert [of ts i t'] by auto

lemma copied_message:
  assumes "\<forall>m \<in> set ms. m \<noteq> [] \<and> length m \<le> 65536" "fits ms" "k \<le> length ms"
  shows "message_at ms (word_of_nat k) 65536 = (if k < length ms then Some (ms ! k) else None)"
proof -
  have "unat (word_of_nat k :: u64) = k" using assms(2,3) by (intro unat_word_of_nat_u64) (simp add: fits_def)
  then show ?thesis using assms(1) by (auto simp: message_at_def)
qed

lemma serial_step_prefix:
  assumes msgs: "\<forall>m \<in> set ms. m \<noteq> [] \<and> length m \<le> 65536" "fits ms"
    and step: "serial_step ms key s s'" and ok: "prefix_ok ms key s"
  shows "prefix_ok ms key s'"
proof -
  obtain lm ts where s: "s = (lm, ts)" by (cases s)
  obtain k where k: "k \<le> length ms" "stores lm key (take k ms)" "\<forall>t \<in> set ts. task_ok ms k t"
    and run: "running ts \<le> 1" using ok by (auto simp: prefix_ok_def s)
  have run': "running (snd s') \<le> 1" and st: "task_step ms key (lm, ts) s'"
    using step by (auto simp: serial_step_def s)
  from st show ?thesis
  proof (cases rule: task_step_cases)
    case spawn
    then show ?thesis using k run' by (auto simp: prefix_ok_def)
  next
    case (ask i now l lm')
    have "next_offset l = word_of_nat k"
      using holds_next_offset [of l "take k ms"] k(1,2) ask(4) by (auto simp: stores_def current_log_def dest: spec [of _ now])
    moreover have "stores lm' key (take k ms)" using stores_get [OF k(2), of now key] ask(4) by simp
    ultimately show ?thesis
      using k run' ask(1) update_task_ok [OF k(3), of "Asked (next_offset l)" i] by (auto simp: prefix_ok_def)
  next
    case (answer i off)
    have "off = word_of_nat k" using k(3) nth_mem [OF answer(2)] answer(3) by fastforce
    then have "task_ok ms k (case message_at ms off 65536 of None \<Rightarrow> Ended | Some m \<Rightarrow> Received m)"
      using copied_message [OF msgs k(1)] by simp
    then show ?thesis
      using k run' answer(1) update_task_ok [OF k(3)] by (auto simp: prefix_ok_def)
  next
    case (store i m now)
    have m: "k < length ms" "m = ms ! k" using k(3) nth_mem [OF store(2)] store(3) by fastforce+
    then have take: "take (Suc k) ms = take k ms @ [m]" by (simp add: take_Suc_conv_app_nth)
    have "fits (take k ms @ [m])" using fits_take [OF msgs(2), of "Suc k"] by (simp only: take)
    then have "stores (append_replica now key m lm) key (take (Suc k) ms)"
      using append_replica_stores [OF k(2)] by (simp add: take)
    moreover have "running (ts[i := Ended]) = 0" using running_end [OF store(2)] store(3) run by simp
    then have "\<forall>t \<in> set (ts[i := Ended]). t = Ended" by (blast dest: running_0)
    then have "\<forall>t \<in> set (ts[i := Ended]). task_ok ms (Suc k) t" by auto
    ultimately show ?thesis using m(1) run' store(1) by (auto simp: prefix_ok_def intro!: exI [of _ "Suc k"])
  qed
qed

lemma serial_steps_prefix:
  assumes "\<forall>m \<in> set ms. m \<noteq> [] \<and> length m \<le> 65536" "fits ms"
    and "(serial_step ms key)\<^sup>*\<^sup>* s s'" "prefix_ok ms key s"
  shows "prefix_ok ms key s'"
  using assms(3,4) by (induction rule: rtranclp_induct) (auto intro: serial_step_prefix [OF assms(1,2)])

section \<open>Properties\<close>


text \<open>
  C39: an empty message stops replication.  Once the leader has an empty message at offset \<open>k\<close>, a
  follower has the first \<open>k\<close> messages after \<open>k\<close> rounds and after any number of further rounds, and
  the leader's high watermark does not pass \<open>k\<close>: no later message reaches a consumer.
\<close>

theorem empty_message_stalls:
  assumes "leader_reachable rpc dial topic leader_id (broker_net sf clock)" "leader_id \<noteq> bid"
    and "idle w" "leading (bw_logs w) (topic, part) ms {bid}" "valid_utf8 topic" "length topic < 65536" "sendfile_ok sf"
    and "\<forall>m \<in> set ms. length m \<le> 65536" "stores lm (topic, part) []"
    and "k < length ms" "\<forall>i < k. ms ! i \<noteq> []" "ms ! k = []"
  shows "\<exists>lm' w'. replicate_rounds rpc dial time bid topic part leader_id (Suc k + n) (lm, w) = (lm', w') \<and>
    stores lm' (topic, part) (take k ms) \<and> watermark (bw_logs w') (topic, part) = word_of_nat k"
proof -
  have fits: "fits ms" using assms(4) by (auto simp: leading_def intro: holds_fits)
  have rounds: "after_rounds ms (k + n) = take k ms" for n
    using assms(8,10-12) fits by (intro after_rounds_stuck) auto
  have small: "\<forall>m \<in> set ms. length m < 2 ^ 32" using assms(8) by fastforce
  have eq: "Suc k + n = k + Suc n" "Suc k + n - 1 = k + n" by auto
  have "fits (after_rounds ms (Suc k + n))" unfolding eq(1) rounds using fits by (rule fits_take)
  from replicate_rounds_state [OF assms(1-7) small assms(9) this, of time]
  obtain lm' w' where r: "replicate_rounds rpc dial time bid topic part leader_id (Suc k + n) (lm, w) = (lm', w')"
      "stores lm' (topic, part) (after_rounds ms (Suc k + n))" "leading (bw_logs w') (topic, part) ms {bid}"
      "progress (bw_logs w') (topic, part) bid = word_of_nat (length (after_rounds ms (Suc k + n - 1)))"
    by auto
  then have "stores lm' (topic, part) (take k ms)" "progress (bw_logs w') (topic, part) bid = word_of_nat k"
    unfolding eq(2) unfolding eq(1) rounds using assms(10) by simp_all
  with r(1) leading_watermark [OF r(3)] assms(10) show ?thesis by auto
qed

text \<open>
  As long as no task of a partition starts while another is running, a follower's log is a prefix
  of the leader's at every moment.
\<close>

lemma serial_tasks_keep_prefix:
  assumes "(serial_step ms key)\<^sup>*\<^sup>* (lm, []) (lm', ts)" "stores lm key []"
    and "\<forall>m \<in> set ms. m \<noteq> [] \<and> length m \<le> 65536" "fits ms"
  shows "\<exists>k \<le> length ms. stores lm' key (take k ms)"
proof -
  have "prefix_ok ms key (lm, [])" using assms(2) by (simp add: prefix_ok_def running_def exI [of _ 0])
  from serial_steps_prefix [OF assms(3,4,1) this] show ?thesis by (auto simp: prefix_ok_def)
qed

text \<open>
  C31: but the broker does not wait for a task to end before it spawns the next one, and two
  overlapping tasks can both append the leader's message: the follower of a leader with one message
  ends up with it twice, and every later offset differs from the leader's.
\<close>

theorem overlapping_tasks_duplicate:
  assumes "stores lm key []" "m \<noteq> []" "length m \<le> 65536"
  shows "\<exists>lm' ts. (task_step [m] key)\<^sup>*\<^sup>* (lm, []) (lm', ts) \<and> stores lm' key [m, m]"
proof -
  let ?step = "task_step [m] key"
  define l where "l = current_log 0 key lm"
  define lm1 where "lm1 = snd (get_partition 0 key lm)"
  define lm2 where "lm2 = append_replica 0 key m lm1"
  have g: "get_partition 0 key lm = (l, lm1)" by (simp add: l_def lm1_def current_log_def)
  have part: "partitions lm1 key = Some l"
    by (auto simp: l_def lm1_def current_log_def get_partition_def Let_def split: option.split)
  have l: "holds l []" using assms(1) by (simp add: stores_def l_def)
  then have n: "next_offset l = 0" by (simp add: holds_next_offset)
  have g1: "get_partition 0 key lm1 = (l, lm1)" using part by (simp add: get_partition_def)
  have ans: "message_at [m] 0 65536 = Some m" using assms(2,3) by (simp add: message_at_def)
  have "?step (lm, []) (lm, [Started])" using spawn [of "[m]" key lm "[]"] by simp
  moreover have "?step (lm, [Started]) (lm, [Started, Started])" using spawn [of "[m]" key lm "[Started]"] by simp
  moreover have "?step (lm, [Started, Started]) (lm1, [Asked 0, Started])"
    using ask [of 0 "[Started, Started]" 0 key lm l lm1 "[m]"] g n by simp
  moreover have "?step (lm1, [Asked 0, Started]) (lm1, [Asked 0, Asked 0])"
    using ask [of 1 "[Asked 0, Started]" 0 key lm1 l lm1 "[m]"] g1 n by simp
  moreover have "?step (lm1, [Asked 0, Asked 0]) (lm1, [Received m, Asked 0])"
    using answer [of 0 "[Asked 0, Asked 0]" 0 "[m]" key lm1] ans by simp
  moreover have "?step (lm1, [Received m, Asked 0]) (lm1, [Received m, Received m])"
    using answer [of 1 "[Received m, Asked 0]" 0 "[m]" key lm1] ans by simp
  moreover have "?step (lm1, [Received m, Received m]) (lm2, [Ended, Received m])"
    using store [of 0 "[Received m, Received m]" m "[m]" key lm1 0] by (simp add: lm2_def)
  moreover have "?step (lm2, [Ended, Received m]) (append_replica 0 key m lm2, [Ended, Ended])"
    using store [of 1 "[Ended, Received m]" m "[m]" key lm2 0] by simp
  ultimately have "?step\<^sup>*\<^sup>* (lm, []) (append_replica 0 key m lm2, [Ended, Ended])"
    by (meson converse_rtranclp_into_rtranclp rtranclp.rtrancl_refl)
  moreover have "stores lm1 key []" unfolding lm1_def using assms(1) by (rule stores_get)
  then have "stores lm2 key [m]"
    unfolding lm2_def using append_replica_stores [of lm1 key "[]" m 0] assms(3) by (simp add: fits_def)
  then have "stores (append_replica 0 key m lm2) key [m, m]"
    using append_replica_stores [of lm2 key "[m]" m 0] assms(3) by (simp add: fits_def)
  ultimately show ?thesis by blast
qed

subsection \<open>Witnesses\<close>

text \<open>A leader, broker 1, with the messages \<open>ms\<close> and the other replica 2, and an empty broker 2.\<close>

definition demo_leader :: "byte list list \<Rightarrow> broker_world" where
  "demo_leader ms = empty_broker\<lparr>bw_logs := put_partition (''t'', 0)
     (fold exec_op (AssignOp [1, 2] # map (AppendOp 0) ms) (fresh_log 0 1 210 None None)) (bw_logs empty_broker)\<rparr>"

definition demo_follower :: LogManager where
  "demo_follower = NewLogManager (\<lambda>key. \<lparr>pd_legacy = None, pd_local = Map.empty, pd_cold = Map.empty\<rparr>) 2"

definition demo_rpc :: "MetadataRequest \<Rightarrow> error + MetadataResponse" where
  "demo_rpc req = Inr \<lparr>mdr_Brokers = [\<lparr>bi_BrokerId = 1, bi_Host = ''h'', bi_Port = 9091\<rparr>], mdr_Topics = []\<rparr>"

definition demo_dial :: "string \<Rightarrow> broker_world \<Rightarrow> (error + broker_world net) \<times> broker_world" where
  "demo_dial addr w = (Inr (broker_net (\<lambda>off n. int n) int), w)"

lemma demo_leading:
  assumes "fits ms"
  shows "leading (bw_logs (demo_leader ms)) (''t'', 0) ms {2}"
proof -
  let ?ops = "AssignOp [1, 2] # map (AppendOp 0) ms"
  let ?l = "fold exec_op ?ops (fresh_log 0 1 210 None None)"
  have app: "appended (map (AppendOp 0) ms) = ms" by (induction ms) simp_all
  have frame: "other_replicas (fold exec_op (map (AppendOp 0) ms) l) = other_replicas l" for l
    by (induction ms arbitrary: l) (simp_all add: other_replicas_def)
  have "other_replicas ?l = {2}"
    by (simp add: frame) (simp add: other_replicas_def assign_replicas_def fresh_log_def open_log_def Let_def)
  moreover have "holds ?l ms" using history_holds [of ?ops 0 1 210 None None] assms by (simp add: app)
  moreover have "hw_ok ?l" by (rule history_hw_ok)
  ultimately show ?thesis by (simp add: leading_def demo_leader_def put_partition_def)
qed

lemma demo_setting:
  "leader_reachable demo_rpc demo_dial ''t'' 1 (broker_net (\<lambda>off n. int n) int)"
  "idle (demo_leader ms)" "stores demo_follower (''t'', 0) []" "sendfile_ok (\<lambda>off n. int n)" "valid_utf8 ''t''"
proof -
  show "leader_reachable demo_rpc demo_dial ''t'' 1 (broker_net (\<lambda>off n. int n) int)"
    by (simp add: leader_reachable_def demo_rpc_def demo_dial_def)
  show "idle (demo_leader ms)" by (simp add: idle_def demo_leader_def empty_broker_def)
  show "stores demo_follower (''t'', 0) []" by (rule stores_fresh) (simp_all add: demo_follower_def NewLogManager_def)
  show "sendfile_ok (\<lambda>off n. int n)" by (simp add: sendfile_ok_def)
  show "valid_utf8 ''t''" by code_simp
qed


theorem empty_message_stalls_witness:
  "\<exists>lm' w'. replicate_rounds demo_rpc demo_dial int 2 ''t'' 0 1 9 (demo_follower, demo_leader [[7], [], [8, 9]]) = (lm', w') \<and>
     stores lm' (''t'', 0) [[7]] \<and> watermark (bw_logs w') (''t'', 0) = 1"
  using empty_message_stalls [of demo_rpc demo_dial "''t''" 1 "\<lambda>off n. int n" int 2 "demo_leader [[7], [], [8, 9]]" 0
      "[[7], [], [8, 9]]" demo_follower 1 int 7] demo_setting demo_leading [of "[[7], [], [8, 9]]"]
  by (simp add: fits_def del: replicate_rounds.simps)

lemma serial_tasks_keep_prefix_example:
  "\<exists>k \<le> length [[7 :: byte]]. stores demo_follower (''t'', 0) (take k [[7]])"
  using serial_tasks_keep_prefix [of "[[7]]" "(''t'', 0)" demo_follower demo_follower "[Started]"]
    demo_setting(3) spawn [of "[[7]]" "(''t'', 0)" demo_follower "[]"]
  by (simp add: fits_def r_into_rtranclp serial_step_def running_def)

theorem overlapping_tasks_duplicate_witness:
  "\<exists>lm' ts. (task_step [[7]] (''t'', 0))\<^sup>*\<^sup>* (demo_follower, []) (lm', ts) \<and> stores lm' (''t'', 0) [[7], [7]]"
  by (rule overlapping_tasks_duplicate) (simp_all add: demo_setting)

end
