(* ===== verification/Broker_Control.thy ===== *)
theory Broker_Control
  imports Replication Grpc_Server
begin

text \<open>
  The broker's control loop (\<open>run_control_plane_loop\<close> in \<open>rust-broker/src/grpc/mod.rs\<close>): connect and
  register, then send a heartbeat every two seconds and act on the answer.  A turn of the loop ends
  where the source sleeps, and where it gives up the connection.  The controller is an argument, three functions for the connection and
  the two calls; at the end of the theory it is the controller of \<open>Grpc_Server\<close>.
\<close>

section \<open>Requests\<close>

definition starts_with :: "string \<Rightarrow> string \<Rightarrow> bool" where
  "starts_with p s \<longleftrightarrow> take (length p) s = p"

definition controller_uri :: "string \<Rightarrow> string" where
  "controller_uri controller_addr =
     (if \<not> starts_with ''http://'' controller_addr \<and> \<not> starts_with ''https://'' controller_addr
      then ''http://'' @ controller_addr else controller_addr)"

definition register_request :: "u32 \<Rightarrow> string \<Rightarrow> i32 \<Rightarrow> RegisterBrokerRequest" where
  "register_request bid host data_port = \<lparr>rbq_BrokerId = bid, rbq_Host = host, rbq_DataPort = data_port\<rparr>"

definition heartbeat_request :: "partition_key list \<Rightarrow> u32 \<Rightarrow> LogManager \<Rightarrow> HeartbeatRequest" where
  "heartbeat_request ks bid lm =
     \<lparr>hbq_BrokerId = bid, hbq_DiskUsageBytes = 1024 * 1024, hbq_DiskFreeBytes = 1024 * 1024 * 1024,
      hbq_ReplicaOffsets = map (\<lambda>(topic, part, off). \<lparr>pro_Topic = topic, pro_Partition = part, pro_Offset = off\<rparr>)
        (get_all_offsets ks lm)\<rparr>"

section \<open>Acting on the answer\<close>

definition reconcile_leader :: "int \<Rightarrow> PartitionAssignment \<Rightarrow> LogManager \<Rightarrow> LogManager" where
  "reconcile_leader now leader lm =
     (let key = (pa_Topic leader, pa_Partition leader);
          (guard, lm) = get_partition now key lm
      in put_partition key (assign_replicas (pa_ReplicaIds leader) guard) lm)"

text \<open>A replication task to be spawned: topic, partition and leader.\<close>

type_synonym replication_task = "string \<times> u32 \<times> u32"

definition follower_tasks :: "HeartbeatResponse \<Rightarrow> replication_task list" where
  "follower_tasks resp = map (\<lambda>f. (pa_Topic f, pa_Partition f, pa_LeaderId f)) (hbr_AssignedFollowers resp)"

definition reconcile :: "int \<Rightarrow> HeartbeatResponse \<Rightarrow> LogManager \<Rightarrow> LogManager \<times> replication_task list" where
  "reconcile now resp lm = (fold (reconcile_leader now) (hbr_AssignedLeaders resp) lm, follower_tasks resp)"

section \<open>The loop\<close>

datatype phase = Connecting | Heartbeating

record broker_state =
  bs_phase :: phase
  bs_logs :: LogManager
  bs_spawned :: "replication_task list"

record 'c controller =
  c_connect :: "string \<Rightarrow> 'c \<Rightarrow> (error + unit) \<times> 'c"
  c_register :: "RegisterBrokerRequest \<Rightarrow> 'c \<Rightarrow> (error + RegisterBrokerResponse) \<times> 'c"
  c_heartbeat :: "HeartbeatRequest \<Rightarrow> 'c \<Rightarrow> (error + HeartbeatResponse) \<times> 'c"

definition heartbeat_turn ::
  "'c controller \<Rightarrow> int \<Rightarrow> partition_key list \<Rightarrow> u32 \<Rightarrow> broker_state \<times> 'c \<Rightarrow> broker_state \<times> 'c"
where
  "heartbeat_turn ctl now ks bid = (\<lambda>(s, c).
     case c_heartbeat ctl (heartbeat_request ks bid (bs_logs s)) c of
       (Inl err, c) \<Rightarrow> (s\<lparr>bs_phase := Connecting\<rparr>, c)
     | (Inr resp, c) \<Rightarrow>
         let (lm, ts) = reconcile now resp (bs_logs s)
         in (s\<lparr>bs_phase := Heartbeating, bs_logs := lm, bs_spawned := bs_spawned s @ ts\<rparr>, c))"

definition control_turn ::
  "'c controller \<Rightarrow> int \<Rightarrow> partition_key list \<Rightarrow> u32 \<Rightarrow> string \<Rightarrow> i32 \<Rightarrow> string \<Rightarrow>
   broker_state \<times> 'c \<Rightarrow> broker_state \<times> 'c"
where
  "control_turn ctl now ks bid host data_port addr = (\<lambda>(s, c).
     case bs_phase s of
       Heartbeating \<Rightarrow> heartbeat_turn ctl now ks bid (s, c)
     | Connecting \<Rightarrow>
         (case c_connect ctl (controller_uri addr) c of
            (Inl err, c) \<Rightarrow> (s, c)
          | (Inr _, c) \<Rightarrow>
              (case c_register ctl (register_request bid host data_port) c of
                 (Inl err, c) \<Rightarrow> (s, c)
               | (Inr resp, c) \<Rightarrow>
                   if rbr_Success resp then heartbeat_turn ctl now ks bid (s, c) else (s, c))))"

section \<open>Reconciliation\<close>

lemma reconcile_leader_stores:
  assumes "stores lm key ms"
  shows "stores (reconcile_leader now a lm) key ms"
proof (cases "key = (pa_Topic a, pa_Partition a)")
  case True
  have "holds (fst (get_partition now key lm)) ms" using assms by (simp add: stores_def current_log_def)
  then have "holds (assign_replicas (pa_ReplicaIds a) (fst (get_partition now key lm))) ms"
    using exec_op_holds [of _ ms "AssignOp (pa_ReplicaIds a)"] holds_fits by simp
  then show ?thesis using True by (simp add: reconcile_leader_def Let_def split_beta stores_put)
next
  case False
  then show ?thesis
    using stores_get [OF assms] by (simp add: reconcile_leader_def Let_def split_beta stores_put_other)
qed

lemma reconcile_stores: "stores lm key ms \<Longrightarrow> stores (fst (reconcile now resp lm)) key ms"
proof -
  have "stores lm key ms \<Longrightarrow> stores (fold (reconcile_leader now) as lm) key ms" for as
    by (induction as arbitrary: lm) (simp_all add: reconcile_leader_stores)
  then show "stores lm key ms \<Longrightarrow> stores (fst (reconcile now resp lm)) key ms" by (simp add: reconcile_def)
qed

definition knows_replicas :: "LogManager \<Rightarrow> partition_key \<Rightarrow> u32 list \<Rightarrow> bool" where
  "knows_replicas lm key ids \<longleftrightarrow> (\<exists>l. partitions lm key = Some l \<and> replica_ids l = ids \<and> hw_ok l)"

lemma knows_replicas_step:
  assumes "(pa_Topic a, pa_Partition a) = key \<longrightarrow> pa_ReplicaIds a = ids"
  shows "(pa_Topic a, pa_Partition a) = key \<or> knows_replicas lm key ids \<Longrightarrow>
    knows_replicas (reconcile_leader now a lm) key ids"
  using assms exec_op_hw_ok [of "AssignOp ids"]
  by (auto simp: knows_replicas_def reconcile_leader_def Let_def split_beta put_partition_def get_partition_def
      assign_replicas_def split: option.split)

lemma reconcile_knows_replicas:
  assumes "a \<in> set (hbr_AssignedLeaders resp)" "(pa_Topic a, pa_Partition a) = key"
    and "\<forall>a \<in> set (hbr_AssignedLeaders resp). (pa_Topic a, pa_Partition a) = key \<longrightarrow> pa_ReplicaIds a = ids"
  shows "knows_replicas (fst (reconcile now resp lm)) key ids"
proof -
  have keep: "knows_replicas (fold (reconcile_leader now) as lm) key ids"
    if "knows_replicas lm key ids" "\<forall>a \<in> set as. (pa_Topic a, pa_Partition a) = key \<longrightarrow> pa_ReplicaIds a = ids" for as lm
    using that by (induction as arbitrary: lm) (simp_all add: knows_replicas_step)
  have "knows_replicas (fold (reconcile_leader now) as lm) key ids"
    if "a \<in> set as" "\<forall>a \<in> set as. (pa_Topic a, pa_Partition a) = key \<longrightarrow> pa_ReplicaIds a = ids" for as lm
    using that
  proof (induction as arbitrary: lm)
    case (Cons b as)
    then show ?case
      using assms(2) keep [of "reconcile_leader now b lm" as] knows_replicas_step [of b key ids lm now] by auto
  qed simp
  then show ?thesis using assms(1,3) by (simp add: reconcile_def)
qed

section \<open>With the controller\<close>

definition rpc_result :: "'a rpc \<times> 'r \<Rightarrow> (error + 'a) \<times> 'r" where
  "rpc_result x = (case fst x of Inl e \<Rightarrow> Inl (snd e) | Inr resp \<Rightarrow> Inr resp, snd x)"

definition go_controller :: "'r raft_lib \<Rightarrow> visit \<Rightarrow> 'r RaftNode controller" where
  "go_controller raft v = \<lparr>
     c_connect = (\<lambda>uri rn. (Inr (), rn)),
     c_register = (\<lambda>req rn. rpc_result (RegisterBroker raft req rn)),
     c_heartbeat = (\<lambda>req rn. rpc_result (Heartbeat raft v req rn))\<rparr>"

lemma heartbeat_turn_ok:
  assumes "heartbeat_turn (go_controller raft v) now ks bid (s, rn) = (s', rn')" "bs_phase s' = Heartbeating"
    and "visit_ok v (RN_FSM rn')"
  obtains resp where "Heartbeat raft v (heartbeat_request ks bid (bs_logs s)) rn = (Inr resp, rn')"
    "bs_logs s' = fst (reconcile now resp (bs_logs s))" "bs_spawned s' = bs_spawned s @ follower_tasks resp"
    "set (hbr_AssignedLeaders resp) = {to_assignment n p q | n p q. partition_of (RN_FSM rn') n p = Some q \<and> LeaderID q = bid}"
    "set (hbr_AssignedFollowers resp) = {to_assignment n p q | n p q. partition_of (RN_FSM rn') n p = Some q \<and>
       LeaderID q \<noteq> bid \<and> bid \<in> set (ReplicaIDs q)}"
proof -
  let ?req = "heartbeat_request ks bid (bs_logs s)"
  obtain resp where run: "Heartbeat raft v ?req rn = (Inr resp, rn')"
      and s': "bs_logs s' = fst (reconcile now resp (bs_logs s))" "bs_spawned s' = bs_spawned s @ follower_tasks resp"
    using assms(1,2)
    by (cases "Heartbeat raft v ?req rn")
      (auto simp: heartbeat_turn_def go_controller_def rpc_result_def reconcile_def split: sum.splits)
  let ?roles = "broker_roles v bid (GetMetadata [] (RN_FSM rn'))"
  have "hbr_AssignedLeaders resp = fst ?roles" "hbr_AssignedFollowers resp = snd ?roles"
    using run by (auto simp: Heartbeat_def Let_def heartbeat_request_def split: option.splits prod.splits)
  then show ?thesis
    using that [OF run s'] set_broker_roles [OF assms(3), of bid] by (simp add: leads_def follows_def)
qed

lemma image_assignments:
  assumes "\<And>n p q. f (to_assignment n p q) = g n p q"
  shows "f ` {to_assignment n p q | n p q. P n p q} = {g n p q | n p q. P n p q}"
proof (intro equalityI subsetI)
  fix x
  assume "x \<in> f ` {to_assignment n p q | n p q. P n p q}"
  then obtain n p q where "P n p q" "x = f (to_assignment n p q)" by blast
  then show "x \<in> {g n p q | n p q. P n p q}" unfolding assms by blast
next
  fix x
  assume "x \<in> {g n p q | n p q. P n p q}"
  then obtain n p q where "P n p q" "x = f (to_assignment n p q)" unfolding assms by blast
  then show "x \<in> f ` {to_assignment n p q | n p q. P n p q}" by blast
qed

lemma reconcile_leaders_of:
  assumes lead: "set (hbr_AssignedLeaders resp) =
      {to_assignment n p q | n p q. partition_of st n p = Some q \<and> LeaderID q = bid}"
    and q: "partition_of st n p = Some q" "LeaderID q = bid"
  shows "knows_replicas (fst (reconcile now resp lm)) (n, p) (ReplicaIDs q)"
proof (rule reconcile_knows_replicas)
  show "to_assignment n p q \<in> set (hbr_AssignedLeaders resp)" using lead q by blast
  show "(pa_Topic (to_assignment n p q), pa_Partition (to_assignment n p q)) = (n, p)"
    by (simp add: to_assignment_def)
  show "\<forall>a \<in> set (hbr_AssignedLeaders resp). (pa_Topic a, pa_Partition a) = (n, p) \<longrightarrow> pa_ReplicaIds a = ReplicaIDs q"
    using q by (auto simp: lead to_assignment_def)
qed

section \<open>Properties\<close>

text \<open>
  C22: a heartbeat exchange between a broker and the controller.  Afterwards the broker knows the
  controller's replica set of every partition it leads, with the high watermark recomputed for it;
  it has spawned replication tasks for exactly the partitions it follows, with the controller's
  leader; and no stored message is lost.
\<close>

theorem heartbeat_exchange:
  assumes "heartbeat_turn (go_controller raft v) now ks bid (s, rn) = (s', rn')" "bs_phase s' = Heartbeating"
    and "visit_ok v (RN_FSM rn')"
  shows "(\<forall>n p q. partition_of (RN_FSM rn') n p = Some q \<and> LeaderID q = bid \<longrightarrow>
      knows_replicas (bs_logs s') (n, p) (ReplicaIDs q)) \<and>
    (\<exists>ts. bs_spawned s' = bs_spawned s @ ts \<and>
      set ts = {(n, p, LeaderID q) | n p q. partition_of (RN_FSM rn') n p = Some q \<and>
        LeaderID q \<noteq> bid \<and> bid \<in> set (ReplicaIDs q)}) \<and>
    (\<forall>key ms. stores (bs_logs s) key ms \<longrightarrow> stores (bs_logs s') key ms)"
proof -
  obtain resp where r: "bs_logs s' = fst (reconcile now resp (bs_logs s))"
      "bs_spawned s' = bs_spawned s @ follower_tasks resp"
      "set (hbr_AssignedLeaders resp) = {to_assignment n p q | n p q. partition_of (RN_FSM rn') n p = Some q \<and> LeaderID q = bid}"
      "set (hbr_AssignedFollowers resp) = {to_assignment n p q | n p q. partition_of (RN_FSM rn') n p = Some q \<and>
         LeaderID q \<noteq> bid \<and> bid \<in> set (ReplicaIDs q)}"
    by (rule heartbeat_turn_ok [OF assms])
  have "set (follower_tasks resp) = {(n, p, LeaderID q) | n p q. partition_of (RN_FSM rn') n p = Some q \<and>
      LeaderID q \<noteq> bid \<and> bid \<in> set (ReplicaIDs q)}"
    unfolding follower_tasks_def set_map r(4)
    by (rule image_assignments) (simp add: to_assignment_def)
  then show ?thesis
    using r(1,2) reconcile_leaders_of [OF r(3)] reconcile_stores by simp
qed

definition demo_broker :: broker_state where
  "demo_broker = \<lparr>bs_phase = Heartbeating,
     bs_logs = NewLogManager (\<lambda>key. \<lparr>pd_legacy = None, pd_local = Map.empty, pd_cold = Map.empty\<rparr>) 1, bs_spawned = []\<rparr>"

theorem heartbeat_exchange_witness:
  "\<exists>s' rn' ids. heartbeat_turn (go_controller demo_raft demo_visit) 0 [] 1 (demo_broker, demo_node) = (s', rn') \<and>
     knows_replicas (bs_logs s') (''t'', 0) ids"
proof -
  let ?req = "heartbeat_request [] 1 (bs_logs demo_broker)"
  have "valid_proposal (PHeartbeat (heartbeat_payload ?req))"
    by (simp add: heartbeat_payload_def heartbeat_request_def get_all_offsets_def)
  then obtain resp where run: "Heartbeat demo_raft demo_visit ?req demo_node =
      (Inr resp, demo_node\<lparr>RN_FSM := exec demo_c (PHeartbeat (heartbeat_payload ?req)) demo_state2\<rparr>)"
    by (rule demo_heartbeat_any)
  let ?st = "exec demo_c (PHeartbeat (heartbeat_payload ?req)) demo_state2"
  obtain s' where turn: "heartbeat_turn (go_controller demo_raft demo_visit) 0 [] 1 (demo_broker, demo_node) =
      (s', demo_node\<lparr>RN_FSM := ?st\<rparr>)" and ph: "bs_phase s' = Heartbeating"
    using run by (simp add: heartbeat_turn_def go_controller_def rpc_result_def reconcile_def)
  have v: "visit_ok demo_visit ?st" using demo_base_ok(2) by (simp add: visit_ok_heartbeat)
  obtain q where "partition_of ?st ''t'' 0 = Some q" "LeaderID q = 1" by (rule demo_leader_after)
  then have "knows_replicas (bs_logs s') (''t'', 0) (ReplicaIDs q)"
    using heartbeat_exchange [OF turn ph] v by simp
  with turn show ?thesis by blast
qed

end
