(* ===== verification/Commit.thy ===== *)
theory Commit
  imports Replication
begin

text \<open>
  What a consumer sees of a replicated partition: the leader's produce, fetch and replica-fetch requests
  together.  A message is withheld from consumers until every other replica has asked for data
  beyond it.
\<close>

section \<open>Requests to a leader with followers\<close>

lemma sendProduce_leading:
  assumes w: "idle w" "leading (bw_logs w) (topic, part) ms F"
    and topic: "valid_utf8 topic" "length topic < 65536" "10 + length topic + length msg < 4294967296"
    and fits: "fits (ms @ [bytes_of msg])"
  shows "\<exists>w'. sendProduce (broker_net sf clock) topic part msg w = (Inr (word_of_nat (length ms)), w') \<and>
    idle w' \<and> leading (bw_logs w') (topic, part) (ms @ [bytes_of msg]) F \<and>
    progress (bw_logs w') (topic, part) = progress (bw_logs w) (topic, part)"
proof -
  let ?now = "clock (bw_served w)"
  obtain l where l: "partitions (bw_logs w) (topic, part) = Some l" "holds l ms" "hw_ok l" "other_replicas l = F"
    using w(2) by (auto simp: leading_def)
  then have cur: "current_log ?now (topic, part) (bw_logs w) = l" by (simp add: current_log_def get_partition_def)
  let ?l = "snd (append_log ?now (bytes_of msg) l)"
  obtain w' where w': "sendProduce (broker_net sf clock) topic part msg w = (Inr (word_of_nat (length ms)), w')"
      "idle w'" "bw_logs w' = put_partition (topic, part) ?l (bw_logs w)"
    using sendProduce_log [where clock = clock and part = part and sf = sf, OF w(1) _ topic fits] l(2) cur by auto
  have "holds ?l (ms @ [bytes_of msg])" using plog.append_represents [OF l(2) fits] .
  moreover have "hw_ok ?l" using exec_op_hw_ok [of "AppendOp ?now (bytes_of msg)" l] by simp
  moreover have "other_replicas ?l = F" "follower_progress ?l = follower_progress l"
    using l(4) by (auto simp: other_replicas_def follower_progress_def fun_eq_iff)
  ultimately show ?thesis
    using w' l(1) by (simp add: leading_def progress_def put_partition_def fun_eq_iff)
qed

lemma sendFetch_leading:
  assumes w: "idle w" "leading (bw_logs w) (topic, part) ms F" and topic: "valid_utf8 topic" "length topic < 65536"
    and sf: "sendfile_ok sf" and small: "\<forall>m \<in> set ms. length m < 2 ^ 32"
  shows "\<exists>w'. sendFetch (broker_net sf clock) topic part off w =
      (Inr (if off < watermark (bw_logs w) (topic, part) then message_at ms off 65536 else None), w') \<and>
    idle w' \<and> leading (bw_logs w') (topic, part) ms F \<and>
    progress (bw_logs w') (topic, part) = progress (bw_logs w) (topic, part)"
proof -
  obtain l where l: "partitions (bw_logs w) (topic, part) = Some l" "holds l ms" "hw_ok l" "other_replicas l = F"
    using w(2) by (auto simp: leading_def)
  then have cur: "current_log (clock (bw_served w)) (topic, part) (bw_logs w) = l"
    by (simp add: current_log_def get_partition_def)
  from sendFetch_log [where clock = clock and part = part and off = off, OF w(1) _ topic sf small] l cur
  show ?thesis by (auto simp: leading_def progress_def put_partition_def watermark_def fun_eq_iff)
qed

lemma below_watermark:
  assumes "leading lm key ms F"
  shows "off < watermark lm key \<longleftrightarrow> unat off < length ms \<and> (\<forall>r \<in> F. off < progress lm key r)"
proof -
  obtain l where l: "partitions lm key = Some l" "holds l ms" "hw_ok l" "other_replicas l = F"
    using assms by (auto simp: leading_def)
  have "finite F" using l(4) by (auto simp: other_replicas_def)
  moreover have "off < next_offset l \<longleftrightarrow> unat off < length ms"
    using holds_next_offset [OF l(2)] holds_fits [OF l(2)]
    by (simp add: word_less_nat_alt unat_word_of_nat_u64 fits_def)
  ultimately show ?thesis using l by (simp add: watermark_def progress_def hw_ok_def)
qed

section \<open>Requests after a produce request\<close>

text \<open>A connection of a consumer, of a follower or of another producer; what it gets does not matter here.\<close>

datatype leader_request = AskFetch u64 | AskReplica u32 u64 | AskProduce string

fun send_request :: "'w net \<Rightarrow> string \<Rightarrow> u32 \<Rightarrow> leader_request \<Rightarrow> 'w \<Rightarrow> 'w" where
  "send_request net topic part (AskFetch off) w = snd (sendFetch net topic part off w)"
| "send_request net topic part (AskReplica r off) w = snd (replica_fetch net r topic part off w)"
| "send_request net topic part (AskProduce msg) w = snd (sendProduce net topic part msg w)"

text \<open>The offset of the last request of each follower, and the messages produced.\<close>

fun ask :: "leader_request \<Rightarrow> (u32 \<rightharpoonup> u64) \<Rightarrow> (u32 \<rightharpoonup> u64)" where
  "ask (AskReplica r off) m = m(r \<mapsto> off)"
| "ask _ m = m"

definition last_asked :: "leader_request list \<Rightarrow> (u32 \<rightharpoonup> u64)" where
  "last_asked qs = fold ask qs Map.empty"

fun request_messages :: "leader_request list \<Rightarrow> byte list list" where
  "request_messages (AskProduce msg # qs) = bytes_of msg # request_messages qs"
| "request_messages (_ # qs) = request_messages qs"
| "request_messages [] = []"

lemma length_small: "length m \<le> 65536 \<Longrightarrow> length m < 2 ^ 32"
  by simp

lemma request_messages_append [simp]: "request_messages (ps @ qs) = request_messages ps @ request_messages qs"
  by (induction ps rule: request_messages.induct) simp_all

lemma requests_leading:
  assumes "idle w" "leading (bw_logs w) (topic, part) ms F" and topic: "valid_utf8 topic" "length topic < 65536"
    and sf: "sendfile_ok sf" and "\<forall>m \<in> set (ms @ request_messages qs). length m \<le> 65536" "fits (ms @ request_messages qs)"
    and w': "w' = fold (send_request (broker_net sf clock) topic part) qs w"
  shows "idle w' \<and> leading (bw_logs w') (topic, part) (ms @ request_messages qs) F \<and>
    progress (bw_logs w') (topic, part) = (\<lambda>r. case last_asked qs r of Some off \<Rightarrow> off | None \<Rightarrow> progress (bw_logs w) (topic, part) r)"
  using assms(6,7) unfolding w'
proof (induction qs rule: rev_induct)
  case Nil
  then show ?case using assms(1,2) by (simp add: last_asked_def)
next
  case (snoc q qs)
  let ?net = "broker_net sf clock" and ?ms = "ms @ request_messages qs"
  let ?w = "fold (send_request ?net topic part) qs w"
  have "fits ?ms" using snoc.prems(2) fits_prefix [of ?ms "request_messages [q]"] by simp
  then have IH: "idle ?w" "leading (bw_logs ?w) (topic, part) ?ms F"
      "progress (bw_logs ?w) (topic, part) = (\<lambda>r. case last_asked qs r of Some off \<Rightarrow> off | None \<Rightarrow> progress (bw_logs w) (topic, part) r)"
    using snoc by auto
  have small: "\<forall>m \<in> set ?ms. length m < 2 ^ 32" using snoc.prems(1) length_small by (metis Un_iff append.assoc request_messages_append set_append)
  show ?case
  proof (cases q)
    case (AskFetch off)
    obtain w1 where "sendFetch ?net topic part off ?w = (Inr (if off < watermark (bw_logs ?w) (topic, part)
          then message_at ?ms off 65536 else None), w1)" "idle w1" "leading (bw_logs w1) (topic, part) ?ms F"
        "progress (bw_logs w1) (topic, part) = progress (bw_logs ?w) (topic, part)"
      using sendFetch_leading [OF IH(1,2) topic sf small, of clock off] by blast
    then show ?thesis using AskFetch IH(3) by (simp add: last_asked_def)
  next
    case (AskReplica r off)
    obtain w1 where "replica_fetch ?net r topic part off ?w = (Inr (message_at ?ms off 65536), w1)" "idle w1"
        "leading (bw_logs w1) (topic, part) ?ms F"
        "progress (bw_logs w1) (topic, part) = (progress (bw_logs ?w) (topic, part))(r := off)"
      using replica_fetch_leading [OF IH(1,2) topic sf small, of clock r off] by blast
    then show ?thesis using AskReplica IH(3) by (auto simp: last_asked_def fun_eq_iff)
  next
    case (AskProduce msg)
    have "length (bytes_of msg) \<le> 65536" using snoc.prems(1) AskProduce by auto
    then have "10 + length topic + length msg < 4294967296" using topic(2) by (simp add: bytes_of_def)
    moreover have "fits (?ms @ [bytes_of msg])" using snoc.prems(2) AskProduce by simp
    ultimately obtain w1 where "sendProduce ?net topic part msg ?w = (Inr (word_of_nat (length ?ms)), w1)" "idle w1"
        "leading (bw_logs w1) (topic, part) (?ms @ [bytes_of msg]) F"
        "progress (bw_logs w1) (topic, part) = progress (bw_logs ?w) (topic, part)"
      using sendProduce_leading [OF IH(1,2) topic, of msg sf clock] by blast
    then show ?thesis using AskProduce IH(3) by (simp add: last_asked_def)
  qed
qed

section \<open>Properties\<close>

text \<open>
  C6: a message is withheld until it is replicated.  The leader, which knows its followers \<open>F\<close>, acknowledges a
  produce request at once.  After any further requests of consumers, followers and producers, one after
  another, a fetch of the new offset returns the message if the last request of every follower since then asked
  for an offset beyond it, which a follower does once it has stored the message; otherwise, while one of them
  has not, it reports no data.  Messages have at most 65536 bytes, and this one at least one.
\<close>

theorem withheld_until_replicated:
  assumes "idle w" "leading (bw_logs w) (topic, part) ms F"
    and "\<forall>r \<in> F. progress (bw_logs w) (topic, part) r \<le> word_of_nat (length ms)"
    and "valid_utf8 topic" "length topic < 65536" "msg \<noteq> []" "sendfile_ok sf"
    and "\<forall>m \<in> set (ms @ [bytes_of msg] @ request_messages qs). length m \<le> 65536"
    and "fits (ms @ [bytes_of msg] @ request_messages qs)"
  shows "\<exists>w1 w2. sendProduce (broker_net sf clock) topic part msg w = (Inr (word_of_nat (length ms)), w1) \<and>
    sendFetch (broker_net sf clock) topic part (word_of_nat (length ms))
        (fold (send_request (broker_net sf clock) topic part) qs w1) =
      (Inr (if \<forall>r \<in> F. \<exists>off. last_asked qs r = Some off \<and> word_of_nat (length ms) < off
            then Some (bytes_of msg) else None), w2)"
proof -
  let ?ms = "ms @ [bytes_of msg]" and ?k = "length ms" and ?key = "(topic, part)" and ?net = "broker_net sf clock"
  have len: "10 + length topic + length msg < 4294967296" using assms(5,8) by (simp add: bytes_of_def)
  have fits: "fits ?ms" using assms(9) fits_prefix [of ?ms "request_messages qs"] by simp
  have k: "unat (word_of_nat ?k :: u64) = ?k" using fits by (intro unat_word_of_nat_u64) (simp add: fits_def)
  obtain w1 where w1: "sendProduce ?net topic part msg w = (Inr (word_of_nat ?k), w1)" "idle w1"
      "leading (bw_logs w1) ?key ?ms F" "progress (bw_logs w1) ?key = progress (bw_logs w) ?key"
    using sendProduce_leading [OF assms(1,2,4,5) len fits, of sf clock] by blast
  let ?w = "fold (send_request ?net topic part) qs w1" and ?all = "?ms @ request_messages qs"
  have w: "idle ?w" "leading (bw_logs ?w) ?key ?all F"
      "progress (bw_logs ?w) ?key = (\<lambda>r. case last_asked qs r of Some off \<Rightarrow> off | None \<Rightarrow> progress (bw_logs w) ?key r)"
    using requests_leading [OF w1(2,3) assms(4,5,7) _ _ refl, of qs clock] assms(8,9) unfolding w1(4) by simp_all
  have "word_of_nat ?k < progress (bw_logs ?w) ?key r \<longleftrightarrow> (\<exists>off. last_asked qs r = Some off \<and> word_of_nat ?k < off)"
    if "r \<in> F" for r
    using that assms(3) w(3) by (auto split: option.split)
  then have below: "word_of_nat ?k < watermark (bw_logs ?w) ?key \<longleftrightarrow>
      (\<forall>r \<in> F. \<exists>off. last_asked qs r = Some off \<and> word_of_nat ?k < off)"
    by (simp add: below_watermark [OF w(2)] k)
  have "message_at ?all (word_of_nat ?k) 65536 = Some (bytes_of msg)"
    using k assms(6,8) by (simp add: message_at_def nth_append bytes_of_def)
  moreover have "\<forall>m \<in> set ?all. length m < 2 ^ 32" using assms(8) length_small by (metis append.assoc)
  ultimately obtain w2 where "sendFetch ?net topic part (word_of_nat ?k) ?w =
      (Inr (if word_of_nat ?k < watermark (bw_logs ?w) ?key then Some (bytes_of msg) else None), w2)"
    using sendFetch_leading [OF w(1,2) assms(4,5,7), of clock "word_of_nat ?k"] by auto
  then show ?thesis using w1(1) by (simp only: below) blast
qed

text \<open>A leader with the followers 2 and 3; only 2 has the message, then both.\<close>

definition two_followers :: broker_world where
  "two_followers = empty_broker\<lparr>bw_logs := put_partition (''t'', 0)
     (fold exec_op [AssignOp [1, 2, 3]] (fresh_log 0 1 210 None None)) (bw_logs empty_broker)\<rparr>"

lemma two_followers_leading:
  "leading (bw_logs two_followers) (''t'', 0) [] {2, 3}" "\<forall>r \<in> {2, 3}. progress (bw_logs two_followers) (''t'', 0) r \<le> 0"
proof -
  let ?l = "fold exec_op [AssignOp [1, 2, 3]] (fresh_log 0 1 210 None None)"
  have "holds ?l []" using history_holds [of "[AssignOp [1, 2, 3]]" 0 1 210 None None] by (simp add: fits_def)
  moreover have "hw_ok ?l" by (rule history_hw_ok)
  moreover have "other_replicas ?l = {2, 3}" "follower_progress ?l r = 0" for r
    by (auto simp: other_replicas_def follower_progress_def assign_replicas_def fresh_log_def open_log_def Let_def)
  ultimately show "leading (bw_logs two_followers) (''t'', 0) [] {2, 3}"
    "\<forall>r \<in> {2, 3}. progress (bw_logs two_followers) (''t'', 0) r \<le> 0"
    by (simp_all add: leading_def progress_def two_followers_def put_partition_def)
qed

theorem withheld_until_replicated_witness:
  "\<exists>w1 w2 w3. sendProduce (broker_net (\<lambda>off n. int n) int) ''t'' 0 ''hi'' two_followers = (Inr 0, w1) \<and>
    sendFetch (broker_net (\<lambda>off n. int n) int) ''t'' 0 0
      (fold (send_request (broker_net (\<lambda>off n. int n) int) ''t'' 0) [AskReplica 3 0, AskReplica 2 1] w1) = (Inr None, w2) \<and>
    sendFetch (broker_net (\<lambda>off n. int n) int) ''t'' 0 0
      (fold (send_request (broker_net (\<lambda>off n. int n) int) ''t'' 0) [AskReplica 3 0, AskReplica 2 1, AskFetch 0, AskReplica 3 1] w1) =
      (Inr (Some [104, 105]), w3)"
proof -
  have "idle two_followers" by (simp add: idle_def two_followers_def empty_broker_def)
  note withheld = withheld_until_replicated [OF this two_followers_leading(1), of "''hi''" "\<lambda>off n. int n" _ int]
  show ?thesis
    using withheld [of "[AskReplica 3 0, AskReplica 2 1]"]
      withheld [of "[AskReplica 3 0, AskReplica 2 1, AskFetch 0, AskReplica 3 1]"] two_followers_leading(2) demo_setting(4,5)
    by (auto simp: fits_def bytes_of_def last_asked_def simp del: send_request.simps)
qed

end
