(* ===== verification/Integration_Test.thy ===== *)
theory Integration_Test
  imports Discovery Broker_Control Commit
begin

text \<open>
  The client's integration test (\<open>handleIntegrationTest\<close> in \<open>client/main.go\<close>), step by step.  The
  cluster it drives is the record \<open>cluster\<close> of the operations it uses, on a world of any type: the
  two controller calls, TCP connections, \<open>os.Stat\<close>, processes and sleeping.  A run ends with the message of
  \<open>log.Fatalf\<close> or with success; the progress lines it prints are not part of the model.
\<close>

section \<open>Actions\<close>

type_synonym ('w, 'a) action = "'w \<Rightarrow> (error + 'a) \<times> 'w"

definition and_then :: "('w, 'a) action \<Rightarrow> ('a \<Rightarrow> ('w, 'b) action) \<Rightarrow> ('w, 'b) action" where
  "and_then f g w = (case f w of (Inl e, w) \<Rightarrow> (Inl e, w) | (Inr x, w) \<Rightarrow> g x w)"

definition done_with :: "'a \<Rightarrow> ('w, 'a) action" where
  "done_with x w = (Inr x, w)"

definition fatal :: "error \<Rightarrow> ('w, 'a) action" where
  "fatal e w = (Inl e, w)"

text \<open>\<open>if err != nil { log.Fatalf(msg, err) }\<close>.\<close>

definition or_fatal_with :: "string \<Rightarrow> ('w, 'a) action \<Rightarrow> ('w, 'a) action" where
  "or_fatal_with msg f w = (case f w of (Inl e, w) \<Rightarrow> (Inl (msg @ e), w) | (Inr x, w) \<Rightarrow> (Inr x, w))"

definition effect :: "('w \<Rightarrow> 'w) \<Rightarrow> ('w, unit) action" where
  "effect f w = (Inr (), f w)"

record 'w cluster =
  cl_CreateTopic :: "CreateTopicRequest \<Rightarrow> ('w, CreateTopicResponse) action"
  cl_GetMetadata :: "MetadataRequest \<Rightarrow> ('w, MetadataResponse) action"
  cl_Dial :: "string \<Rightarrow> ('w, 'w net) action"
  cl_Close :: "'w net \<Rightarrow> 'w \<Rightarrow> 'w"
  cl_NotExist :: "string \<Rightarrow> 'w \<Rightarrow> bool"
  cl_Sleep :: "nat \<Rightarrow> 'w \<Rightarrow> 'w"
  cl_Run :: "string list \<Rightarrow> 'w \<Rightarrow> 'w"
  cl_OpenFile :: "string \<Rightarrow> ('w, unit) action"
  cl_CloseFile :: "string \<Rightarrow> 'w \<Rightarrow> 'w"
  cl_Start :: "string list \<Rightarrow> ('w, unit) action"

section \<open>Steps 1 and 2: the topic, its leader and its follower\<close>

definition create_step :: "'w cluster \<Rightarrow> string \<Rightarrow> ('w, unit) action" where
  "create_step cl topic =
     and_then (or_fatal_with ''Failed to create topic: ''
       (cl_CreateTopic cl \<lparr>ctq_Topic = topic, ctq_Partitions = 1, ctq_ReplicationFactor = 2\<rparr>)) (\<lambda>createResp.
     if \<not> ctr_Success createResp then fatal (''Topic creation rejected: '' @ ctr_Message createResp)
     else effect (cl_Sleep cl 3000))"

text \<open>The variables \<open>leaderID\<close>, \<open>followerID\<close> and \<open>found\<close> of the loops; none of them leaves early.\<close>

fun first_other :: "u32 \<Rightarrow> u32 list \<Rightarrow> u32 \<Rightarrow> u32" where
  "first_other leaderID [] followerID = followerID"
| "first_other leaderID (rID # rs) followerID =
     (if rID \<noteq> leaderID then rID else first_other leaderID rs followerID)"

definition scan_partition :: "u32 \<Rightarrow> PartitionMetadata \<Rightarrow> u32 \<times> u32 \<times> bool \<Rightarrow> u32 \<times> u32 \<times> bool" where
  "scan_partition part p = (\<lambda>(leaderID, followerID, found).
     if pm_PartitionId p = part
     then (pm_LeaderId p, first_other (pm_LeaderId p) (pm_ReplicaIds p) followerID, True)
     else (leaderID, followerID, found))"

definition scan_topics :: "string \<Rightarrow> u32 \<Rightarrow> TopicMetadata list \<Rightarrow> u32 \<times> u32 \<times> bool" where
  "scan_topics topic part ts =
     fold (\<lambda>t s. if tm_Topic t = topic then fold (scan_partition part) (tm_Partitions t) s else s) ts (0, 0, False)"

definition scan_broker :: "u32 \<Rightarrow> u32 \<Rightarrow> BrokerInfo \<Rightarrow> string \<times> string \<Rightarrow> string \<times> string" where
  "scan_broker leaderID followerID b = (\<lambda>(leaderAddr, followerAddr).
     let addr = bi_Host b @ '':'' @ show_i32 (bi_Port b)
     in (if bi_BrokerId b = leaderID then addr else leaderAddr,
         if bi_BrokerId b = followerID then addr else followerAddr))"

record test_roles =
  tr_leaderID :: u32
  tr_followerID :: u32
  tr_leaderAddr :: string
  tr_followerAddr :: string

definition find_roles :: "string \<Rightarrow> u32 \<Rightarrow> MetadataResponse \<Rightarrow> error + test_roles" where
  "find_roles topic part meta =
     (let (leaderID, followerID, found) = scan_topics topic part (mdr_Topics meta) in
      if \<not> found then Inl ''Topic metadata not found''
      else
        let (leaderAddr, followerAddr) = fold (scan_broker leaderID followerID) (mdr_Brokers meta) ([], []) in
        if leaderAddr = [] \<or> followerAddr = []
        then Inl (''Could not resolve addresses for leader ('' @ show_u32 leaderID @ '') and follower ('' @
               show_u32 followerID @ '')'')
        else Inr \<lparr>tr_leaderID = leaderID, tr_followerID = followerID, tr_leaderAddr = leaderAddr,
                  tr_followerAddr = followerAddr\<rparr>)"

definition roles_step :: "'w cluster \<Rightarrow> string \<Rightarrow> u32 \<Rightarrow> ('w, test_roles) action" where
  "roles_step cl topic part =
     and_then (or_fatal_with ''Failed to fetch metadata: '' (cl_GetMetadata cl \<lparr>mdq_Topics = [topic]\<rparr>)) (\<lambda>meta w.
       (find_roles topic part meta, w))"

section \<open>Steps 3 to 5: roll-over\<close>

definition rollover_message :: "nat \<Rightarrow> string" where
  "rollover_message i = ''Message-'' @ show_nat i @ ''-for-rollover-verification-test''"

fun produce_loop :: "'w net \<Rightarrow> string \<Rightarrow> u32 \<Rightarrow> nat list \<Rightarrow> ('w, unit) action" where
  "produce_loop conn topic part [] = done_with ()"
| "produce_loop conn topic part (i # is) =
     and_then (or_fatal_with (''Failed to produce message '' @ show_nat i @ '': '')
       (sendProduce conn topic part (rollover_message i))) (\<lambda>off.
     produce_loop conn topic part is)"

definition produce_step :: "'w cluster \<Rightarrow> test_roles \<Rightarrow> string \<Rightarrow> u32 \<Rightarrow> ('w, unit) action" where
  "produce_step cl roles topic part =
     and_then (or_fatal_with ''Failed to connect to leader: '' (cl_Dial cl (tr_leaderAddr roles))) (\<lambda>leaderConn.
     and_then (produce_loop leaderConn topic part [0..<6]) (\<lambda>_.
     effect (\<lambda>w. cl_Sleep cl 3000 (cl_Close cl leaderConn w))))"

definition cold_path :: "string \<Rightarrow> test_roles \<Rightarrow> string \<Rightarrow> u32 \<Rightarrow> string" where
  "cold_path ext roles topic part =
     ''./data/cold_storage/broker_'' @ show_u32 (tr_leaderID roles) @ ''/'' @ topic @ ''/partition_'' @
     show_u32 part @ ''/00000000000000000000'' @ ext"

definition active_path :: "test_roles \<Rightarrow> string \<Rightarrow> u32 \<Rightarrow> string" where
  "active_path roles topic part =
     ''./data/broker_'' @ show_u32 (tr_leaderID roles) @ ''/'' @ topic @ ''/partition_'' @
     show_u32 part @ ''/00000000000000000005.log''"

definition layout_step :: "'w cluster \<Rightarrow> test_roles \<Rightarrow> string \<Rightarrow> u32 \<Rightarrow> ('w, unit) action" where
  "layout_step cl roles topic part w =
     (let coldLogPath = cold_path ''.log'' roles topic part;
          coldIdxPath = cold_path ''.idx'' roles topic part;
          activeLogPath = active_path roles topic part
      in if cl_NotExist cl coldLogPath w
         then (Inl (''Rolled over log file not found in cold storage at '' @ coldLogPath), w)
         else if cl_NotExist cl coldIdxPath w
         then (Inl (''Rolled over idx file not found in cold storage at '' @ coldIdxPath), w)
         else if cl_NotExist cl activeLogPath w
         then (Inl (''New active segment log file not found at '' @ activeLogPath), w)
         else (Inr (), w))"

text \<open>\<open>string(nil)\<close> is the empty string.\<close>

definition data_string :: "byte list option \<Rightarrow> string" where
  "data_string data = (case data of None \<Rightarrow> [] | Some bs \<Rightarrow> string_of bs)"

definition quote :: string where "quote = [CHR 0x27]"

definition cold_fetch_step :: "'w cluster \<Rightarrow> test_roles \<Rightarrow> string \<Rightarrow> u32 \<Rightarrow> ('w, 'w net) action" where
  "cold_fetch_step cl roles topic part =
     and_then (or_fatal_with ''Failed to connect to leader: '' (cl_Dial cl (tr_leaderAddr roles))) (\<lambda>leaderConn.
     and_then (or_fatal_with ''Fetch offset 0 failed: '' (sendFetch leaderConn topic part 0)) (\<lambda>data.
     if data_string data \<noteq> ''Message-0-for-rollover-verification-test''
     then fatal (''Retrieved message mismatch: expected '' @ quote @ ''Message-0-for-rollover-verification-test'' @
            quote @ '', got '' @ quote @ data_string data @ quote)
     else done_with leaderConn))"

section \<open>Step 6: the high watermark holds a message back\<close>

definition kill_broker :: "u32 \<Rightarrow> string list" where
  "kill_broker bid = [''pkill'', ''-f'', ''rust-broker --id '' @ show_u32 bid]"

definition blocked_step :: "'w cluster \<Rightarrow> test_roles \<Rightarrow> string \<Rightarrow> u32 \<Rightarrow> 'w net \<Rightarrow> ('w, unit) action" where
  "blocked_step cl roles topic part leaderConn =
     and_then (effect (\<lambda>w. cl_Sleep cl 1000 (cl_Run cl (kill_broker (tr_followerID roles)) w))) (\<lambda>_.
     and_then (or_fatal_with ''Failed to produce message at offset 6: ''
       (sendProduce leaderConn topic part ''Message-6-HW-test'')) (\<lambda>offset6.
     and_then (or_fatal_with ''Fetch offset 6 failed: '' (sendFetch leaderConn topic part 6)) (\<lambda>data6.
     case data6 of
       Some bs \<Rightarrow> fatal (''ERROR: Consumer fetched message before it was committed (replicated) to replica! Data: '' @
                    string_of bs)
     | None \<Rightarrow> done_with ())))"

text \<open>The background consumer; \<open>None\<close> if it has got nothing after so many iterations.\<close>

fun poll :: "nat \<Rightarrow> 'w cluster \<Rightarrow> string \<Rightarrow> string \<Rightarrow> u32 \<Rightarrow> 'w \<Rightarrow> string option \<times> 'w" where
  "poll 0 cl addr topic part w = (None, w)"
| "poll (Suc n) cl addr topic part w =
     (case cl_Dial cl addr w of
        (Inl err, w) \<Rightarrow> poll n cl addr topic part (cl_Sleep cl 100 w)
      | (Inr conn, w) \<Rightarrow>
          (case sendFetch conn topic part 6 w of
             (Inr (Some bs), w) \<Rightarrow> (Some (string_of bs), cl_Close cl conn w)
           | (_, w) \<Rightarrow> poll n cl addr topic part (cl_Sleep cl 100 (cl_Close cl conn w))))"

definition follower_log :: "test_roles \<Rightarrow> string" where
  "follower_log roles = ''broker'' @ show_u32 (tr_followerID roles) @ ''.log''"

definition start_follower :: "test_roles \<Rightarrow> string list" where
  "start_follower roles =
     (let followerPort = (if tr_followerID roles = 2 then 9092 else 9091 :: u32) in
      [''./rust-broker/target/release/rust-broker'', ''--id'', show_u32 (tr_followerID roles), ''--host'', ''127.0.0.1'',
       ''--data-port'', show_u32 followerPort, ''--controller'', ''http://127.0.0.1:8001'',
       ''--storage-dir'', ''./data/broker_'' @ show_u32 (tr_followerID roles)])"

text \<open>
  \<open>before\<close> and \<open>after\<close>: how often the background consumer runs before the follower has been restarted and
  within the 15 seconds after that.
\<close>

definition unblocked_step ::
  "nat \<Rightarrow> nat \<Rightarrow> 'w cluster \<Rightarrow> test_roles \<Rightarrow> string \<Rightarrow> u32 \<Rightarrow> ('w, unit) action"
where
  "unblocked_step before after cl roles topic part w =
     (let (early, w) = poll before cl (tr_leaderAddr roles) topic part w in
      and_then (or_fatal_with ''Failed to open log file for follower: '' (cl_OpenFile cl (follower_log roles))) (\<lambda>_.
      and_then (or_fatal_with ''Failed to restart follower broker: '' (cl_Start cl (start_follower roles))) (\<lambda>_ w.
        let (msg, w) = (if early \<noteq> None then (early, w) else poll after cl (tr_leaderAddr roles) topic part w) in
        case msg of
          None \<Rightarrow> (Inl ''TIMEOUT: Consumer did not receive unblocked message'', w)
        | Some m \<Rightarrow>
            if m = ''Message-6-HW-test'' then (Inr (), w)
            else (Inl (''Consumer read incorrect message: '' @ m), w))) w)"

section \<open>Step 7: failover\<close>

definition current_leader :: "string \<Rightarrow> u32 \<Rightarrow> TopicMetadata list \<Rightarrow> u32" where
  "current_leader topic part ts =
     fold (\<lambda>t cur. if tm_Topic t = topic
        then fold (\<lambda>p cur. if pm_PartitionId p = part then pm_LeaderId p else cur) (tm_Partitions t) cur
        else cur) ts 0"

text \<open>The loop of 20 attempts; the inner \<open>break\<close>s leave it as soon as the follower leads.\<close>

fun election_loop :: "nat \<Rightarrow> 'w cluster \<Rightarrow> string \<Rightarrow> u32 \<Rightarrow> u32 \<Rightarrow> 'w \<Rightarrow> string option \<times> 'w" where
  "election_loop 0 cl topic part followerID w = (None, w)"
| "election_loop (Suc n) cl topic part followerID w =
     (case cl_GetMetadata cl \<lparr>mdq_Topics = [topic]\<rparr> (cl_Sleep cl 1000 w) of
        (Inl err, w) \<Rightarrow> election_loop n cl topic part followerID w
      | (Inr meta, w) \<Rightarrow>
          if current_leader topic part (mdr_Topics meta) = followerID
          then (map_option (\<lambda>b. bi_Host b @ '':'' @ show_i32 (bi_Port b))
                  (List.find (\<lambda>b. bi_BrokerId b = followerID) (mdr_Brokers meta)), w)
          else election_loop n cl topic part followerID w)"

definition failover_step :: "'w cluster \<Rightarrow> test_roles \<Rightarrow> string \<Rightarrow> u32 \<Rightarrow> ('w, 'w net) action" where
  "failover_step cl roles topic part w =
     (let w = cl_Run cl (kill_broker (tr_leaderID roles)) w;
          (newLeaderAddr, w) = election_loop 20 cl topic part (tr_followerID roles) w
      in case newLeaderAddr of
           None \<Rightarrow> (Inl ''Failover reelection failed. Follower was not promoted to leader'', w)
         | Some addr \<Rightarrow>
             and_then (or_fatal_with ''Failed to connect to new leader: '' (cl_Dial cl addr)) (\<lambda>newLeaderConn.
             and_then (or_fatal_with ''Produce to new leader failed: ''
               (sendProduce newLeaderConn topic part ''Message-7-after-failover'')) (\<lambda>offset7.
             and_then (or_fatal_with ''Fetch from new leader failed: ''
               (sendFetch newLeaderConn topic part offset7)) (\<lambda>data7.
             if data_string data7 \<noteq> ''Message-7-after-failover''
             then fatal (''Data mismatch from new leader: expected '' @ quote @ ''Message-7-after-failover'' @ quote @
                    '', got '' @ quote @ data_string data7 @ quote)
             else done_with newLeaderConn))) w)"

section \<open>The whole test\<close>

text \<open>The deferred calls run only when the function returns; \<open>log.Fatalf\<close> exits without them.\<close>

definition handleIntegrationTest :: "nat \<Rightarrow> nat \<Rightarrow> nat \<Rightarrow> 'w cluster \<Rightarrow> ('w, unit) action" where
  "handleIntegrationTest unix before after cl =
     (let topic = ''test-integration-'' @ show_nat unix; part = 0 in
      and_then (create_step cl topic) (\<lambda>_.
      and_then (roles_step cl topic part) (\<lambda>roles.
      and_then (produce_step cl roles topic part) (\<lambda>_.
      and_then (layout_step cl roles topic part) (\<lambda>_.
      and_then (cold_fetch_step cl roles topic part) (\<lambda>leaderConn.
      and_then (blocked_step cl roles topic part leaderConn) (\<lambda>_.
      and_then (unblocked_step before after cl roles topic part) (\<lambda>_.
      and_then (failover_step cl roles topic part) (\<lambda>newLeaderConn.
      effect (\<lambda>w. cl_Close cl leaderConn (cl_CloseFile cl (follower_log roles) (cl_Close cl newLeaderConn w))))))))))))"

section \<open>Roles\<close>

lemma fold_unique:
  assumes "x \<in> set xs" "distinct (map g xs)" "\<And>y s. g y \<noteq> g x \<Longrightarrow> f y s = s"
  shows "fold f xs s = f x s"
proof -
  have id: "fold f ys s = s" if "\<forall>y \<in> set ys. g y \<noteq> g x" for ys s
    using that assms(3) by (induction ys arbitrary: s) auto
  obtain as bs where split: "xs = as @ x # bs" using split_list [OF assms(1)] by blast
  then have "\<forall>y \<in> set as. g y \<noteq> g x" "\<forall>y \<in> set bs. g y \<noteq> g x" using assms(2) by (auto simp: image_iff)
  then show ?thesis by (simp add: split id)
qed

lemma scan_topics_unique:
  assumes "t \<in> set ts" "distinct (map tm_Topic ts)" "tm_Topic t = topic"
    and "p \<in> set (tm_Partitions t)" "distinct (map pm_PartitionId (tm_Partitions t))" "pm_PartitionId p = part"
  shows "scan_topics topic part ts = (pm_LeaderId p, first_other (pm_LeaderId p) (pm_ReplicaIds p) 0, True)"
proof -
  have "fold (scan_partition part) (tm_Partitions t) s = scan_partition part p s" for s
    using assms(6) by (intro fold_unique [OF assms(4,5)]) (auto simp: scan_partition_def)
  moreover have "scan_topics topic part ts =
      (if tm_Topic t = topic then fold (scan_partition part) (tm_Partitions t) (0, 0, False) else (0, 0, False))"
    unfolding scan_topics_def using assms(3) by (intro fold_unique [OF assms(1,2)]) auto
  ultimately show ?thesis using assms(3,6) by (simp add: scan_partition_def)
qed

lemma scan_brokers_unique:
  assumes "distinct (map bi_BrokerId bs)" "l \<in> set bs" "f \<in> set bs" "bi_BrokerId l \<noteq> bi_BrokerId f"
  shows "fold (scan_broker (bi_BrokerId l) (bi_BrokerId f)) bs s =
    (bi_Host l @ '':'' @ show_i32 (bi_Port l), bi_Host f @ '':'' @ show_i32 (bi_Port f))"
proof -
  let ?addr = "\<lambda>b. bi_Host b @ '':'' @ show_i32 (bi_Port b)" and ?step = "scan_broker (bi_BrokerId l) (bi_BrokerId f)"
  have step: "?step b s = (if bi_BrokerId b = bi_BrokerId l then ?addr b else fst s,
      if bi_BrokerId b = bi_BrokerId f then ?addr b else snd s)" for b s
    by (cases s) (simp add: scan_broker_def Let_def)
  have pair: "fold ?step bs s =
      (fold (\<lambda>b a. if bi_BrokerId b = bi_BrokerId l then ?addr b else a) bs (fst s),
       fold (\<lambda>b a. if bi_BrokerId b = bi_BrokerId f then ?addr b else a) bs (snd s))" for bs s
    by (induction bs arbitrary: s) (simp_all add: step)
  have one: "fold (\<lambda>b a. if bi_BrokerId b = bi_BrokerId x then ?addr b else a) bs a = ?addr x" if "x \<in> set bs" for x a
    by (subst fold_unique [OF that assms(1)]) auto
  show ?thesis unfolding pair one [OF assms(2)] one [OF assms(3)] ..
qed

text \<open>
  On metadata that lists the partition once and both brokers, the test takes the leader and the first other
  replica; with a single replica it would take broker 0 for the follower.
\<close>

lemma find_roles_metadata:
  assumes "t \<in> set (mdr_Topics meta)" "distinct (map tm_Topic (mdr_Topics meta))" "tm_Topic t = topic"
    and "p \<in> set (tm_Partitions t)" "distinct (map pm_PartitionId (tm_Partitions t))" "pm_PartitionId p = part"
    and "distinct (map bi_BrokerId (mdr_Brokers meta))" "l \<in> set (mdr_Brokers meta)" "f \<in> set (mdr_Brokers meta)"
    and "bi_BrokerId l = pm_LeaderId p" "bi_BrokerId f = first_other (pm_LeaderId p) (pm_ReplicaIds p) 0"
    and "bi_BrokerId l \<noteq> bi_BrokerId f"
  shows "find_roles topic part meta = Inr \<lparr>tr_leaderID = bi_BrokerId l, tr_followerID = bi_BrokerId f,
    tr_leaderAddr = bi_Host l @ '':'' @ show_i32 (bi_Port l), tr_followerAddr = bi_Host f @ '':'' @ show_i32 (bi_Port f)\<rparr>"
  using scan_topics_unique [OF assms(1-6)] scan_brokers_unique [OF assms(7-9,12)] assms(10,11)
  by (simp add: find_roles_def)

section \<open>The roll-over scenario\<close>

text \<open>A leader with the followers \<open>F\<close>, whose segments hold the blocks \<open>bs\<close> of messages.\<close>

definition at_blocks :: "nat \<Rightarrow> LogManager \<Rightarrow> partition_key \<Rightarrow> u32 set \<Rightarrow> byte list list list \<Rightarrow> bool" where
  "at_blocks limit lm key F bs \<longleftrightarrow> (\<exists>l r. partitions lm key = Some l \<and> log_ok bs r l \<and>
     unat (max_segment_size l) = limit \<and> hw_ok l \<and> other_replicas l = F)"

lemma at_blocks_leading: "at_blocks limit lm key F bs \<Longrightarrow> leading lm key (concat bs) F"
  unfolding at_blocks_def leading_def holds_def by blast

lemma sendProduce_blocks:
  assumes w: "idle w" "at_blocks limit (bw_logs w) (topic, part) F bs"
    and topic: "valid_utf8 topic" "length topic < 65536" "10 + length topic + length msg < 4294967296"
    and fits: "fits (concat bs @ [bytes_of msg])"
  shows "\<exists>w'. sendProduce (broker_net sf clock) topic part msg w = (Inr (word_of_nat (length (concat bs))), w') \<and>
    idle w' \<and> at_blocks limit (bw_logs w') (topic, part) F (append_block limit (bytes_of msg) bs) \<and>
    progress (bw_logs w') (topic, part) = progress (bw_logs w) (topic, part)"
proof -
  let ?now = "clock (bw_served w)"
  obtain l r where l: "partitions (bw_logs w) (topic, part) = Some l" and ok: "log_ok bs r l"
      and m: "unat (max_segment_size l) = limit" "hw_ok l" "other_replicas l = F"
    using w(2) by (auto simp: at_blocks_def)
  let ?l = "snd (append_log ?now (bytes_of msg) l)"
  have cur: "current_log ?now (topic, part) (bw_logs w) = l" using l by (simp add: current_log_def get_partition_def)
  have h: "holds l (concat bs)" using ok by (auto simp: holds_def)
  then obtain w' where w': "sendProduce (broker_net sf clock) topic part msg w = (Inr (word_of_nat (length (concat bs))), w')"
      "idle w'" "bw_logs w' = put_partition (topic, part) ?l (bw_logs w)"
    using sendProduce_log [where clock = clock and part = part and sf = sf, OF w(1) _ topic fits] cur by auto
  have "hw_ok ?l" using exec_op_hw_ok [of "AppendOp ?now (bytes_of msg)" l] by simp
  moreover have "other_replicas ?l = F" "follower_progress ?l = follower_progress l"
    using m(3) by (auto simp: other_replicas_def follower_progress_def fun_eq_iff)
  ultimately have "at_blocks limit (bw_logs w') (topic, part) F (append_block limit (bytes_of msg) bs)"
    "progress (bw_logs w') (topic, part) = progress (bw_logs w) (topic, part)"
    using append_log_blocks(2) [OF ok fits, of ?now] m(1) l
    by (auto simp: w'(3) at_blocks_def progress_def put_partition_def fun_eq_iff)
  with w'(1,2) show ?thesis by blast
qed

lemma produce_loop_blocks:
  assumes "idle w" "at_blocks limit (bw_logs w) (topic, part) F bs" "bs \<noteq> []" "valid_utf8 topic" "length topic < 65536"
    and "\<forall>i \<in> set is. length (rollover_message i) \<le> 65536"
    and "fits (concat bs @ map (\<lambda>i. bytes_of (rollover_message i)) is)"
  shows "\<exists>w'. produce_loop (broker_net sf clock) topic part is w = (Inr (), w') \<and> idle w' \<and>
    at_blocks limit (bw_logs w') (topic, part) F (fold (append_block limit) (map (\<lambda>i. bytes_of (rollover_message i)) is) bs) \<and>
    progress (bw_logs w') (topic, part) = progress (bw_logs w) (topic, part)"
  using assms
proof (induction "is" arbitrary: w bs)
  case (Cons i "is")
  let ?m = "rollover_message i"
  have len: "10 + length topic + length ?m < 4294967296" using Cons.prems(5,6) by fastforce
  have "fits (concat bs @ [bytes_of ?m])" using Cons.prems(7) fits_prefix [of "concat bs @ [bytes_of ?m]"] by simp
  from sendProduce_blocks [OF Cons.prems(1,2,4,5) len this]
  obtain w1 where w1: "sendProduce (broker_net sf clock) topic part ?m w = (Inr (word_of_nat (length (concat bs))), w1)"
      "idle w1" "at_blocks limit (bw_logs w1) (topic, part) F (append_block limit (bytes_of ?m) bs)"
      "progress (bw_logs w1) (topic, part) = progress (bw_logs w) (topic, part)" by blast
  have "fits (concat (append_block limit (bytes_of ?m) bs) @ map (\<lambda>i. bytes_of (rollover_message i)) is)"
    using Cons.prems(3,7) by (simp add: concat_append_block)
  from Cons.IH [OF w1(2,3) append_block_nonempty Cons.prems(4,5) _ this] Cons.prems(6)
  show ?case using w1(1,4) by (simp add: and_then_def or_fatal_with_def)
qed (simp add: done_with_def)

text \<open>Requests that produce nothing leave the segments alone.\<close>

lemma requests_blocks:
  assumes "idle w" "at_blocks limit (bw_logs w) (topic, part) F bs" and topic: "valid_utf8 topic" "length topic < 65536"
    and sf: "sendfile_ok sf" and small: "\<forall>m \<in> set (concat bs). length m < 2 ^ 32" and none: "request_messages qs = []"
  shows "idle (fold (send_request (broker_net sf clock) topic part) qs w) \<and>
    at_blocks limit (bw_logs (fold (send_request (broker_net sf clock) topic part) qs w)) (topic, part) F bs"
  using assms(1,2) none
proof (induction qs arbitrary: w)
  case (Cons q qs)
  let ?net = "broker_net sf clock"
  obtain l r where l: "partitions (bw_logs w) (topic, part) = Some l" "log_ok bs r l"
      "unat (max_segment_size l) = limit" "hw_ok l" "other_replicas l = F"
    using Cons.prems(2) by (auto simp: at_blocks_def)
  have h: "holds l (concat bs)" using l(2) by (auto simp: holds_def)
  have step: "idle (send_request ?net topic part q w) \<and> at_blocks limit (bw_logs (send_request ?net topic part q w)) (topic, part) F bs"
  proof (cases q)
    case (AskFetch off)
    have cur: "current_log (clock (bw_served w)) (topic, part) (bw_logs w) = l"
      using l(1) by (simp add: current_log_def get_partition_def)
    obtain w' where "snd (sendFetch ?net topic part off w) = w'" "idle w'" "bw_logs w' = put_partition (topic, part) l (bw_logs w)"
      using sendFetch_log [where clock = clock and part = part and off = off, OF Cons.prems(1) _ topic sf small] h cur by auto
    then show ?thesis using AskFetch l by (auto simp: at_blocks_def put_partition_def)
  next
    case (AskReplica f off)
    let ?l = "update_follower_offset f off l"
    obtain w' where "snd (replica_fetch ?net f topic part off w) = w'" "idle w'" "bw_logs w' = put_partition (topic, part) ?l (bw_logs w)"
      using replica_fetch_log [OF Cons.prems(1) l(1) h topic sf small, of clock f off] by auto
    moreover have "log_ok bs r ?l" using l(2) by (simp add: update_follower_offset_def log_ok_def)
    moreover have "hw_ok ?l" using exec_op_hw_ok [of "FollowerOp f off" l] by simp
    moreover have "other_replicas ?l = F" "max_segment_size ?l = max_segment_size l"
      using l(5) by (simp_all add: update_follower_offset_def other_replicas_def)
    ultimately show ?thesis using AskReplica l(3) by (auto simp: at_blocks_def put_partition_def)
  qed (use Cons.prems(3) in simp)
  have "request_messages qs = []" using Cons.prems(3) by (cases q) simp_all
  with step Cons.IH show ?case by simp
qed simp

lemma rollover_message_lengths: "\<forall>i \<in> set [0..<6]. length (rollover_message i) = 40"
  by code_simp

lemma rollover_blocks:
  assumes "\<forall>m \<in> set [a, b, c, d, e, f]. length m = 40"
  shows "fold (append_block 210) [a, b, c, d, e, f] [[]] = [[a, b, c, d, e], [f]]"
  using assms by (auto simp: append_block_def)

lemma rollover_layout_blocks:
  assumes "log_ok [[a, b, c, d, e], [f]] r l"
  shows "\<exists>file. cold_dir l 0 = Some file \<and> sf_index file \<noteq> None" "last (segments l) = 5" "5 \<in> dom (local_dir l)"
proof -
  let ?bs = "[[a, b, c, d, e], [f]]"
  have base: "base ?bs 0 = 0" "base ?bs 1 = 5" by (simp_all add: base_def start_def)
  then show "last (segments l) = 5" "5 \<in> dom (local_dir l)"
    using last_segment [OF assms] active_file_encodes(1) [OF assms] by auto
  show "\<exists>file. cold_dir l 0 = Some file \<and> sf_index file \<noteq> None"
    using log_okD(7) [OF assms] base(1) by (auto simp: holds_dir_def encodes_def)
qed

section \<open>The high-watermark scenario\<close>

text \<open>
  Step 6 up to the restart succeeds on a leader with six messages and a follower that has not asked beyond
  them: the seventh is produced and then withheld.
\<close>

lemma blocked_step_passes:
  assumes cl: "\<forall>n w. cl_Sleep cl n w = w" "\<forall>c w. cl_Run cl c w = w"
    and w: "idle w" "leading (bw_logs w) (topic, part) ms F" "length ms = 6"
    and r: "r \<in> F" "progress (bw_logs w) (topic, part) r \<le> 6"
    and topic: "valid_utf8 topic" "length topic < 65536" and sf: "sendfile_ok sf"
    and ms: "\<forall>m \<in> set ms. length m \<le> 65536"
  shows "\<exists>w'. blocked_step cl roles topic part (broker_net sf clock) w = (Inr (), w')"
proof -
  let ?msg = "''Message-6-HW-test''" and ?net = "broker_net sf clock"
  have len: "10 + length topic + length ?msg < 4294967296" using topic(2) by simp
  have "length (concat ms) \<le> length ms * 65536"
    using ms by (induction ms) auto
  then have fits: "fits (ms @ [bytes_of ?msg])" using w(3) by (simp add: fits_def)
  from sendProduce_leading [OF w(1,2) topic len fits, of sf clock]
  obtain w1 where w1: "sendProduce ?net topic part ?msg w = (Inr 6, w1)" "idle w1"
      "leading (bw_logs w1) (topic, part) (ms @ [bytes_of ?msg]) F"
      "progress (bw_logs w1) (topic, part) = progress (bw_logs w) (topic, part)"
    using w(3) by auto
  have "\<not> 6 < watermark (bw_logs w1) (topic, part)"
    using r w1(4) by (auto simp: below_watermark [OF w1(3)] not_less intro!: bexI [of _ r])
  moreover have "\<forall>m \<in> set (ms @ [bytes_of ?msg]). length m < 2 ^ 32" using ms by fastforce
  ultimately obtain w2 where "sendFetch ?net topic part 6 w1 = (Inr None, w2)"
    using sendFetch_leading [OF w1(2,3) topic sf, of clock 6] by auto
  then show ?thesis
    using w1(1) cl by (simp add: blocked_step_def and_then_def or_fatal_with_def effect_def done_with_def)
qed

text \<open>Step 7 finds the new leader as soon as the metadata names it.\<close>

lemma election_loop_finds:
  assumes "\<forall>w. \<exists>w'. cl_GetMetadata cl \<lparr>mdq_Topics = [topic]\<rparr> w = (Inr meta, w')" "0 < n"
    and "current_leader topic part (mdr_Topics meta) = bi_BrokerId b"
    and "b \<in> set (mdr_Brokers meta)" "distinct (map bi_BrokerId (mdr_Brokers meta))"
  shows "fst (election_loop n cl topic part (bi_BrokerId b) w) = Some (bi_Host b @ '':'' @ show_i32 (bi_Port b))"
proof -
  obtain k where n: "n = Suc k" using assms(2) by (cases n) auto
  obtain w' where "cl_GetMetadata cl \<lparr>mdq_Topics = [topic]\<rparr> (cl_Sleep cl 1000 w) = (Inr meta, w')" using assms(1) by blast
  moreover have "List.find (\<lambda>x. bi_BrokerId x = bi_BrokerId b) bs = Some b"
    if "b \<in> set bs" "distinct (map bi_BrokerId bs)" for bs
    using that by (induction bs) (auto simp: image_iff)
  then have "List.find (\<lambda>x. bi_BrokerId x = bi_BrokerId b) (mdr_Brokers meta) = Some b" using assms(4,5) .
  ultimately show ?thesis using assms(3) by (simp add: n)
qed

section \<open>The setting of the roll-over steps\<close>

lemma rollover_indices: "[0..<6] = [0, 1, 2, 3, 4, 5 :: nat]"
  by (simp add: upt_rec)

lemma history_segment_size: "max_segment_size (fold exec_op ops l) = max_segment_size l"
proof (induction ops arbitrary: l)
  case (Cons opn ops)
  then show ?case by (cases opn) (simp_all add: update_follower_offset_def assign_replicas_def restart_def)
qed simp

text \<open>A history that appends nothing leaves an empty log with the replicas assigned last.\<close>

lemma fresh_blocks:
  assumes "partitions lm key = Some (fold exec_op ops (fresh_log t bid 210 max_size max_age))" "appended ops = []"
  shows "at_blocks 210 lm key (set (assigned (rev ops)) - {bid}) [[]]"
proof -
  let ?l = "fold exec_op ops (fresh_log t bid 210 max_size max_age)"
  obtain r where "log_ok (block_history (unat (210 :: u64)) (appended ops)) r ?l"
    using history_blocks [where ops = ops and max_seg = 210] assms(2) by (metis fits_prefix fits_def append_Nil concat.simps(1) list.size(3) zero_less_numeral zero_less_power)
  then have "log_ok [[]] r ?l" using assms(2) by (simp add: block_history_def)
  moreover have "other_replicas ?l = set (assigned (rev ops)) - {bid}"
    using history_replicas(1,2) [of ops t bid 210 max_size max_age] by (auto simp: other_replicas_def)
  moreover have "unat (max_segment_size ?l) = 210" by (simp add: history_segment_size fresh_log_def)
  ultimately show ?thesis using assms(1) history_hw_ok unfolding at_blocks_def by blast
qed

lemma cold_fetch_result:
  assumes "cl_Dial cl (tr_leaderAddr roles) = done_with net" "sendFetch net topic part 0 w = (Inr data, w')"
  shows "cold_fetch_step cl roles topic part w =
    (if data_string data = ''Message-0-for-rollover-verification-test'' then Inr net
     else Inl (''Retrieved message mismatch: expected '' @ quote @ ''Message-0-for-rollover-verification-test'' @
            quote @ '', got '' @ quote @ data_string data @ quote), w')"
  using assms by (simp add: cold_fetch_step_def and_then_def or_fatal_with_def done_with_def fatal_def)

text \<open>What a fetch of the first message returns after requests that produce nothing.\<close>

lemma fetch_first_after:
  assumes w: "idle w" "leading (bw_logs w) (topic, part) ms F" and topic: "valid_utf8 topic" "length topic < 65536"
    and sf: "sendfile_ok sf" and ms: "ms \<noteq> [] \<and> ms ! 0 = m \<and> m \<noteq> [] \<and> (\<forall>m \<in> set ms. length m \<le> 65536)" "fits ms"
    and qs: "request_messages qs = []" and old: "\<And>r. progress (bw_logs w) (topic, part) r = 0"
  shows "\<exists>w'. sendFetch (broker_net sf clock) topic part 0 (fold (send_request (broker_net sf clock) topic part) qs w) =
    (Inr (if \<forall>r \<in> F. \<exists>off. last_asked qs r = Some off \<and> 0 < off then Some m else None), w')"
proof -
  let ?net = "broker_net sf clock"
  let ?w = "fold (send_request ?net topic part) qs w"
  have w': "idle ?w" "leading (bw_logs ?w) (topic, part) ms F"
      "progress (bw_logs ?w) (topic, part) = (\<lambda>r. case last_asked qs r of Some off \<Rightarrow> off | None \<Rightarrow> 0)"
    using requests_leading [OF w topic sf _ _ refl, of qs clock] ms qs unfolding ext [of "progress (bw_logs w) (topic, part)", OF old] by simp_all
  have "0 < progress (bw_logs ?w) (topic, part) r \<longleftrightarrow> (\<exists>off. last_asked qs r = Some off \<and> 0 < off)" for r
    by (simp add: w'(3) split: option.split)
  then have "0 < watermark (bw_logs ?w) (topic, part) \<longleftrightarrow> (\<forall>r \<in> F. \<exists>off. last_asked qs r = Some off \<and> 0 < off)"
    using ms(1) by (simp add: below_watermark [OF w'(2)])
  moreover have "message_at ms 0 65536 = Some m" using ms(1) by (auto simp: message_at_def)
  moreover have "\<forall>m \<in> set ms. length m < 2 ^ 32" using ms(1) length_small by blast
  ultimately show ?thesis using sendFetch_leading [OF w'(1,2) topic sf, of clock 0] by (simp only:) blast
qed

section \<open>Properties\<close>


text \<open>The leader 1 of a new partition has learned that 2 is a follower, which copies the first messages in the sleep.\<close>

definition sleeping_cluster :: "leader_request list \<Rightarrow> broker_world cluster" where
  "sleeping_cluster qs = \<lparr>cl_CreateTopic = (\<lambda>req. fatal ''unused''), cl_GetMetadata = (\<lambda>req. fatal ''unused''),
     cl_Dial = (\<lambda>addr. done_with (broker_net (\<lambda>off n. int n) int)), cl_Close = (\<lambda>c w. w), cl_NotExist = (\<lambda>path w. False),
     cl_Sleep = (\<lambda>n w. fold (send_request (broker_net (\<lambda>off n. int n) int) ''t'' 0) qs w), cl_Run = (\<lambda>cmd w. w),
     cl_OpenFile = (\<lambda>path. done_with ()), cl_CloseFile = (\<lambda>path w. w), cl_Start = (\<lambda>cmd. done_with ())\<rparr>"

abbreviation demo_roles :: test_roles where
  "demo_roles \<equiv> \<lparr>tr_leaderID = 1, tr_followerID = 2, tr_leaderAddr = ''a'', tr_followerAddr = ''b''\<rparr>"


end
