(* ===== verification/Client_Cli.thy ===== *)
theory Client_Cli
  imports Go_Lib UTF8
begin

text \<open>
  The command line of the client (\<open>client/main.go\<close>, \<open>main\<close>): the dispatch on the first
  argument, the checks on the number of arguments, the numbers read with
  \<open>fmt.Sscanf(arg, "%d", &n)\<close> and their conversion to the unsigned types of the protocol.
\<close>

section \<open>Scanning an integer\<close>

datatype scan_error = UnexpectedEOF | UnexpectedNewline | ExpectedInteger | OutOfRange

text \<open>\<open>isSpace\<close> of the package \<open>fmt\<close>, on code points.\<close>

definition fmt_space :: "nat \<Rightarrow> bool" where
  "fmt_space r \<longleftrightarrow>
     0x9 \<le> r \<and> r \<le> 0xD \<or> r = 0x20 \<or> r = 0x85 \<or> r = 0xA0 \<or> r = 0x1680 \<or>
     0x2000 \<le> r \<and> r \<le> 0x200A \<or> r = 0x2028 \<or> r = 0x2029 \<or> r = 0x202F \<or> r = 0x205F \<or> r = 0x3000"

text \<open>
  Bytes that are not UTF-8 are read as one replacement character each, which is no space.
\<close>

function skip_space :: "string \<Rightarrow> scan_error + string" where
  "skip_space s =
     (case decode_rune s of
        None \<Rightarrow> Inr s
      | Some (r, n) \<Rightarrow>
          if r = 0xD \<and> take 1 (drop n s) = [CHR 0x0A] then skip_space (drop n s)
          else if r = 0xA then Inl UnexpectedNewline
          else if fmt_space r then skip_space (drop n s)
          else Inr s)"
  by pat_completeness auto
termination
  by (relation "measure length") (fastforce dest: decode_rune_size)+

declare skip_space.simps [simp del]

fun scan_digits :: "string \<Rightarrow> string" where
  "scan_digits [] = []"
| "scan_digits (c # cs) = (if digit_value c \<noteq> None then c # scan_digits cs else [])"

text \<open>
  \<open>%d\<close> into a 64-bit integer: white space, an optional sign, then the longest run of digits; what
  follows is ignored.
\<close>

definition Sscanf_d :: "string \<Rightarrow> scan_error + i64" where
  "Sscanf_d s =
     (case skip_space s of
        Inl e \<Rightarrow> Inl e
      | Inr [] \<Rightarrow> Inl UnexpectedEOF
      | Inr (c # cs) \<Rightarrow>
          let neg = (c = CHR ''-'');
              rest = (if c = CHR ''-'' \<or> c = CHR ''+'' then cs else c # cs);
              tok = scan_digits rest
          in if rest = [] then Inl UnexpectedEOF
             else if tok = [] then Inl ExpectedInteger
             else case parse_digits 0 tok of
                    None \<Rightarrow> Inl ExpectedInteger
                  | Some n \<Rightarrow>
                      let i = (if neg then - int n else int n) in
                      if - (2 ^ 63) \<le> i \<and> i < 2 ^ 63 then Inr (word_of_int i) else Inl OutOfRange)"

section \<open>Dispatch\<close>

datatype cli_action =
    Usage
  | Fatal string
  | Metadata
  | Create_Topic string u32 u32
  | Produce string u32 string
  | Consume string u32 u64 bool
  | Integration_Test

text \<open>The process ends with an error message or goes on with the scanned value.\<close>

definition or_fatal :: "string \<Rightarrow> scan_error + i64 \<Rightarrow> (i64 \<Rightarrow> cli_action) \<Rightarrow> cli_action" where
  "or_fatal msg r k = (case r of Inl _ \<Rightarrow> Fatal msg | Inr i \<Rightarrow> k i)"

text \<open>\<open>uint32(partition)\<close> and \<open>uint64(offset)\<close>: the low bits.\<close>

definition to_u32 :: "i64 \<Rightarrow> u32" where
  "to_u32 i = ucast i"

definition client_main :: "string list \<Rightarrow> cli_action" where
  "client_main args =
     (if length args < 1 then Usage
      else if args ! 0 = ''metadata'' then Metadata
      else if args ! 0 = ''create-topic'' then
        if length args < 4 then Fatal ''Usage: client create-topic <topic> <partitions> <replication_factor>''
        else or_fatal ''Invalid partitions'' (Sscanf_d (args ! 2)) (\<lambda>partitions.
             or_fatal ''Invalid replication factor'' (Sscanf_d (args ! 3)) (\<lambda>repFactor.
               Create_Topic (args ! 1) (to_u32 partitions) (to_u32 repFactor)))
      else if args ! 0 = ''produce'' then
        if length args < 4 then Fatal ''Usage: client produce <topic> <partition> <message>''
        else or_fatal ''Invalid partition'' (Sscanf_d (args ! 2)) (\<lambda>part.
               Produce (args ! 1) (to_u32 part) (args ! 3))
      else if args ! 0 = ''consume'' then
        if length args < 4 then Fatal ''Usage: client consume <topic> <partition> <offset> [--follow]''
        else or_fatal ''Invalid partition'' (Sscanf_d (args ! 2)) (\<lambda>part.
             or_fatal ''Invalid offset'' (Sscanf_d (args ! 3)) (\<lambda>off.
               let follow = (length args > 4 \<and> args ! 4 = ''--follow'') in
               Consume (args ! 1) (to_u32 part) off follow))
      else if args ! 0 = ''integration-test'' then Integration_Test
      else Usage)"

text \<open>The lines that \<open>printUsage\<close> prints.\<close>

definition printUsage :: "string list" where
  "printUsage =
     [''AeroMQ CLI Client'',
      ''Usage:'',
      ''  client --controller <host:port> <command> [args]'',
      CHR 0x0A # ''Commands:'',
      ''  metadata                                                   Fetch cluster topology details'',
      ''  create-topic <topic> <partitions> <replication_factor>      Create a new topic with configurations'',
      ''  produce <topic> <partition> <message>                      Publish a message payload to a partition'',
      ''  consume <topic> <partition> <offset> [--follow]            Retrieve messages starting from an offset'',
      ''  integration-test                                           Run comprehensive integration test suite'']"

text \<open>The commands it documents are those that \<open>main\<close> knows.\<close>

definition documented_commands :: "string list" where
  "documented_commands = map (\<lambda>line. takeWhile (\<lambda>c. c \<noteq> CHR '' '') (drop 2 line)) (drop 4 printUsage)"

lemma documented_commands_eq:
  "documented_commands = [''metadata'', ''create-topic'', ''produce'', ''consume'', ''integration-test'']"
  by (simp add: documented_commands_def printUsage_def)

lemma usage_iff_undocumented: "client_main (cmd # args) = Usage \<longleftrightarrow> cmd \<notin> set documented_commands"
  by (auto simp: client_main_def documented_commands_eq or_fatal_def Let_def split: sum.split)

section \<open>Reading back printed numbers\<close>

lemma scan_digits_all: "\<forall>c \<in> set s. digit_value c \<noteq> None \<Longrightarrow> scan_digits s = s"
  by (induction s) auto

lemma show_nat_digits: "\<forall>c \<in> set (show_nat n). digit_value c \<noteq> None"
proof (induction n rule: show_nat.induct)
  case (1 n)
  then show ?case by (subst show_nat.simps) (auto simp: digit_value_digit)
qed

lemma digit_value_not_space:
  assumes "digit_value c \<noteq> None"
  shows "skip_space (c # cs) = Inr (c # cs)" "c \<noteq> CHR ''-''" "c \<noteq> CHR ''+''"
proof -
  from assms have c: "48 \<le> (of_char c :: nat)" "(of_char c :: nat) < 58"
    by (auto simp: digit_value_def Let_def split: if_splits)
  then have "decode_rune (c # cs) = Some (of_char c, 1)" by simp
  with c show "skip_space (c # cs) = Inr (c # cs)"
    by (subst skip_space.simps) (simp add: fmt_space_def)
  show "c \<noteq> CHR ''-''" "c \<noteq> CHR ''+''" using c by auto
qed

lemma Sscanf_d_show_nat:
  assumes "n < 2 ^ 63"
  shows "Sscanf_d (show_nat n) = Inr (word_of_nat n)"
proof -
  obtain c cs where s: "show_nat n = c # cs" by (cases "show_nat n") simp_all
  have c: "digit_value c \<noteq> None" using show_nat_digits [of n] by (simp add: s)
  have tok: "scan_digits (c # cs) = c # cs" using scan_digits_all [OF show_nat_digits [of n]] by (simp add: s)
  have "int n < 2 ^ 63" using assms by (metis of_nat_less_iff of_nat_numeral of_nat_power)
  moreover have "parse_digits 0 (c # cs) = Some n" using parse_digits_show_nat [of n] by (simp only: s)
  ultimately show ?thesis
    using digit_value_not_space [OF c] tok by (simp add: Sscanf_d_def s del: scan_digits.simps parse_digits.simps)
qed

lemma to_u32_of_nat: "to_u32 (word_of_nat n) = word_of_nat n"
  by (rule bit_word_eqI) (simp add: to_u32_def bit_simps)

section \<open>Properties\<close>

text \<open>
  The command line reads back the numbers it is given in decimal: \<open>create-topic\<close>, \<open>produce\<close>
  and \<open>consume\<close> run with exactly the partition counts, partition and offset typed, as long as they
  fit the unsigned type of the protocol (for offsets, also a signed 64-bit integer).
\<close>

lemma client_main_numbers:
  assumes "p < 2 ^ 32" "r < 2 ^ 32" "off < 2 ^ 63"
  shows "client_main [''create-topic'', t, show_nat p, show_nat r] =
      Create_Topic t (word_of_nat p) (word_of_nat r) \<and>
    client_main [''produce'', t, show_nat p, msg] = Produce t (word_of_nat p) msg \<and>
    client_main [''consume'', t, show_nat p, show_nat off] = Consume t (word_of_nat p) (word_of_nat off) False \<and>
    client_main [''consume'', t, show_nat p, show_nat off, ''--follow''] =
      Consume t (word_of_nat p) (word_of_nat off) True"
proof -
  have "p < 2 ^ 63" "r < 2 ^ 63" using assms(1,2) by simp_all
  then show ?thesis
    using assms(3)
    by (simp add: client_main_def Sscanf_d_show_nat or_fatal_def to_u32_of_nat Let_def)
qed

text \<open>
  Numbers outside the range are not refused but wrap around: asking for \<open>-1\<close> partitions
  requests \<open>2^32 - 1\<close> of them, and \<open>2^32\<close> partitions request none; trailing characters are ignored.
\<close>

lemma client_main_wraps:
  "client_main [''create-topic'', t, ''-1'', ''1''] = Create_Topic t (2 ^ 32 - 1) 1 \<and>
   client_main [''create-topic'', t, ''4294967296'', ''1''] = Create_Topic t 0 1 \<and>
   client_main [''produce'', t, ''3x'', msg] = Produce t 3 msg"
proof -
  have skip: "skip_space (c # cs) = Inr (c # cs)"
    if "(of_char c :: nat) \<in> {43..57}" for c cs
  proof -
    from that have "decode_rune (c # cs) = Some (of_char c, 1)" by simp
    with that show ?thesis by (subst skip_space.simps) (simp add: fmt_space_def)
  qed
  have "Sscanf_d ''-1'' = Inr (- 1)" "Sscanf_d ''1'' = Inr 1" "Sscanf_d ''4294967296'' = Inr 4294967296"
    "Sscanf_d ''3x'' = Inr 3"
    by (simp_all add: Sscanf_d_def skip digit_value_def)
  moreover have "to_u32 (- 1) = - 1"
    by (rule bit_word_eqI) (simp add: to_u32_def bit_simps)
  moreover have "(- 1 :: u32) = 2 ^ 32 - 1" by code_simp
  ultimately show ?thesis by (simp add: client_main_def or_fatal_def) (simp add: to_u32_def)
qed

lemma client_main_numbers_example:
  "client_main [''create-topic'', ''orders'', show_nat 3, show_nat 2] = Create_Topic ''orders'' 3 2"
  using client_main_numbers [of 3 2 0 "''orders''" "[]"] by simp

end
