(* ===== verification/Client_Program.thy ===== *)
theory Client_Program
  imports Integration_Test Client_Cli
begin

text \<open>
  The client program as a whole (\<open>main\<close> of \<open>client/main.go\<close>): the command line selects a command, the command
  connects to the controller and, for messages, to the broker that leads the partition, and the process
  ends with what it printed or with an error.  It is composed here with the controller's handlers and
  with brokers, so the commands are followed from the arguments typed to the lines printed.
\<close>

section \<open>The process\<close>

text \<open>
  How a run ends: after a command that returned, with the lines it printed; after \<open>log.Fatalf\<close>, with
  its message; after \<open>printUsage\<close>.  The lines printed before an error and the progress lines of the
  integration test are left out.
\<close>

datatype client_end = Printed "string list" | Died error | Usage_Shown "string list"

fun exit_code :: "client_end \<Rightarrow> nat" where
  "exit_code (Printed _) = 0"
| "exit_code (Died _) = 1"
| "exit_code (Usage_Shown _) = 1"

definition end_of :: "('a \<Rightarrow> string list) \<Rightarrow> (error + 'a) \<times> 'w \<Rightarrow> client_end \<times> 'w" where
  "end_of lines r = (case r of (Inl err, w) \<Rightarrow> (Died err, w) | (Inr x, w) \<Rightarrow> (Printed (lines x), w))"

definition offset_line :: "u64 \<times> byte list \<Rightarrow> string" where
  "offset_line m = ''[Offset '' @ show_nat (unat (fst m)) @ '']: '' @ data_string (Some (snd m))"

text \<open>
  \<open>grpc\<close> dials controllers; \<open>os\<close> is the rest of the client's surroundings; \<open>fuel\<close>, \<open>unix\<close>, \<open>before\<close> and
  \<open>after\<close> are those of the commands.  \<open>None\<close>: the fuel of \<open>consume\<close> ran out.
\<close>

definition run_client ::
  "nat \<Rightarrow> nat \<Rightarrow> nat \<Rightarrow> nat \<Rightarrow> (string \<Rightarrow> error + 'w DiscoveryServiceClient) \<Rightarrow> 'w cluster \<Rightarrow> string \<Rightarrow> string list \<Rightarrow>
   'w \<Rightarrow> (client_end \<times> 'w) option"
where
  "run_client fuel unix before after grpc os controllerAddr args w =
     (case client_main args of
        Usage \<Rightarrow> Some (Usage_Shown printUsage, w)
      | Fatal msg \<Rightarrow> Some (Died msg, w)
      | Metadata \<Rightarrow> Some (end_of (\<lambda>lines. lines) (handleMetadata grpc controllerAddr w))
      | Create_Topic topic parts repFactor \<Rightarrow>
          Some (end_of (\<lambda>line. [line]) (handleCreateTopic grpc controllerAddr topic parts repFactor w))
      | Produce topic part message \<Rightarrow>
          Some (end_of (\<lambda>line. [line]) (handleProduce grpc controllerAddr (cl_Dial os) topic part message w))
      | Consume topic part off follow \<Rightarrow>
          map_option (end_of (map offset_line)) (handleConsume fuel grpc controllerAddr (cl_Dial os) topic part off follow w)
      | Integration_Test \<Rightarrow>
          Some (end_of (\<lambda>_. []) (with_controller grpc controllerAddr (\<lambda>client.
            handleIntegrationTest unix before after
              (os\<lparr>cl_CreateTopic := dsc_CreateTopic client, cl_GetMetadata := dsc_GetMetadata client\<rparr>)) w)))"

section \<open>Parts of a world\<close>

text \<open>Operations on a part of the world, as operations on the world.\<close>

definition lift_action :: "('w \<Rightarrow> 'b) \<Rightarrow> ('b \<Rightarrow> 'w \<Rightarrow> 'w) \<Rightarrow> ('b \<Rightarrow> 'a \<times> 'b) \<Rightarrow> 'w \<Rightarrow> 'a \<times> 'w" where
  "lift_action get put f w = (let (r, b) = f (get w) in (r, put b w))"

definition lift_net :: "('w \<Rightarrow> 'b) \<Rightarrow> ('b \<Rightarrow> 'w \<Rightarrow> 'w) \<Rightarrow> 'b net \<Rightarrow> 'w net" where
  "lift_net get put net = \<lparr>net_Write = (\<lambda>bs. lift_action get put (net_Write net bs)),
     net_ReadFull = (\<lambda>n. lift_action get put (net_ReadFull net n))\<rparr>"

definition lift_client :: "('w \<Rightarrow> 'b) \<Rightarrow> ('b \<Rightarrow> 'w \<Rightarrow> 'w) \<Rightarrow> 'b DiscoveryServiceClient \<Rightarrow> 'w DiscoveryServiceClient" where
  "lift_client get put client = \<lparr>dsc_CreateTopic = (\<lambda>req. lift_action get put (dsc_CreateTopic client req)),
     dsc_GetMetadata = (\<lambda>req. lift_action get put (dsc_GetMetadata client req))\<rparr>"

locale world_part =
  fixes get :: "'w \<Rightarrow> 'b" and put :: "'b \<Rightarrow> 'w \<Rightarrow> 'w"
  assumes get_put: "get (put b w) = b"
    and put_get: "put (get w) w = w"
    and put_put: "put b' (put b w) = put b' w"
begin

lemma lift_write_request:
  assumes "\<And>w. k' w = lift_action get put k w"
  shows "write_request (lift_net get put net) header body w k' =
    lift_action get put (\<lambda>b. write_request net header body b k) w"
  using assms
  by (simp add: write_request_def lift_net_def lift_action_def get_put put_put split: prod.split option.split)

lemma lift_sendProduce:
  "sendProduce (lift_net get put net) topic part msg w = lift_action get put (sendProduce net topic part msg) w"
  unfolding sendProduce_def Let_def
  by (rule lift_write_request)
     (simp add: lift_net_def lift_action_def get_put put_put split: prod.split sum.split)

lemma lift_read_fetch_response:
  "read_fetch_response (lift_net get put net) w = lift_action get put (read_fetch_response net) w"
  by (simp add: read_fetch_response_def lift_net_def lift_action_def get_put put_put Let_def split: prod.split sum.split)

lemma lift_sendFetch:
  "sendFetch (lift_net get put net) topic part off w = lift_action get put (sendFetch net topic part off) w"
  unfolding sendFetch_def Let_def by (rule lift_write_request) (rule lift_read_fetch_response)

lemma lift_consume_loop:
  "consume_loop fuel (lift_net get put net) topic part off follow printed w =
   map_option (\<lambda>(r, b). (r, put b w)) (consume_loop fuel net topic part off follow printed (get w))"
proof (induction fuel arbitrary: off printed w)
  case (Suc fuel)
  obtain r b where "sendFetch net topic part off (get w) = (r, b)" by fastforce
  then show ?case
    using Suc.IH [of _ _ "put b w"]
    by (auto simp: lift_sendFetch lift_action_def get_put put_put split: sum.split option.split)
qed simp

lemma lift_getPartitionLeaderAddr:
  "getPartitionLeaderAddr (lift_client get put client) topic part w =
   lift_action get put (getPartitionLeaderAddr client topic part) w"
  by (simp add: getPartitionLeaderAddr_def lift_client_def lift_action_def split: prod.split sum.split option.split)

end

section \<open>A controller and its brokers\<close>

text \<open>
  The world of a client: the controller it asks, and what listens at an address.  A broker answers one
  connection at a time here; opening one starts with empty buffers.
\<close>

record 'r system =
  sy_node :: "'r RaftNode"
  sy_brokers :: "string \<Rightarrow> broker_world"
  sy_listening :: "string set"

definition put_node :: "'r RaftNode \<Rightarrow> 'r system \<Rightarrow> 'r system" where
  "put_node rn w = w\<lparr>sy_node := rn\<rparr>"

definition broker_at :: "string \<Rightarrow> 'r system \<Rightarrow> broker_world" where
  "broker_at addr w = sy_brokers w addr"

definition put_broker :: "string \<Rightarrow> broker_world \<Rightarrow> 'r system \<Rightarrow> 'r system" where
  "put_broker addr b w = w\<lparr>sy_brokers := (sy_brokers w)(addr := b)\<rparr>"

lemmas system_defs = put_node_def broker_at_def put_broker_def

interpretation node_part: world_part sy_node put_node
  by unfold_locales (simp_all add: system_defs)

interpretation broker_part: world_part "broker_at addr" "put_broker addr" for addr
  by unfold_locales (simp_all add: system_defs)

definition system_dial :: "sendfile \<Rightarrow> (nat \<Rightarrow> int) \<Rightarrow> string \<Rightarrow> ('r system, 'r system net) action" where
  "system_dial sf clock addr w =
     (if addr \<in> sy_listening w
      then (Inr (lift_net (broker_at addr) (put_broker addr) (broker_net sf clock)),
            put_broker addr ((broker_at addr w)\<lparr>bw_in := [], bw_out := [], bw_err := None\<rparr>) w)
      else (Inl ''connection refused'', w))"

text \<open>What a client finds: the stub reaches the controller, and addresses reach brokers.\<close>

definition surroundings ::
  "'r raft_lib \<Rightarrow> (code \<times> string \<Rightarrow> error) \<Rightarrow> (MetadataRequest \<Rightarrow> 'r RaftNode \<Rightarrow> u32 list \<times> visit) \<Rightarrow>
   sendfile \<Rightarrow> (nat \<Rightarrow> int) \<Rightarrow> string \<Rightarrow> (string \<Rightarrow> error + 'r system DiscoveryServiceClient) \<Rightarrow> 'r system cluster \<Rightarrow> bool"
where
  "surroundings raft status_text ranges sf clock controllerAddr grpc os \<longleftrightarrow>
     grpc controllerAddr = Inr (lift_client sy_node put_node (controller_client raft status_text ranges)) \<and>
     cl_Dial os = system_dial sf clock"

text \<open>
  The partition is led by the broker that listens at \<open>addr\<close>, which holds \<open>ms\<close> and waits for no replica.
\<close>

definition serving ::
  "(MetadataRequest \<Rightarrow> 'r RaftNode \<Rightarrow> u32 list \<times> visit) \<Rightarrow> string \<Rightarrow> partition_key \<Rightarrow> byte list list \<Rightarrow> 'r system \<Rightarrow> bool"
where
  "serving ranges addr key ms w \<longleftrightarrow>
     broker_ids_ok (RN_FSM (sy_node w)) \<and> ranges_ok ranges [fst key] (sy_node w) \<and>
     leader_address (RN_FSM (sy_node w)) (fst key) (snd key) = Inr addr \<and>
     addr \<in> sy_listening w \<and> led (bw_logs (broker_at addr w)) key ms"

lemma leader_found:
  assumes "surroundings raft st ranges sf clock caddr grpc os" "serving ranges addr (t, p) ms w"
  shows "with_controller grpc caddr (\<lambda>client. leader_or_fatal client t p) w = (Inr addr, w)"
  using assms getPartitionLeaderAddr_controller [of "sy_node w" ranges t raft st p]
  by (simp add: with_controller_def connectController_def surroundings_def serving_def leader_or_fatal_def
      node_part.lift_getPartitionLeaderAddr lift_action_def node_part.put_get)

lemma dial_leader:
  assumes "serving ranges addr (t, p) ms w"
  shows "\<exists>w'. system_dial sf clock addr w =
      (Inr (lift_net (broker_at addr) (put_broker addr) (broker_net sf clock)), w') \<and>
    serving ranges addr (t, p) ms w' \<and> idle (broker_at addr w')"
  using assms by (simp add: system_dial_def serving_def idle_def system_defs)

lemma serving_put:
  "serving ranges addr (t, p) ms w \<Longrightarrow> led (bw_logs b) (t, p) ms' \<Longrightarrow> serving ranges addr (t, p) ms' (put_broker addr b w)"
  by (simp add: serving_def system_defs)

lemma handleProduce_serving:
  assumes sur: "surroundings raft st ranges sf clock caddr grpc os" and w: "serving ranges addr (t, p) ms w"
    and t: "valid_utf8 t" "length t < 65536" "10 + length t + length msg < 4294967296" and fits: "fits (ms @ [bytes_of msg])"
  shows "\<exists>w'. handleProduce grpc caddr (cl_Dial os) t p msg w =
      (Inr (''Message published successfully! Assigned Offset: '' @ show_nat (length ms)), w') \<and>
    serving ranges addr (t, p) (ms @ [bytes_of msg]) w'"
proof -
  obtain w1 where w1: "system_dial sf clock addr w =
      (Inr (lift_net (broker_at addr) (put_broker addr) (broker_net sf clock)), w1)"
      "serving ranges addr (t, p) ms w1" "idle (broker_at addr w1)"
    using dial_leader [OF w] by blast
  have "led (bw_logs (broker_at addr w1)) (t, p) ms" using w1(2) by (simp add: serving_def)
  from sendProduce_broker [OF w1(3) this t fits, of sf clock] obtain b where b:
      "sendProduce (broker_net sf clock) t p msg (broker_at addr w1) = (Inr (word_of_nat (length ms)), b)"
      "led (bw_logs b) (t, p) (ms @ [bytes_of msg])" by blast
  have "unat (word_of_nat (length ms) :: u64) = length ms"
    using fits by (intro unat_word_of_nat_u64) (simp add: fits_def)
  then have "handleProduce grpc caddr (cl_Dial os) t p msg w =
      (Inr (''Message published successfully! Assigned Offset: '' @ show_nat (length ms)), put_broker addr b w1)"
    using sur w1(1) b(1)
    by (simp add: handleProduce_def leader_found [OF sur w] surroundings_def broker_part.lift_sendProduce lift_action_def)
  with serving_put [OF w1(2) b(2)] show ?thesis by blast
qed

lemma handleConsume_serving:
  assumes sur: "surroundings raft st ranges sf clock caddr grpc os" and w: "serving ranges addr (t, p) ms w"
    and t: "valid_utf8 t" "length t < 65536" and sf: "sendfile_ok sf"
    and ms: "\<forall>m \<in> set ms. m \<noteq> [] \<and> length m \<le> 65536" "fits ms" "length ms < fuel"
  shows "\<exists>w'. handleConsume fuel grpc caddr (cl_Dial os) t p 0 False w =
      Some (Inr (map (\<lambda>k. (word_of_nat k, ms ! k)) [0..<length ms]), w') \<and> serving ranges addr (t, p) ms w'"
proof -
  obtain w1 where w1: "system_dial sf clock addr w =
      (Inr (lift_net (broker_at addr) (put_broker addr) (broker_net sf clock)), w1)"
      "serving ranges addr (t, p) ms w1" "idle (broker_at addr w1)"
    using dial_leader [OF w] by blast
  have "idle (broker_at addr w1) \<and> led (bw_logs (broker_at addr w1)) (t, p) ms" using w1(2,3) by (simp add: serving_def)
  from consume_loop_serves [OF broker_serves [OF sf t ms(1,2)] this ms(3), of clock "[]"] obtain b where b: "led (bw_logs b) (t, p) ms"
      "consume_loop fuel (broker_net sf clock) t p 0 False [] (broker_at addr w1) =
        Some (Inr (map (\<lambda>k. (word_of_nat k, ms ! k)) [0..<length ms]), b)" by auto
  have "handleConsume fuel grpc caddr (cl_Dial os) t p 0 False w =
      Some (Inr (map (\<lambda>k. (word_of_nat k, ms ! k)) [0..<length ms]), put_broker addr b w1)"
    using sur w1(1) b(2)
    by (simp add: handleConsume_def leader_found [OF sur w] surroundings_def broker_part.lift_consume_loop)
  with serving_put [OF w1(2) b(1)] show ?thesis by blast
qed

section \<open>Creating a topic\<close>

text \<open>
  The setting of \<open>create-topic\<close>: the controller leads and applies what it proposes, the topic is new, some
  broker is active, and wherever an active broker has registered, a broker without messages of the
  topic listens.
\<close>

abbreviation creation :: "string \<Rightarrow> nat \<Rightarrow> nat \<Rightarrow> CreateTopicPayload" where
  "creation t n r \<equiv> \<lparr>ct_Name = t, ct_Partitions = word_of_nat n, ct_ReplicationFactor = word_of_nat r\<rparr>"

definition ready_to_create ::
  "'r raft_lib \<Rightarrow> choices \<Rightarrow> (MetadataRequest \<Rightarrow> 'r RaftNode \<Rightarrow> u32 list \<times> visit) \<Rightarrow> string \<Rightarrow> nat \<Rightarrow> nat \<Rightarrow> 'r system \<Rightarrow> bool"
where
  "ready_to_create raft ch ranges t n r w \<longleftrightarrow>
     (let s = RN_FSM (sy_node w); s' = exec ch (PCreateTopic (creation t n r)) s in
      applies_alone (\<lambda>_ _. ch) raft \<and> raft_State raft (RN_Raft (sy_node w)) = Leader \<and>
      choices_ok ch s s' \<and> ranges_ok ranges [t] ((sy_node w)\<lparr>RN_FSM := s'\<rparr>) \<and>
      broker_ids_ok s \<and> Topics s t = None \<and> some_active s \<and>
      (\<forall>i b. Brokers s i = Some b \<and> Active b \<longrightarrow>
         Host b @ '':'' @ show_i32 (Port b) \<in> sy_listening w \<and>
         (\<forall>p. led (bw_logs (broker_at (Host b @ '':'' @ show_i32 (Port b)) w)) (t, p) [])))"

lemma create_leader_address:
  assumes "Topics s (ct_Name c) = None" "choices_ok ch s (exec ch (PCreateTopic c) s)" "some_active s" "p < ct_Partitions c"
  shows "\<exists>i b. Brokers s i = Some b \<and> Active b \<and>
    leader_address (exec ch (PCreateTopic c) s) (ct_Name c) p = Inr (Host b @ '':'' @ show_i32 (Port b))"
proof -
  let ?act = "getActiveBrokerIDs (ch_brokers ch) s"
  have ks: "range_ok (ch_brokers ch) (Brokers s)" "visit_ok (ch_visit ch) (exec ch (PCreateTopic c) s)"
    using assms(2) by (simp_all add: choices_ok_def)
  obtain q where q: "partition_of (exec ch (PCreateTopic c) s) (ct_Name c) p = Some q"
      "LeaderID q = ?act ! (unat p mod length ?act)"
    using create_topic_partition [OF assms(1) ks(2) [unfolded exec.simps] ks(1) assms(3,4)] by auto
  have "?act \<noteq> []" using ks(1) assms(3) by (simp add: getActiveBrokerIDs_Nil)
  then have "LeaderID q \<in> set ?act" by (simp add: q(2))
  then obtain b where "Brokers s (LeaderID q) = Some b" "Active b"
    by (auto simp: set_getActiveBrokerIDs broker_active_def split: option.splits)
  with q(1) show ?thesis by (auto simp: leader_address_def)
qed

lemma handleCreateTopic_serving:
  assumes sur: "surroundings raft st ranges sf clock caddr grpc os" and w: "ready_to_create raft ch ranges t n r w"
    and t: "valid_utf8 t" and p: "p < n" "n < 2 ^ 32"
  shows "\<exists>w' addr. handleCreateTopic grpc caddr t (word_of_nat n) (word_of_nat r) w =
      (Inr (''Topic '' @ quote @ t @ quote @ '' created successfully''), w') \<and> serving ranges addr (t, word_of_nat p) [] w'"
proof -
  let ?rn = "sy_node w" and ?c = "creation t n r"
  let ?s' = "exec ch (PCreateTopic ?c) (RN_FSM ?rn)"
  have ready: "applies_alone (\<lambda>_ _. ch) raft" "raft_State raft (RN_Raft ?rn) = Leader" "choices_ok ch (RN_FSM ?rn) ?s'"
      "ranges_ok ranges [t] (?rn\<lparr>RN_FSM := ?s'\<rparr>)" "broker_ids_ok (RN_FSM ?rn)" "Topics (RN_FSM ?rn) t = None"
      "some_active (RN_FSM ?rn)"
    using w unfolding ready_to_create_def Let_def by blast+
  have "Propose raft CmdCreateTopic (enc_CreateTopic ?c) ?rn = (None, ?rn\<lparr>RN_FSM := ?s'\<rparr>)"
    by (rule Propose_alone [OF ready(1,2), of "PCreateTopic ?c"]) (use t ready(3) in simp_all)
  then have created: "handleCreateTopic grpc caddr t (word_of_nat n) (word_of_nat r) w =
      (Inr (''Topic '' @ quote @ t @ quote @ '' created successfully''), put_node (?rn\<lparr>RN_FSM := ?s'\<rparr>) w)"
    using sur ready(2)
    by (simp add: handleCreateTopic_def with_controller_def connectController_def surroundings_def lift_client_def
        lift_action_def controller_client_def CreateTopic_def checkLeader_def quote_def)
  have "(word_of_nat p :: u32) < word_of_nat n" using p by (simp add: word_less_nat_alt unat_of_nat)
  then obtain i b where b: "Brokers (RN_FSM ?rn) i = Some b" "Active b"
      "leader_address ?s' t (word_of_nat p) = Inr (Host b @ '':'' @ show_i32 (Port b))"
    using create_leader_address [of "RN_FSM ?rn" ?c ch "word_of_nat p"] ready(3,6,7) by auto
  have "Host b @ '':'' @ show_i32 (Port b) \<in> sy_listening w"
      "led (bw_logs (broker_at (Host b @ '':'' @ show_i32 (Port b)) w)) (t, word_of_nat p) []"
    using w b(1,2) unfolding ready_to_create_def Let_def by blast+
  then have "serving ranges (Host b @ '':'' @ show_i32 (Port b)) (t, word_of_nat p) [] (put_node (?rn\<lparr>RN_FSM := ?s'\<rparr>) w)"
    using b(3) ready(4,5) by (simp add: serving_def system_defs broker_ids_ok_def)
  with created show ?thesis by blast
qed

section \<open>Runs of the program\<close>

fun run_commands :: "(string list \<Rightarrow> 'w \<Rightarrow> (client_end \<times> 'w) option) \<Rightarrow> string list list \<Rightarrow> 'w \<Rightarrow> (client_end list \<times> 'w) option"
where
  "run_commands run [] w = Some ([], w)"
| "run_commands run (args # cmds) w =
     (case run args w of
        None \<Rightarrow> None
      | Some (e, w) \<Rightarrow> map_option (\<lambda>(es, w). (e # es, w)) (run_commands run cmds w))"

definition produce_commands :: "string \<Rightarrow> nat \<Rightarrow> string list \<Rightarrow> string list list" where
  "produce_commands t p msgs = map (\<lambda>m. [''produce'', t, show_nat p, m]) msgs"

definition published :: "nat \<Rightarrow> client_end" where
  "published k = Printed [''Message published successfully! Assigned Offset: '' @ show_nat k]"

lemma run_commands_append:
  "run_commands run (xs @ ys) w =
   (case run_commands run xs w of None \<Rightarrow> None | Some (es, w) \<Rightarrow> map_option (\<lambda>(fs, w). (es @ fs, w)) (run_commands run ys w))"
  by (induction xs arbitrary: w)
    (simp_all add: option.map_comp option.map_ident comp_def case_prod_unfold split: option.split)

lemma run_produce_commands:
  assumes sur: "surroundings raft st ranges sf clock caddr grpc os" and t: "valid_utf8 t" "length t < 65536" and p: "p < 2 ^ 32"
    and "serving ranges addr (t, word_of_nat p) ms w" "\<forall>m \<in> set msgs. length m \<le> 65536" "fits (ms @ map bytes_of msgs)"
  shows "\<exists>w'. run_commands (run_client fuel unix before after grpc os caddr) (produce_commands t p msgs) w =
      Some (map (\<lambda>k. published (length ms + k)) [0..<length msgs], w') \<and>
    serving ranges addr (t, word_of_nat p) (ms @ map bytes_of msgs) w'"
  using assms(5-7)
proof (induction msgs arbitrary: ms w)
  case (Cons m msgs)
  have "10 + length t + length m < 4294967296" using t(2) Cons.prems(2) by simp
  moreover have "fits (ms @ [bytes_of m])" using Cons.prems(3) fits_prefix [of "ms @ [bytes_of m]"] by simp
  ultimately obtain w1 where w1: "handleProduce grpc caddr (cl_Dial os) t (word_of_nat p) m w =
        (Inr (''Message published successfully! Assigned Offset: '' @ show_nat (length ms)), w1)"
      "serving ranges addr (t, word_of_nat p) (ms @ [bytes_of m]) w1"
    using handleProduce_serving [OF sur Cons.prems(1) t, of m] by auto
  have "client_main [''produce'', t, show_nat p, m] = Produce t (word_of_nat p) m"
    using client_main_numbers [of p 0 0 t m] p by simp
  then have run: "run_client fuel unix before after grpc os caddr [''produce'', t, show_nat p, m] w =
      Some (published (length ms), w1)"
    unfolding run_client_def using w1(1) by (simp add: end_of_def published_def)
  obtain w2 where w2: "run_commands (run_client fuel unix before after grpc os caddr) (produce_commands t p msgs) w1 =
        Some (map (\<lambda>k. published (length (ms @ [bytes_of m]) + k)) [0..<length msgs], w2)"
      "serving ranges addr (t, word_of_nat p) ((ms @ [bytes_of m]) @ map bytes_of msgs) w2"
    using Cons.IH [OF w1(2)] Cons.prems(2,3) by auto
  have "map (\<lambda>k. published (length ms + k)) [0..<length (m # msgs)] =
      published (length ms) # map (\<lambda>k. published (length (ms @ [bytes_of m]) + k)) [0..<length msgs]"
    unfolding length_Cons map_upt_Suc by simp
  with run w2 show ?case by (simp add: produce_commands_def del: upt_Suc)
qed (simp add: produce_commands_def)

lemma run_consume_command:
  assumes "surroundings raft st ranges sf clock caddr grpc os" "serving ranges addr (t, word_of_nat p) ms w"
    and "p < 2 ^ 32" "valid_utf8 t" "length t < 65536" "sendfile_ok sf"
    and "\<forall>m \<in> set ms. m \<noteq> [] \<and> length m \<le> 65536" "fits ms" "length ms < fuel"
  shows "\<exists>w'. run_client fuel unix before after grpc os caddr [''consume'', t, show_nat p, ''0''] w =
      Some (Printed (map (\<lambda>k. ''[Offset '' @ show_nat k @ '']: '' @ string_of (ms ! k)) [0..<length ms]), w')"
proof -
  obtain w' where w': "handleConsume fuel grpc caddr (cl_Dial os) t (word_of_nat p) 0 False w =
      Some (Inr (map (\<lambda>k. (word_of_nat k, ms ! k)) [0..<length ms]), w')"
    using handleConsume_serving [OF assms(1,2,4-9)] by blast
  have "show_nat 0 = ''0''" by code_simp
  then have args: "client_main [''consume'', t, show_nat p, ''0''] = Consume t (word_of_nat p) 0 False"
    using client_main_numbers [of p 0 0 t "[]"] assms(3) by simp
  have "offset_line (word_of_nat k, ms ! k) = ''[Offset '' @ show_nat k @ '']: '' @ string_of (ms ! k)" if "k < length ms" for k
    using that assms(8) by (simp add: offset_line_def data_string_def unat_word_of_nat_u64 fits_def)
  then have "map offset_line (map (\<lambda>k. (word_of_nat k, ms ! k)) [0..<length ms]) =
      map (\<lambda>k. ''[Offset '' @ show_nat k @ '']: '' @ string_of (ms ! k)) [0..<length ms]" by simp
  with w' show ?thesis unfolding run_client_def args by (simp add: end_of_def del: map_map)
qed

section \<open>Properties\<close>


text \<open>The controller after broker 1 has registered, and an empty broker at its address.\<close>

definition new_node :: "RaftState RaftNode" where
  "new_node = \<lparr>RN_Raft = Leader, RN_FSM = demo_state1, RN_NodeID = ''node1''\<rparr>"

definition new_system :: "RaftState system" where
  "new_system = \<lparr>sy_node = new_node, sy_brokers = (\<lambda>_. empty_broker), sy_listening = {''h:'' @ show_i32 9091}\<rparr>"

definition new_raft :: "RaftState raft_lib" where
  "new_raft = local_raft (\<lambda>_ _. demo_choices [1] demo_visit)"

definition new_grpc :: "string \<Rightarrow> error + RaftState system DiscoveryServiceClient" where
  "new_grpc addr = Inr (lift_client sy_node put_node (controller_client new_raft snd demo_ranges))"

definition new_os :: "RaftState system cluster" where
  "new_os = \<lparr>cl_CreateTopic = (\<lambda>req. fatal ''unused''), cl_GetMetadata = (\<lambda>req. fatal ''unused''),
     cl_Dial = system_dial (\<lambda>off n. int n) int, cl_Close = (\<lambda>c w. w), cl_NotExist = (\<lambda>path w. False),
     cl_Sleep = (\<lambda>n w. w), cl_Run = (\<lambda>cmd w. w), cl_OpenFile = (\<lambda>path. done_with ()), cl_CloseFile = (\<lambda>path w. w),
     cl_Start = (\<lambda>cmd. done_with ())\<rparr>"

lemma new_system_ready: "ready_to_create new_raft (demo_choices [1] demo_visit) demo_ranges ''t'' 1 1 new_system"
proof -
  have s': "exec (demo_choices [1] demo_visit) (PCreateTopic (creation ''t'' 1 1)) demo_state1 = demo_state2"
    by (simp add: demo_state2_def demo_create_def)
  have "new_node\<lparr>RN_FSM := demo_state2\<rparr> = demo_node" by (simp add: new_node_def demo_node_def)
  moreover have "led (bw_logs empty_broker) (''t'', p) []" for p
    by (rule led_fresh) (simp_all add: empty_broker_def NewLogManager_def)
  moreover have "applies_alone (\<lambda>_ _. demo_choices [1] demo_visit) new_raft" "raft_State new_raft Leader = Leader"
    using local_raft_alone by (simp_all add: new_raft_def local_raft_def)
  moreover have "broker_ids_ok demo_state1" "Topics demo_state1 ''t'' = None"
    by (simp_all add: demo_state1_eq broker_ids_ok_def NewFSM_def)
  moreover have "Host b = ''h'' \<and> Port b = 9091" if "Brokers demo_state1 i = Some b" for i b
    using that by (auto simp: demo_state1_eq split: if_splits)
  ultimately show ?thesis
    using demo_step_choices(2) demo_ranges_ok(2) demo_active(1)
    by (auto simp: ready_to_create_def Let_def new_system_def s' [simplified] new_node_def broker_at_def)
qed


end
