(* ===== verification/Crash.thy ===== *)
theory Crash
  imports Log_Histories
begin

text \<open>
  The broker process is killed in the middle of \<open>PartitionLog::append\<close> and started again.  The
  operating system keeps what has been written: the whole roll-over or none of it, a part of the
  data in the log file, and a part of the index entry once all of the data is there.  Nothing
  in \<open>PartitionLog::new\<close> looks for such remains.
\<close>

section \<open>An append that does not finish\<close>

definition make_room :: "int \<Rightarrow> byte list \<Rightarrow> PartitionLog \<Rightarrow> PartitionLog" where
  "make_room now data l =
     (let cur_len = length (sf_log (active_file l)) in
      if cur_len + length data > unat (max_segment_size l) \<and> cur_len > 0 then roll_over now l else l)"

text \<open>The first \<open>j\<close> bytes of the data and the first \<open>i\<close> bytes of the index entry have been written.\<close>

definition torn_record :: "int \<Rightarrow> nat \<Rightarrow> nat \<Rightarrow> byte list \<Rightarrow> PartitionLog \<Rightarrow> PartitionLog" where
  "torn_record now j i data l =
     (let f = active_file l;
          pos = length (sf_log f)
      in l\<lparr>local_dir := (local_dir l)(last (segments l) \<mapsto>
             \<lparr>sf_log = sf_log f @ take j data,
              sf_index = Some (sf_idx f @ take i (PutUint64 (next_offset l) @ PutUint64 (word_of_nat pos))),
              sf_mtime = (if take j data = [] then sf_mtime f else now)\<rparr>)\<rparr>)"

definition crash_append :: "int \<Rightarrow> nat \<Rightarrow> nat \<Rightarrow> byte list \<Rightarrow> PartitionLog \<Rightarrow> PartitionLog" where
  "crash_append now j i data l = torn_record now j i data (make_room now data l)"

text \<open>With everything written, this is what \<open>append\<close> leaves on disk before it cleans up.\<close>

lemma torn_record_complete:
  "length data \<le> j \<Longrightarrow> 16 \<le> i \<Longrightarrow> local_dir (torn_record now j i data l) = local_dir (write_record now data l)"
  by (simp add: torn_record_def write_record_def Let_def)

lemma append_log_make_room:
  "append_log now data l =
     (next_offset (make_room now data l),
      recompute_high_watermark (clean_retention now (write_record now data (make_room now data l))))"
  by (simp add: append_log_def make_room_def Let_def)

section \<open>What is left\<close>

lemma make_room_ok:
  assumes ok: "log_ok bs r l"
  shows "\<exists>bs'. log_ok bs' r (make_room now data l) \<and> concat bs' = concat bs"
proof -
  have "sf_log (active_file l) = concat (last bs)" using active_file_encodes(2) [OF ok] by (simp add: encodes_def)
  then have "last bs \<noteq> []" if "length (sf_log (active_file l)) > 0" using that by auto
  then show ?thesis
    using ok roll_over_ok [OF ok, of now] unfolding make_room_def Let_def
    by (cases "length (sf_log (active_file l)) > 0") (auto intro: exI [of _ "bs @ [[]]"])
qed

lemma restart_holds: "log_ok bs r l \<Longrightarrow> holds (restart t l) (concat bs)"
  unfolding restart_def by (rule holds_open_log) (auto simp: holds_def)

lemma torn_record_nothing:
  assumes ok: "log_ok bs r l"
  shows "log_ok bs r (torn_record now 0 0 data l)"
proof -
  have "local_dir (torn_record now 0 0 data l) = local_dir l"
    using active_file_encodes(1) [OF ok] 
    by (simp add: torn_record_def Let_def last_segment [OF ok] map_upd_triv active_file_index [symmetric])
  then show ?thesis using ok by (simp add: log_ok_def) (simp add: torn_record_def Let_def)
qed

lemma encodes_extend_last:
  assumes "encodes c ms f" "ms \<noteq> []"
  shows "encodes c (butlast ms @ [last ms @ xs]) (f\<lparr>sf_log := sf_log f @ xs, sf_mtime := t\<rparr>)"
proof -
  have len: "length (butlast ms @ [last ms @ xs]) = length ms" using assms(2) by simp
  have "take i (butlast ms @ [last ms @ xs]) = take i ms" if "i < length ms" for i
    using that by (simp add: take_butlast)
  then have "map (entry c (butlast ms @ [last ms @ xs])) [0..<length ms] = map (entry c ms) [0..<length ms]"
    by (simp add: entry_def)
  then have "entries c (butlast ms @ [last ms @ xs]) = entries c ms" unfolding entries_def len by (simp only:)
  moreover have "concat (butlast ms @ [last ms @ xs]) = concat ms @ xs"
    using assms(2) by (induction ms rule: rev_induct) auto
  ultimately show ?thesis using assms(1) by (simp add: encodes_def)
qed

lemma torn_data_ok:
  assumes ok: "log_ok bs r l" and ne: "last bs \<noteq> []"
    and fits: "fits (butlast (concat bs) @ [last (concat bs) @ take j data])"
  shows "\<exists>bs'. log_ok bs' r (torn_record now j 0 data l) \<and>
    concat bs' = butlast (concat bs) @ [last (concat bs) @ take j data]"
proof -
  note D = log_okD [OF ok]
  let ?b = "butlast (last bs) @ [last (last bs) @ take j data]"
  have "concat bs = concat (butlast bs) @ last bs"
    using D(3) by (metis append_butlast_last_id concat.simps concat_append append_Nil2)
  then have c: "concat (butlast bs @ [?b]) = butlast (concat bs) @ [last (concat bs) @ take j data]"
    using ne by (simp add: butlast_append)
  have "log_ok (butlast bs @ [?b]) r (torn_record now j 0 data l)"
  proof (rule replace_active_ok [OF ok])
    let ?f = "(active_file l)\<lparr>sf_log := sf_log (active_file l) @ take j data,
      sf_mtime := if take j data = [] then sf_mtime (active_file l) else now\<rparr>"
    show "encodes (start bs (length bs - 1)) ?b ?f"
      by (rule encodes_extend_last [OF active_file_encodes(2) [OF ok] ne])
    show "local_dir (torn_record now j 0 data l) = (local_dir l)(last (segments l) \<mapsto> ?f)"
      by (simp add: torn_record_def Let_def active_file_index [symmetric]) (cases "active_file l", simp)
    show "fits (concat (butlast bs @ [?b]))" unfolding c by (rule fits)
    have "length (concat (butlast bs @ [?b])) = length (concat bs)"
      unfolding c using ne D(3) by (cases "concat bs" rule: rev_cases) auto
    then show "next_offset (torn_record now j 0 data l) = word_of_nat (length (concat (butlast bs @ [?b])))"
      using D(4) by (simp add: torn_record_def Let_def)
  qed (simp_all add: torn_record_def Let_def)
  with c show ?thesis by blast
qed

text \<open>Half an index entry: the last 16 bytes of the file are the position of the last message and the new offset.\<close>

lemma last_indexed_half_entry:
  assumes "encodes c ms f" "ms \<noteq> []" "sf_idx f' = sf_idx f @ PutUint64 x"
  shows "last_indexed b f' = idx_position (sf_idx f) (length ms - 1) + 1"
proof -
  let ?idx = "entries c ms"
  have len: "0 < length ms" using assms(2) by simp
  then have "slice (16 * length ms + 8 - 16) (16 * length ms + 8 - 8) (?idx @ PutUint64 x) =
      slice (16 * (length ms - 1) + 8) (16 * (length ms - 1) + 16) ?idx"
    by (cases ms) (simp_all add: slice_def add.commute)
  then show ?thesis
    using assms(1,3) len by (cases ms) (simp_all add: last_indexed_def encodes_def sf_idx_Some idx_position_def Let_def)
qed

lemma restart_active:
  assumes ok: "log_ok bs r l" and l': "local_dir l' = (local_dir l)(last (segments l) \<mapsto> f)" and idx: "sf_index f \<noteq> None"
  shows "next_offset (restart t l') = last_indexed (last (segments l)) f"
    "segments (restart t l') = segments l" "local_dir (restart t l') = local_dir l'"
proof -
  note D = log_okD [OF ok]
  have "last (segments l) \<in> dom (local_dir l)" using active_file_encodes(1) [OF ok] by (auto simp: last_segment [OF ok])
  then have "base_offsets (local_dir l') = base_offsets (local_dir l)" by (simp add: base_offsets_def l' insert_absorb)
  also have "\<dots> = segments l"
    using D(5,6) sorted_list_of_bases [OF D(1), of "length bs" r] by (simp add: base_offsets_def holds_dir_def)
  finally have bases: "base_offsets (local_dir l') = segments l" .
  moreover have "segments l \<noteq> []" using D(2,3,5) by simp
  ultimately show "next_offset (restart t l') = last_indexed (last (segments l)) f"
    "segments (restart t l') = segments l" "local_dir (restart t l') = local_dir l'"
    using idx by (simp_all add: restart_def open_log_def migrate_def open_create_Some l' Let_def)
qed

section \<open>Properties\<close>

text \<open>
  C28: a crash in the middle of an append.  A crash before any data has been written, whether or not the
  segment has been rolled over, loses nothing.  After a crash in the middle of the data, when the active
  segment already had a message, the next offset is right but that message is damaged: the bytes of the
  unfinished one are read as its end.  All other messages are intact.
\<close>

theorem crash_in_append:
  fixes ops now0 bid max_seg max_size max_age
  defines "l \<equiv> fold exec_op ops (fresh_log now0 bid max_seg max_size max_age)" and "ms \<equiv> appended ops"
  defines "torn \<equiv> \<lambda>j data. butlast ms @ [last ms @ take j data]"
  assumes fits: "fits (ms @ [data])" and small: "\<forall>m \<in> set ms. length m + length data < 2 ^ 32"
  shows "read_bytes off n (restart t (crash_append now 0 0 data l)) = Inr (message_at ms off n) \<and>
    (sf_idx (active_file (make_room now data l)) \<noteq> [] \<longrightarrow>
      next_offset (restart t (crash_append now j 0 data l)) = word_of_nat (length ms) \<and>
      read_bytes off n (restart t (crash_append now j 0 data l)) = Inr (message_at (torn j data) off n))"
proof (intro conjI impI)
  let ?l1 = "make_room now data l"
  have "fits ms" using fits by (simp add: fits_def)
  then obtain bs r where "log_ok bs r l" "concat bs = ms"
    using history_blocks concat_block_history unfolding l_def ms_def by blast
  then obtain bs where bs: "log_ok bs r ?l1" "concat bs = ms" using make_room_ok by metis
  have "holds (restart t (crash_append now 0 0 data l)) ms"
    using restart_holds [OF torn_record_nothing [OF bs(1)]] bs(2) by (simp add: crash_append_def)
  then show "read_bytes off n (restart t (crash_append now 0 0 data l)) = Inr (message_at ms off n)"
    using small by (intro plog.read_represents) auto
  assume "sf_idx (active_file ?l1) \<noteq> []"
  then have ne: "last bs \<noteq> []" using active_file_encodes(2) [OF bs(1)] by (auto simp: encodes_def sf_idx_Some)
  then have "ms \<noteq> []" using bs(2) log_okD(3) [OF bs(1)] by (auto dest: last_in_set)
  then have torn: "length (torn j data) = length ms" "fits (torn j data)" "\<forall>m \<in> set (torn j data). length m < 2 ^ 32"
    using fits small by (cases ms rule: rev_cases; auto simp: torn_def fits_def)+
  have "fits (butlast (concat bs) @ [last (concat bs) @ take j data])" using torn(2) by (simp add: torn_def bs(2))
  from torn_data_ok [OF bs(1) ne this, of now]
  have j: "holds (restart t (crash_append now j 0 data l)) (torn j data)"
    unfolding crash_append_def torn_def bs(2) by (metis restart_holds)
  show "next_offset (restart t (crash_append now j 0 data l)) = word_of_nat (length ms)"
    using holds_next_offset [OF j] torn(1) by simp
  show "read_bytes off n (restart t (crash_append now j 0 data l)) = Inr (message_at (torn j data) off n)"
    by (rule plog.read_represents [OF j torn(3)])
qed

text \<open>
  A crash in the middle of an index entry.  If the process dies after the offset of the
  entry and before the position, the restarted broker takes the byte position of the last message
  for its offset, and numbers the next message with it.
\<close>

lemma crash_in_index:
  fixes ops now0 bid max_seg max_size max_age now data
  defines "l \<equiv> fold exec_op ops (fresh_log now0 bid max_seg max_size max_age)"
  defines "f \<equiv> active_file (make_room now data l)"
  assumes "fits (appended ops)" "sf_idx f \<noteq> []"
  shows "next_offset (restart t (crash_append now (length data) 8 data l)) =
    idx_position (sf_idx f) (length (sf_idx f) div 16 - 1) + 1"
proof -
  let ?l1 = "make_room now data l"
  obtain bs r where "log_ok bs r l" using history_blocks [OF assms(3)] unfolding l_def by blast
  then obtain bs where bs: "log_ok bs r ?l1" using make_room_ok by metis
  note enc = active_file_encodes(2) [OF bs, folded f_def]
  have ne: "last bs \<noteq> []" using enc assms(4) by (auto simp: encodes_def sf_idx_Some)
  let ?f = "\<lparr>sf_log = sf_log f @ data, sf_index = Some (sf_idx f @ PutUint64 (next_offset ?l1)),
    sf_mtime = if data = [] then sf_mtime f else now\<rparr>"
  have "local_dir (crash_append now (length data) 8 data l) = (local_dir ?l1)(last (segments ?l1) \<mapsto> ?f)"
    by (simp add: crash_append_def torn_record_def Let_def f_def)
  then have "next_offset (restart t (crash_append now (length data) 8 data l)) = last_indexed (last (segments ?l1)) ?f"
    by (rule restart_active(1) [OF bs]) simp
  then show ?thesis
    using last_indexed_half_entry [OF enc ne, of ?f] enc by (simp add: encodes_def sf_idx_Some)
qed

definition two_messages :: PartitionLog where
  "two_messages = fold exec_op [AppendOp 0 [1, 2, 3, 4, 5], AppendOp 0 [6]] (fresh_log 0 1 210 None None)"

lemma two_messages_file:
  "active_file (make_room 0 [7, 8, 9] two_messages) =
     \<lparr>sf_log = [1, 2, 3, 4, 5, 6], sf_index = Some (entries 0 [[1, 2, 3, 4, 5], [6]]), sf_mtime = 0\<rparr>"
  by (simp add: two_messages_def make_room_def append_log_def fresh_log_def open_log_def clean_retention_def
      write_record_def active_file_def open_create_def empty_file_def migrate_def base_offsets_def
      recompute_high_watermark_def last_indexed_def entries_def entry_def Let_def)

lemma two_entries: "entries 0 [[1, 2, 3, 4, 5], [6]] \<noteq> []"
  using length_entries [of 0 "[[1, 2, 3, 4, 5], [6]]"] by force

theorem crash_in_append_witness:
  "read_bytes 1 65536 (restart 1 (crash_append 0 2 0 [7, 8, 9] two_messages)) = Inr (Some [6, 7, 8])"
  using crash_in_append [where ops = "[AppendOp 0 [1, 2, 3, 4, 5], AppendOp 0 [6]]" and j = 2 and data = "[7, 8, 9]"
      and now = 0 and ?now0.0 = 0 and bid = 1 and max_seg = 210 and max_size = None and max_age = None and off = 1
      and n = 65536 and t = 1, folded two_messages_def] two_messages_file two_entries
  by (simp add: fits_def message_at_def)

lemma crash_in_index_example:
  "next_offset (restart 1 (crash_append 0 3 8 [7, 8, 9] two_messages)) = 6"
  using crash_in_index [of "[AppendOp 0 [1, 2, 3, 4, 5], AppendOp 0 [6]]" 0 "[7, 8, 9]" 0 1 210 None None 1,
      folded two_messages_def] two_messages_file idx_position_entries [of 1 "[[1, 2, 3, 4, 5], [6]]" 0]
    two_entries
  by (simp add: fits_def numeral_3_eq_3)

end
