(* ===== verification/Io_Errors.thy ===== *)
theory Io_Errors
  imports Crash Data_Server
begin

text \<open>
  Operations of the partition log that the operating system interrupts: a call of \<open>append\<close> in
  \<open>rust-broker/src/log/manager.rs\<close> returns an error from one of its \<open>?\<close>, with some of its effects on the
  disk.  A crash of the process is the same followed by a restart.

  A roll-over that fails while it copies the segment to cold storage, or before the new segment's files
  exist, leaves at most a stale copy of the active segment in cold storage.  No read looks at it,
  and the next roll-over overwrites it.  A failed write leaves bytes in the log file that no index
  entry accounts for.
\<close>

section \<open>Faults\<close>

text \<open>
  Where a call fails, and how many bytes the failing copy or write has written.
\<close>

datatype io_fault = CopyLog nat | CopyIdx nat | OpenLog | OpenIdx | WriteData nat | WriteIdx nat

definition set_cold :: "u64 \<Rightarrow> seg_file \<Rightarrow> PartitionLog \<Rightarrow> PartitionLog" where
  "set_cold b f l = l\<lparr>cold_dir := (cold_dir l)(b \<mapsto> f)\<rparr>"

text \<open>The log file is opened or created, the index file is not.\<close>

definition open_log_file :: "int \<Rightarrow> u64 \<Rightarrow> (u64 \<rightharpoonup> seg_file) \<Rightarrow> seg_file" where
  "open_log_file now b d =
     (case d b of Some f \<Rightarrow> f | None \<Rightarrow> \<lparr>sf_log = [], sf_index = None, sf_mtime = now\<rparr>)"

text \<open>\<open>roll_over\<close> with its error returns; \<open>True\<close> stands for success.\<close>

definition roll_over_io :: "io_fault option \<Rightarrow> int \<Rightarrow> PartitionLog \<Rightarrow> bool \<times> PartitionLog" where
  "roll_over_io fault now l =
     (let old = last (segments l);
          f = active_file l;
          copied = set_cold old (f\<lparr>sf_mtime := now\<rparr>) l
      in case fault of
           Some (CopyLog j) \<Rightarrow>
             (False, set_cold old \<lparr>sf_log = take j (sf_log f),
                sf_index = Option.bind (cold_dir l old) sf_index, sf_mtime = now\<rparr> l)
         | Some (CopyIdx j) \<Rightarrow>
             (False, set_cold old \<lparr>sf_log = sf_log f, sf_index = Some (take j (sf_idx f)), sf_mtime = now\<rparr> l)
         | Some OpenLog \<Rightarrow> (False, copied)
         | Some OpenIdx \<Rightarrow>
             (False, copied\<lparr>local_dir := (local_dir l)(next_offset l \<mapsto> open_log_file now (next_offset l) (local_dir l))\<rparr>)
         | _ \<Rightarrow> (True, roll_over now l))"

text \<open>
  \<open>append\<close> with its error returns: the offset, or nothing in case of an error, and the state left
  behind.  A fault of the roll-over does not happen when there is none.
\<close>

definition append_io :: "io_fault option \<Rightarrow> int \<Rightarrow> byte list \<Rightarrow> PartitionLog \<Rightarrow> u64 option \<times> PartitionLog" where
  "append_io fault now data l =
     (let cur_len = length (sf_log (active_file l));
          (rolled, l1) = (if cur_len + length data > unat (max_segment_size l) \<and> cur_len > 0
                          then roll_over_io fault now l else (True, l))
      in if \<not> rolled then (None, l1)
         else case fault of
                Some (WriteData j) \<Rightarrow> (None, torn_record now j 0 data l1)
              | Some (WriteIdx i) \<Rightarrow> (None, torn_record now (length data) i data l1)
              | _ \<Rightarrow> (Some (next_offset l1), recompute_high_watermark (clean_retention now (write_record now data l1))))"

lemma append_io_None: "append_io None now data l = apfst Some (append_log now data l)"
  by (simp add: append_io_def append_log_def roll_over_io_def Let_def)

text \<open>The crashes of \<open>Crash\<close> are failed appends before a restart.\<close>

lemma append_io_crash:
  "snd (append_io (Some (WriteData j)) now data l) = crash_append now j 0 data l"
  "snd (append_io (Some (WriteIdx i)) now data l) = crash_append now (length data) i data l"
  by (simp_all add: append_io_def crash_append_def make_room_def roll_over_io_def Let_def)

section \<open>Stale copies in cold storage\<close>

text \<open>The log without the copy of its active segment in cold storage.\<close>

definition uncopied :: "PartitionLog \<Rightarrow> PartitionLog" where
  "uncopied l = l\<lparr>cold_dir := (cold_dir l)(last (segments l) := None)\<rparr>"

lemma uncopied_simps [simp]:
  "segments (uncopied l) = segments l" "local_dir (uncopied l) = local_dir l" "next_offset (uncopied l) = next_offset l"
  "max_segment_size (uncopied l) = max_segment_size l" "active_file (uncopied l) = active_file l"
  "broker_id (uncopied l) = broker_id l" "max_retention_size (uncopied l) = max_retention_size l"
  "max_retention_age (uncopied l) = max_retention_age l"
  by (simp_all add: uncopied_def active_file_def)

definition keeps :: "PartitionLog \<Rightarrow> byte list list \<Rightarrow> bool" where
  "keeps l ms \<longleftrightarrow> holds (uncopied l) ms"

lemma uncopied_set_cold [simp]: "uncopied (set_cold (last (segments l)) f l) = uncopied l"
  by (simp add: uncopied_def set_cold_def)

lemma uncopied_log_ok:
  assumes ok: "log_ok bs r l"
  shows "uncopied l = l"
proof -
  note D = log_okD [OF ok]
  have "base bs (length bs - 1) \<notin> base bs ` {0..<length bs - 1}"
    using inj_on_base [OF D(1), of "{..<length bs}"] D(3) by (auto dest: inj_onD)
  then have "cold_dir l (last (segments l)) = None"
    using D(7) last_segment [OF ok] by (auto simp: holds_dir_def)
  then show ?thesis by (simp add: uncopied_def fun_upd_idem)
qed

lemma holds_keeps: "holds l ms \<Longrightarrow> keeps l ms"
  unfolding keeps_def using uncopied_log_ok by (metis holds_def)

text \<open>No read is answered from the copy.\<close>

lemma cold_bases_copied:
  assumes ok: "log_ok bs r (uncopied l)" and copy: "cold_dir l (last (segments l)) \<noteq> None"
  shows "base_offsets (cold_dir l) = map (base bs) [0..<length bs]"
proof -
  note D = log_okD [OF ok]
  have "dom (cold_dir l) = insert (last (segments l)) (dom (cold_dir (uncopied l)))" using copy by (auto simp: uncopied_def)
  also have "\<dots> = base bs ` insert (length bs - 1) {0..<length bs - 1}"
    using D(7) last_segment [OF ok] by (simp add: holds_dir_def)
  also have "insert (length bs - 1) {0..<length bs - 1} = {0..<length bs}" using D(3) by (auto simp: less_Suc_eq)
  finally show ?thesis using sorted_list_of_bases [OF D(1) order_refl, of 0] by (simp add: base_offsets_def)
qed

lemma find_segment_uncopied:
  assumes ok: "log_ok bs r (uncopied l)"
  shows "find_segment off l = find_segment off (uncopied l)"
proof (cases "cold_dir l (last (segments l))")
  case None
  then show ?thesis by (simp add: uncopied_def fun_upd_idem)
next
  case (Some f)
  note D = log_okD [OF ok]
  define k where "k = unat off"
  have k: "k < 2 ^ 64" "off = word_of_nat k" using unat_u64_less [of off] by (simp_all add: k_def)
  obtain j where j: "j < length bs" and block: "\<And>i. i < length bs \<Longrightarrow> start bs i \<le> k \<longleftrightarrow> i \<le> j"
    using block_exists [OF D(1), of k] by metis
  have "find_cold_segment off l = Some (base bs j)"
    unfolding k(2) by (rule find_cold_block [OF D(1) k(1) cold_bases_copied [OF ok] order_refl j block]) (simp_all add: Some)
  moreover have "find_segment off (uncopied l) = Some (if r \<le> j then Local else Cold, base bs j)"
    unfolding k(2) by (rule find_segment_block [OF ok k(1) j block])
  ultimately show ?thesis
    by (auto simp: find_segment_def Let_def split: option.splits if_splits)
qed

lemma read_uncopied:
  assumes ok: "log_ok bs r (uncopied l)"
  shows "read_from_offset off n l = read_from_offset off n (uncopied l)"
proof -
  note D = log_okD [OF ok]
  obtain j where j: "j < length bs" and block: "\<And>i. i < length bs \<Longrightarrow> start bs i \<le> unat off \<longleftrightarrow> i \<le> j"
    using block_exists [OF D(1), of "unat off"] by metis
  then have seg: "find_segment off (uncopied l) = Some (if r \<le> j then Local else Cold, base bs j)"
    using find_segment_block [OF ok _ j block] unat_u64_less [of off] by simp
  have "segment_file (if r \<le> j then Local else Cold, base bs j) l = segment_file (if r \<le> j then Local else Cold, base bs j) (uncopied l)"
  proof (cases "r \<le> j")
    case False
    then have "j < length bs - 1" using D(2) by simp
    then have "base bs j \<noteq> last (segments l)"
      using base_less [OF D(1) \<open>j < length bs - 1\<close>] last_segment [OF ok] D(3) by (auto simp: order_less_imp_not_eq)
    then show ?thesis using False by (simp add: segment_file_def uncopied_def)
  qed (simp add: segment_file_def)
  then show ?thesis unfolding read_from_offset_def find_segment_uncopied [OF ok] seg by simp
qed

lemma keeps_read: "keeps l ms \<Longrightarrow> (\<forall>m \<in> set ms. length m < 2 ^ 32) \<Longrightarrow> read_bytes off n l = Inr (message_at ms off n)"
  using read_uncopied plog.read_represents unfolding keeps_def holds_def read_bytes_def by metis

text \<open>Appends, restarts and the rest of a history do not depend on the copy either.\<close>

lemma retention_size_loop_last:
  "segs \<noteq> [] \<Longrightarrow> last (fst (retention_size_loop m segs d)) = last segs"
  by (induction m segs d rule: retention_size_loop.induct) auto

lemma retention_age_loop_last:
  "segs \<noteq> [] \<Longrightarrow> last (fst (retention_age_loop now a segs d)) = last segs"
  by (induction now a segs d rule: retention_age_loop.induct) auto

lemma retention_loops_nonempty:
  "segs \<noteq> [] \<Longrightarrow> fst (retention_size_loop m segs d) \<noteq> []"
  by (induction m segs d rule: retention_size_loop.induct) auto

lemma clean_retention_last:
  "segments l \<noteq> [] \<Longrightarrow> last (segments (clean_retention now l)) = last (segments l)"
  by (auto simp: clean_retention_def set_local_def Let_def retention_size_loop_last retention_age_loop_last
      retention_loops_nonempty split: option.split)

lemma clean_retention_cold: "clean_retention now (l\<lparr>cold_dir := d\<rparr>) = (clean_retention now l)\<lparr>cold_dir := d\<rparr>"
  by (simp add: clean_retention_def set_local_def Let_def split: option.split)

lemma recompute_cold: "recompute_high_watermark (l\<lparr>cold_dir := d\<rparr>) = (recompute_high_watermark l)\<lparr>cold_dir := d\<rparr>"
  by (simp add: recompute_high_watermark_def Let_def)

lemma roll_over_uncopied: "roll_over now (uncopied l) = roll_over now l"
  by (simp add: roll_over_def Let_def) (simp add: uncopied_def)

lemma roll_over_other: "roll_over now l \<noteq> l"
proof
  assume "roll_over now l = l"
  then have "segments (roll_over now l) = segments l" by simp
  then show False by (simp add: roll_over_def Let_def)
qed

lemma write_record_cold: "write_record now m (l\<lparr>cold_dir := d\<rparr>) = (write_record now m l)\<lparr>cold_dir := d\<rparr>"
  by (simp add: write_record_def active_file_def Let_def)

lemma append_log_uncopied:
  assumes "segments l \<noteq> []"
  shows "fst (append_log now m l) = fst (append_log now m (uncopied l))" (is ?fst)
    and "append_log now m l = append_log now m (uncopied l) \<or>
      uncopied (snd (append_log now m l)) = snd (append_log now m (uncopied l))"
proof -
  have same: "make_room now m (uncopied l) = (if make_room now m l = l then uncopied l else make_room now m l)"
    using roll_over_other [of now l] by (simp add: make_room_def roll_over_uncopied Let_def)
  show ?fst by (simp add: append_log_make_room same)
  show "append_log now m l = append_log now m (uncopied l) \<or>
      uncopied (snd (append_log now m l)) = snd (append_log now m (uncopied l))"
  proof (cases "make_room now m l = l")
    case True
    have "last (segments (clean_retention now (write_record now m l))) = last (segments l)"
      using assms by (subst clean_retention_last) (simp_all add: write_record_def Let_def)
    moreover have "cold_dir (clean_retention now (write_record now m l)) = cold_dir l"
      by (simp add: clean_retention_def write_record_def set_local_def Let_def split: option.split)
    moreover have "make_room now m (uncopied l) = uncopied l" using True same by simp
    ultimately show ?thesis
      unfolding append_log_make_room True by (simp add: uncopied_def write_record_cold clean_retention_cold recompute_cold)
  qed (simp add: append_log_make_room same)
qed

lemma keeps_append:
  assumes k: "keeps l ms" and fits: "fits (ms @ [m])"
  shows "fst (append_log now m l) = word_of_nat (length ms)" "keeps (snd (append_log now m l)) (ms @ [m])"
proof -
  have h: "holds (uncopied l) ms" using k by (simp add: keeps_def)
  then have ne: "segments l \<noteq> []" by (auto simp: holds_def log_ok_def)
  have h': "holds (snd (append_log now m (uncopied l))) (ms @ [m])" using plog.append_represents [OF h fits] .
  show "fst (append_log now m l) = word_of_nat (length ms)"
    using append_log_uncopied(1) [OF ne] plog.append_offset [OF h fits] by simp
  show "keeps (snd (append_log now m l)) (ms @ [m])"
    using append_log_uncopied(2) [OF ne, of now m] h' holds_keeps [OF h'] by (auto simp: keeps_def)
qed

interpretation klog: message_log keeps append_log read_bytes
  by unfold_locales (simp_all add: keeps_append keeps_read)

section \<open>Histories with failures\<close>

datatype io_op = AppendIo "io_fault option" int "byte list" | FineOp log_op

text \<open>A step of the log together with the messages acknowledged so far.\<close>

fun exec_io :: "io_op \<Rightarrow> PartitionLog \<times> byte list list \<Rightarrow> PartitionLog \<times> byte list list" where
  "exec_io (AppendIo fault now m) (l, ms) =
     (case append_io fault now m l of (res, l') \<Rightarrow> (l', if res = None then ms else ms @ [m]))"
| "exec_io (FineOp opn) (l, ms) = (exec_op opn l, ms @ appended [opn])"

fun rolls_over_only :: "io_op \<Rightarrow> bool" where
  "rolls_over_only (AppendIo (Some (CopyLog j)) now m) = True"
| "rolls_over_only (AppendIo (Some (CopyIdx j)) now m) = True"
| "rolls_over_only (AppendIo (Some OpenLog) now m) = True"
| "rolls_over_only (AppendIo (Some fault) now m) = False"
| "rolls_over_only (AppendIo None now m) = True"
| "rolls_over_only (FineOp opn) = True"

lemma failed_roll_over:
  assumes "rolls_over_only (AppendIo fault now m)" "roll_over_io fault now l = (False, l')"
  shows "uncopied l' = uncopied l"
  using assms by (cases "(AppendIo fault now m)" rule: rolls_over_only.cases) (auto simp: roll_over_io_def Let_def)

lemma append_io_cases:
  assumes "rolls_over_only (AppendIo fault now m)"
  shows "append_io fault now m l = apfst Some (append_log now m l) \<or>
    (\<exists>l'. append_io fault now m l = (None, l') \<and> uncopied l' = uncopied l)"
proof -
  have tail: "(case fault of Some (WriteData j) \<Rightarrow> x j | Some (WriteIdx i) \<Rightarrow> y i | _ \<Rightarrow> z) = z" for x y z
    using assms by (cases "(AppendIo fault now m)" rule: rolls_over_only.cases) auto
  have "roll_over_io fault now l = (True, roll_over now l) \<or> (\<exists>l'. roll_over_io fault now l = (False, l') \<and> uncopied l' = uncopied l)"
    using failed_roll_over [OF assms, of l] assms
    by (cases "(AppendIo fault now m)" rule: rolls_over_only.cases) (auto simp: roll_over_io_def Let_def)
  then show ?thesis
    by (auto simp: append_io_def append_log_def tail Let_def split: prod.split)
qed

lemma keeps_exec_op:
  assumes k: "keeps l ms" and fits: "fits (ms @ appended [opn])"
  shows "keeps (exec_op opn l) (ms @ appended [opn])"
proof (cases opn)
  case (AppendOp now m)
  then show ?thesis using keeps_append(2) [OF k] fits by simp
next
  case (FollowerOp replica off)
  have "uncopied (update_follower_offset replica off l) = update_follower_offset replica off (uncopied l)"
    by (simp add: update_follower_offset_def uncopied_def recompute_high_watermark_def Let_def)
  then show ?thesis using exec_op_holds [of "uncopied l" ms opn] k fits FollowerOp by (simp add: keeps_def)
next
  case (AssignOp ids)
  have "uncopied (assign_replicas ids l) = assign_replicas ids (uncopied l)"
    by (simp add: assign_replicas_def uncopied_def recompute_high_watermark_def Let_def)
  then show ?thesis using exec_op_holds [of "uncopied l" ms opn] k fits AssignOp by (simp add: keeps_def)
next
  case (RestartOp now)
  obtain bs r where ok: "log_ok bs r (uncopied l)" "concat bs = ms" using k by (auto simp: keeps_def holds_def)
  have "last (segments (restart now l)) = last (segments l)"
    using log_okD(5) [OF open_log_ok [OF ok(1)]] log_okD(5) [OF ok(1)] by (simp add: restart_def open_log_def Let_def)
  then have "uncopied (restart now l) = restart now (uncopied l)"
    by (simp add: restart_def open_log_def uncopied_def recompute_high_watermark_def Let_def)
  then show ?thesis using exec_op_holds [of "uncopied l" ms opn] k fits RestartOp by (simp add: keeps_def)
qed

lemma keeps_exec_io:
  assumes k: "keeps l ms" and x: "exec_io opn (l, ms) = (l', ms')" "rolls_over_only opn" and fits: "fits ms'"
  shows "keeps l' ms'"
proof (cases opn)
  case (FineOp f)
  then show ?thesis using keeps_exec_op [OF k] x(1) fits by auto
next
  case (AppendIo fault now m)
  then consider "append_io fault now m l = apfst Some (append_log now m l)"
    | l1 where "append_io fault now m l = (None, l1)" "uncopied l1 = uncopied l"
    using append_io_cases x(2) by blast
  then show ?thesis
  proof cases
    case 1
    then have "l' = snd (append_log now m l)" "ms' = ms @ [m]" using x(1) AppendIo by (cases "append_log now m l"; simp)+
    then show ?thesis using keeps_append(2) [OF k] fits by simp
  next
    case 2
    then show ?thesis using x(1) AppendIo k by (auto simp: keeps_def)
  qed
qed

lemma exec_io_grows: "\<exists>ns. snd (exec_io opn s) = snd s @ ns"
  by (cases opn; cases s) (auto split: prod.split)

lemma fold_exec_io_grows: "\<exists>ns. snd (fold exec_io ops s) = snd s @ ns"
proof (induction ops arbitrary: s)
  case (Cons opn ops)
  obtain ns where "snd (fold exec_io ops (exec_io opn s)) = snd (exec_io opn s) @ ns" using Cons by blast
  then show ?case using exec_io_grows [of opn s] by auto
qed simp

lemma keeps_fold_exec_io:
  assumes "keeps l ms" "\<forall>opn \<in> set ops. rolls_over_only opn" "fold exec_io ops (l, ms) = (l', ms')" "fits ms'"
  shows "keeps l' ms'"
  using assms
proof (induction ops arbitrary: l ms)
  case (Cons opn ops)
  obtain l1 ms1 where s: "exec_io opn (l, ms) = (l1, ms1)" by fastforce
  have "\<exists>ns. ms' = ms1 @ ns" using fold_exec_io_grows [of ops "(l1, ms1)"] Cons.prems(3) s by simp
  then have "fits ms1" using Cons.prems(4) fits_prefix by blast
  then have "keeps l1 ms1" using keeps_exec_io [OF Cons.prems(1) s] Cons.prems(2) by simp
  then show ?case using Cons.IH Cons.prems(2-4) s by simp
qed simp

section \<open>A produce request that fails\<close>

text \<open>\<open>log_guard.append(payload)?\<close>: the connection ends with the error of the operating system, without a response.\<close>

definition serve_produce_io ::
  "error \<Rightarrow> io_fault option \<Rightarrow> int \<Rightarrow> string \<Rightarrow> u32 \<Rightarrow> byte list \<Rightarrow> LogManager \<Rightarrow> reply \<times> LogManager"
where
  "serve_produce_io err fault now topic part payload lm =
     (let (l, lm) = get_partition now (topic, part) lm;
          (res, l) = append_io fault now payload l
      in (case res of Some off \<Rightarrow> produce_reply off | None \<Rightarrow> ([], Some err), put_partition (topic, part) l lm))"

lemma serve_produce_io_None: "serve_produce_io err None now topic part payload lm = serve_produce now topic part payload lm"
  by (simp add: serve_produce_io_def serve_produce_def append_io_None Let_def split: prod.split)

text \<open>
  A request that fails in a roll-over is not acknowledged, and the log goes on to represent the same messages.
\<close>

lemma serve_produce_io_failed:
  assumes "rolls_over_only (AppendIo fault now payload)"
    and "serve_produce_io err fault now topic part payload lm = (([], Some err), lm')"
    and "keeps (current_log now (topic, part) lm) ms"
  shows "keeps (current_log now' (topic, part) lm') ms"
proof -
  obtain l lm1 where g: "get_partition now (topic, part) lm = (l, lm1)" by fastforce
  obtain res l' where a: "append_io fault now payload l = (res, l')" by fastforce
  have "res = None" and lm': "lm' = put_partition (topic, part) l' lm1"
    using assms(2) by (auto simp: serve_produce_io_def g a produce_reply_def split: option.splits)
  then have "uncopied l' = uncopied l" using append_io_cases [OF assms(1), of l] a by (cases "append_log now payload l") auto
  moreover have "l = current_log now (topic, part) lm" by (simp add: current_log_def g)
  ultimately show ?thesis using assms(3) by (simp add: lm' keeps_def)
qed

section \<open>Properties\<close>

text \<open>
  C17: a failed roll-over is harmless.  In any history of appends, follower reports, replica assignments and
  restarts, in which appends may fail because the copy to cold storage stops anywhere or the new segment's log
  file cannot be created, the log holds exactly the acknowledged messages: they are read back under their
  offsets, and the next message gets the next offset.
\<close>

theorem failed_roll_over_harmless:
  assumes "\<forall>opn \<in> set ops. rolls_over_only opn"
    and "fold exec_io ops (fresh_log now0 bid max_seg max_size max_age, []) = (l, ms)"
    and "fits (ms @ [m])" "\<forall>m' \<in> set ms. length m' < 2 ^ 32"
  shows "read_bytes off n l = Inr (message_at ms off n) \<and> fst (append_log now m l) = word_of_nat (length ms)"
proof -
  have "holds (fresh_log now0 bid max_seg max_size max_age) []" unfolding fresh_log_def by (rule holds_empty)
  then have "keeps l ms"
    using keeps_fold_exec_io [OF holds_keeps assms(1,2)] assms(3) fits_prefix by blast
  then show ?thesis using klog.read_represents klog.append_offset assms(3,4) by blast
qed

text \<open>A failed write, without a restart: later appends go on after the torn bytes.\<close>

lemma failed_write:
  fixes ops now0 bid max_seg max_size max_age
  defines "l \<equiv> fold exec_op ops (fresh_log now0 bid max_seg max_size max_age)" and "ms \<equiv> appended ops"
  assumes "fits (ms @ [data])" "sf_idx (active_file (make_room now data l)) \<noteq> []"
  shows "fst (append_io (Some (WriteData j)) now data l) = None"
    and "holds (snd (append_io (Some (WriteData j)) now data l)) (butlast ms @ [last ms @ take j data])"
proof -
  let ?l1 = "make_room now data l"
  show "fst (append_io (Some (WriteData j)) now data l) = None" by (simp add: append_io_def roll_over_io_def Let_def)
  obtain bs r where "log_ok bs r l" "concat bs = ms"
    using history_blocks concat_block_history fits_prefix [OF assms(3)] unfolding l_def ms_def by blast
  then obtain bs where bs: "log_ok bs r ?l1" "concat bs = ms" using make_room_ok by metis
  have ne: "last bs \<noteq> []" using active_file_encodes(2) [OF bs(1)] assms(4) by (auto simp: encodes_def sf_idx_Some)
  then have "ms \<noteq> []" using bs(2) log_okD(3) [OF bs(1)] by (auto dest: last_in_set)
  then have "fits (butlast ms @ [last ms @ take j data])"
    using assms(3) by (cases ms rule: rev_cases) (auto simp: fits_def)
  then show "holds (snd (append_io (Some (WriteData j)) now data l)) (butlast ms @ [last ms @ take j data])"
    using torn_data_ok [OF bs(1) ne, of j data now] unfolding append_io_crash crash_append_def holds_def bs(2) by metis
qed

section \<open>Runs\<close>

text \<open>
  Segments of at most 4 bytes.  A message of three bytes, then one of two bytes whose roll-over fails after one
  byte of the copy, and succeeds when it is sent again.
\<close>

definition retried :: "io_op list" where
  "retried = [FineOp (AppendOp 0 [1, 2, 3]), AppendIo (Some (CopyLog 1)) 0 [4, 5], AppendIo None 0 [4, 5]]"

lemmas run_defs = append_io_def roll_over_io_def append_log_def fresh_log_def open_log_def clean_retention_def set_cold_def
  write_record_def active_file_def open_create_def empty_file_def migrate_def base_offsets_def roll_over_def
  recompute_high_watermark_def last_indexed_def make_room_def

lemma retried_acked: "snd (fold exec_io retried (fresh_log 0 1 4 None None, [])) = [[1, 2, 3], [4, 5]]"
  by (simp add: retried_def run_defs Let_def)

theorem failed_roll_over_harmless_witness:
  "read_bytes 1 65536 (fst (fold exec_io retried (fresh_log 0 1 4 None None, []))) = Inr (Some [4, 5])"
  using failed_roll_over_harmless [of retried 0 1 4 None None "fst (fold exec_io retried (fresh_log 0 1 4 None None, []))"
      "[[1, 2, 3], [4, 5]]" "[]" 1 65536] retried_acked
  by (simp add: retried_def fits_def message_at_def prod_eq_iff)

end
