(* ===== verification/Torn_Segments.thy ===== *)
theory Torn_Segments
  imports Io_Errors
begin

text \<open>
  Two ways in which an interrupted append loses a message that is acknowledged later: bytes without an index
  entry at the start of a segment, and a segment whose index file was never created.
\<close>

section \<open>Torn segments\<close>

text \<open>
  Bytes in a segment without an index entry.  A message that does not fit makes the log roll over, and as
  no offset has been given out the new segment has the base offset of the old one: the same file is
  then listed twice.
\<close>

definition torn_segment :: "u64 list \<Rightarrow> u64 \<Rightarrow> byte list \<Rightarrow> PartitionLog \<Rightarrow> bool" where
  "torn_segment xs b junk l \<longleftrightarrow> segments l = xs @ [b] \<and> b \<notin> set xs \<and> next_offset l = b \<and> junk \<noteq> [] \<and>
     (\<exists>t. local_dir l b = Some \<lparr>sf_log = junk, sf_index = Some [], sf_mtime = t\<rparr>)"

lemma retention_removes_double:
  assumes "b \<notin> set xs" "max_size < 2 * file_size d b"
  shows "\<exists>d'. retention_size_loop max_size (xs @ [b, b]) d = ([b], d') \<and> d' b = None"
  using assms
proof (induction xs arbitrary: d)
  case (Cons x xs)
  have "retention_size_loop max_size ((x # xs) @ [b, b]) d = retention_size_loop max_size (xs @ [b, b]) (d(x := None))"
    using Cons.prems(2) by (cases xs) auto
  moreover have "file_size (d(x := None)) b = file_size d b" using Cons.prems(1) by (simp add: file_size_def)
  ultimately show ?case using Cons by simp
qed simp

lemma torn_segment_append:
  assumes torn: "torn_segment xs b junk l"
    and big: "length junk + length m > unat (max_segment_size l)"
    and limit: "max_retention_size l = Some max_size" "unat max_size < 2 * (length junk + length m + 16)"
  shows "fst (append_log now m l) = b" "segments (snd (append_log now m l)) = [b]"
    "local_dir (snd (append_log now m l)) b = None"
proof -
  obtain t where f: "local_dir l b = Some \<lparr>sf_log = junk, sf_index = Some [], sf_mtime = t\<rparr>" and l: "segments l = xs @ [b]"
      "b \<notin> set xs" "next_offset l = b" "junk \<noteq> []"
    using torn by (auto simp: torn_segment_def)
  have act: "active_file l = \<lparr>sf_log = junk, sf_index = Some [], sf_mtime = t\<rparr>" by (simp add: active_file_def open_create_def l f)
  define l1 where "l1 = write_record now m (roll_over now l)"
  have room: "make_room now m l = roll_over now l" using big l(4) by (simp add: make_room_def act)
  have seg: "segments l1 = xs @ [b, b]" by (simp add: l1_def write_record_def roll_over_def l Let_def)
  have "active_file (roll_over now l) = \<lparr>sf_log = junk, sf_index = Some [], sf_mtime = t\<rparr>"
    by (simp add: active_file_def roll_over_def open_create_def l f Let_def)
  then have size: "file_size (local_dir l1) b = length junk + length m + 16"
    by (simp add: l1_def write_record_def roll_over_def l Let_def file_size_def)
  have lim: "max_retention_size l1 = Some max_size" using limit(1) by (simp add: l1_def write_record_def roll_over_def Let_def)
  obtain d' where d': "retention_size_loop (unat max_size) (segments l1) (local_dir l1) = ([b], d')" "d' b = None"
    using retention_removes_double [OF l(2), of "unat max_size" "local_dir l1"] limit(2) by (auto simp: seg size)
  have "segments (clean_retention now l1) = [b]" "local_dir (clean_retention now l1) b = None"
    using d' by (simp_all add: clean_retention_def lim set_local_def Let_def split: option.split)
  then show "fst (append_log now m l) = b" "segments (snd (append_log now m l)) = [b]"
    "local_dir (snd (append_log now m l)) b = None"
    by (simp_all add: append_log_make_room room l1_def [symmetric]) (simp add: roll_over_def l Let_def)
qed

lemma torn_segment_lost:
  assumes "torn_segment xs b junk l" "length junk + length m > unat (max_segment_size l)"
    and "max_retention_size l = Some max_size" "unat max_size < 2 * (length junk + length m + 16)"
  shows "read_from_offset b n (snd (append_log now m l)) = Inl ''No such file or directory''"
  using torn_segment_append [OF assms, of now]
  by (simp add: read_from_offset_def find_segment_def segment_file_def Let_def search_last.simps)

section \<open>Orphaned segments\<close>

text \<open>
  A roll-over that created the new log file and failed to create the new index file.  The segment is not
  listed until the next restart finds its file.
\<close>

lemma find_segment_local:
  assumes "find_segment off l = Some (Local, b)" "segments l' = segments l"
  shows "find_segment off l' = Some (Local, b)"
proof -
  define seg where "seg = (if segments l \<noteq> [] \<and> off \<ge> segments l ! 0
    then search_last (\<lambda>mid. segments l ! mid \<le> off) (\<lambda>mid. segments l ! mid) 0 (length (segments l) - 1) None else None)"
  have "seg = Some b" using assms(1) unfolding find_segment_def Let_def seg_def [symmetric] by (auto split: option.splits)
  then show ?thesis unfolding find_segment_def Let_def assms(2) seg_def [symmetric] by simp
qed

lemma orphan_dir:
  assumes ok: "log_ok bs r l" and ne: "last bs \<noteq> []"
  shows "base_offsets (local_dir (roll_over now l)) = segments l @ [next_offset l]"
    "local_dir (roll_over now l) (next_offset l) = Some (empty_file now)"
    "find_segment (next_offset l) (roll_over now l) = Some (Local, next_offset l)"
    "last (segments l) \<noteq> next_offset l"
proof -
  let ?bs = "bs @ [[]]"
  note ok' = roll_over_ok [OF ok ne, of now] and fresh = next_offset_fresh [OF ok ne] and b = next_offset_base [OF ok]
  note D = log_okD [OF ok'] and D0 = log_okD [OF ok]
  have seg: "segments (roll_over now l) = segments l @ [next_offset l]" by (simp add: roll_over_def Let_def)
  then show "base_offsets (local_dir (roll_over now l)) = segments l @ [next_offset l]"
    using D(5,6) sorted_list_of_bases [OF D(1) order_refl, of r] by (simp add: base_offsets_def holds_dir_def)
  show "local_dir (roll_over now l) (next_offset l) = Some (empty_file now)"
    using fresh by (auto simp: roll_over_def open_create_def Let_def split: option.split)
  have "start ?bs i \<le> length (concat bs) \<longleftrightarrow> i \<le> length bs" if "i < length ?bs" for i
    using start_le [of ?bs i] that by simp
  then have "find_segment (word_of_nat (length (concat bs))) (roll_over now l) = Some (Local, base ?bs (length bs))"
    using find_segment_block [OF ok', of "length (concat bs)" "length bs"] D0(1,2) by (simp add: blocks_ok_def fits_def)
  then show "find_segment (next_offset l) (roll_over now l) = Some (Local, next_offset l)" using D0(4) b by simp
  show "last (segments l) \<noteq> next_offset l"
    using active_file_encodes(1) [OF ok] last_segment [OF ok] fresh by auto
qed

section \<open>Limits\<close>

lemma limits_frame [simp]:
  "max_retention_size (recompute_high_watermark l) = max_retention_size l"
  "max_retention_age (recompute_high_watermark l) = max_retention_age l"
  "max_retention_size (clean_retention now l) = max_retention_size l"
  "max_segment_size (clean_retention now l) = max_segment_size l"
  "max_retention_age (clean_retention now l) = max_retention_age l"
  "max_retention_size (write_record now m l) = max_retention_size l"
  "max_segment_size (write_record now m l) = max_segment_size l"
  "max_retention_age (write_record now m l) = max_retention_age l"
  "max_retention_size (roll_over now l) = max_retention_size l"
  "max_segment_size (roll_over now l) = max_segment_size l"
  "max_retention_age (roll_over now l) = max_retention_age l"
  by (simp_all add: recompute_high_watermark_def clean_retention_def set_local_def write_record_def roll_over_def Let_def split: option.split)

lemma history_limits:
  "max_retention_size (fold exec_op ops l) = max_retention_size l" "max_segment_size (fold exec_op ops l) = max_segment_size l"
  "max_retention_age (fold exec_op ops l) = max_retention_age l"
proof -
  have "max_retention_size (exec_op opn l) = max_retention_size l \<and> max_segment_size (exec_op opn l) = max_segment_size l \<and>
      max_retention_age (exec_op opn l) = max_retention_age l" for opn l
    by (cases opn) (simp_all add: append_log_def restart_def open_log_def update_follower_offset_def assign_replicas_def Let_def)
  then show "max_retention_size (fold exec_op ops l) = max_retention_size l" "max_segment_size (fold exec_op ops l) = max_segment_size l"
    "max_retention_age (fold exec_op ops l) = max_retention_age l"
    by (induction ops arbitrary: l) simp_all
qed

lemma fresh_limits:
  "max_retention_size (fresh_log now bid max_seg max_size max_age) = max_size"
  "max_segment_size (fresh_log now bid max_seg max_size max_age) = max_seg"
  "max_retention_age (fresh_log now bid max_seg max_size max_age) = max_age"
  by (simp_all add: fresh_log_def open_log_def recompute_high_watermark_def Let_def)

lemma crash_torn_segment:
  assumes ok: "log_ok bs r l" and empty: "sf_idx (active_file l) = []" and j: "take j data \<noteq> []"
  shows "\<exists>xs. torn_segment xs (next_offset l) (take j data) (restart t (torn_record now j 0 data l))"
proof -
  note D = log_okD [OF ok]
  let ?b = "last (segments l)"
  let ?f = "\<lparr>sf_log = take j data, sf_index = Some [], sf_mtime = now\<rparr>"
  have enc: "encodes (start bs (length bs - 1)) (last bs) (active_file l)" by (rule active_file_encodes(2) [OF ok])
  then have lb: "last bs = []" using empty length_entries [of "start bs (length bs - 1)" "last bs"] by (auto simp: encodes_def sf_idx_Some)
  then have log: "sf_log (active_file l) = []" using enc by (simp add: encodes_def)
  have b: "next_offset l = ?b" using D(3,4) lb last_segment [OF ok] length_concat_last [OF D(3)] by (simp add: base_def)
  have dir: "local_dir (torn_record now j 0 data l) = (local_dir l)(?b \<mapsto> ?f)"
    using j by (simp add: torn_record_def Let_def log empty)
  have off: "next_offset (restart t (torn_record now j 0 data l)) = next_offset l"
    using restart_active(1) [OF ok dir, of t] by (simp add: last_indexed_def b)
  have "segments (restart t (torn_record now j 0 data l)) = segments l \<and>
      local_dir (restart t (torn_record now j 0 data l)) ?b = Some ?f"
    using restart_active(2,3) [OF ok dir, of t] dir by simp
  moreover have "segments l \<noteq> []" using D(2,3,5) by simp
  then have xs: "segments l = butlast (segments l) @ [?b]" by simp
  moreover have "distinct (segments l)" using sorted_bases [OF D(1) order_refl, of r] D(5) by (simp add: strict_sorted_iff)
  then have "?b \<notin> set (butlast (segments l))" using xs by (metis distinct.simps(2) distinct1_rotate rotate1.simps(2))
  ultimately show ?thesis unfolding torn_segment_def using off b j by metis
qed

section \<open>Properties\<close>

text \<open>
  C29: a crash in the first record of a segment can lose a later message.  The bytes of the unfinished record
  stay in the segment; the next message that does not fit behind them makes the log roll over to the same file,
  which is then listed twice and counts twice for the retention limit.  If the limit is exceeded, the
  file is removed as the oldest one: the message has been acknowledged, and reading it fails.
\<close>

theorem crash_in_new_segment:
  fixes ops now0 bid max_seg max_size max_age t now j data
  defines "l \<equiv> fold exec_op ops (fresh_log now0 bid max_seg (Some max_size) max_age)"
  defines "l' \<equiv> restart t (crash_append now j 0 data l)"
  assumes "fits (appended ops)" "sf_idx (active_file (make_room now data l)) = []" "take j data \<noteq> []"
    and "length (take j data) + length m > unat max_seg" "unat max_size < 2 * (length (take j data) + length m + 16)"
  shows "fst (append_log now' m l') = word_of_nat (length (appended ops)) \<and>
    read_from_offset (fst (append_log now' m l')) n (snd (append_log now' m l')) = Inl ''No such file or directory''"
proof -
  let ?l1 = "make_room now data l"
  obtain bs r where "log_ok bs r l" "concat bs = appended ops"
    using history_blocks [OF assms(3)] concat_block_history unfolding l_def by blast
  then obtain bs where bs: "log_ok bs r ?l1" "concat bs = appended ops" using make_room_ok by metis
  obtain xs where torn: "torn_segment xs (next_offset ?l1) (take j data) l'"
    using crash_torn_segment [OF bs(1) assms(4,5)] unfolding l'_def crash_append_def by blast
  have lim: "max_retention_size l' = Some max_size" "max_segment_size l' = max_seg"
    by (simp_all add: l'_def restart_def open_log_def crash_append_def torn_record_def make_room_def roll_over_def
        recompute_high_watermark_def Let_def) (simp_all add: l_def history_limits fresh_limits)
  have "fst (append_log now' m l') = next_offset ?l1"
    "read_from_offset (next_offset ?l1) n (snd (append_log now' m l')) = Inl ''No such file or directory''"
    using torn_segment_append(1) [OF torn _ lim(1)] torn_segment_lost [OF torn _ lim(1)] assms(6,7) lim(2) by simp_all
  then show ?thesis using log_okD(4) [OF bs(1)] bs(2) by simp
qed

text \<open>
  C30: a roll-over that fails to create the index file hides later messages.  The new log file is there but not
  in use; a message that fits into the old segment is acknowledged under the offset after which that file is named.
  After a restart the empty file is the active segment: the message is not found, and its offset is given out
  again.
\<close>

theorem orphan_segment_hides:
  fixes ops now0 bid max_seg now data now' m
  defines "l \<equiv> fold exec_op ops (fresh_log now0 bid max_seg None None)"
  defines "l1 \<equiv> snd (append_io (Some OpenIdx) now data l)"
  defines "l2 \<equiv> snd (append_log now' m l1)"
  assumes "fits (appended ops)" "sf_log (active_file l) \<noteq> []"
    and "length (sf_log (active_file l)) + length data > unat max_seg"
    and "length (sf_log (active_file l)) + length m \<le> unat max_seg"
  shows "fst (append_io (Some OpenIdx) now data l) = None \<and> fst (append_log now' m l1) = word_of_nat (length (appended ops)) \<and>
    read_from_offset (word_of_nat (length (appended ops))) n (restart t l2) = Inr None \<and>
    next_offset (restart t l2) = word_of_nat (length (appended ops))"
proof -
  obtain bs r where ok: "log_ok bs r l" and ms: "concat bs = appended ops"
    using history_blocks [OF assms(4)] concat_block_history unfolding l_def by blast
  have ne: "last bs \<noteq> []" using active_file_encodes(2) [OF ok] assms(5) by (auto simp: encodes_def)
  note o = orphan_dir(1-3) [OF ok ne, of now] orphan_dir(4) [OF ok ne]
  let ?b = "next_offset l"
  have b: "?b = word_of_nat (length (appended ops))" using log_okD(4) [OF ok] ms by simp
  have max: "max_segment_size l = max_seg" "max_retention_size l = None" "max_retention_age l = None"
    by (simp_all add: l_def history_limits fresh_limits)
  have io: "append_io (Some OpenIdx) now data l = (None, l1)"
    using assms(5,6) max(1) by (simp add: l1_def append_io_def roll_over_io_def Let_def)
  let ?orphan = "\<lparr>sf_log = [], sf_index = None, sf_mtime = now\<rparr>"
  have "open_log_file now ?b (local_dir l) = ?orphan"
    using next_offset_fresh [OF ok ne] by (auto simp: open_log_file_def split: option.split)
  then have l1: "local_dir l1 = (local_dir l)(?b \<mapsto> ?orphan)" "segments l1 = segments l" "next_offset l1 = ?b"
      "max_segment_size l1 = max_seg" "max_retention_size l1 = None" "max_retention_age l1 = None"
    using assms(5,6) max by (simp_all add: l1_def append_io_def roll_over_io_def roll_over_def set_cold_def Let_def)
  have act: "active_file l1 = active_file l"
    using o(4) by (simp add: active_file_def open_create_def l1(1,2))
  then have room: "make_room now' m l1 = l1" using assms(7) l1(4) by (simp add: make_room_def)
  then have app: "append_log now' m l1 = (?b, recompute_high_watermark (write_record now' m l1))"
    using l1(3,5,6) by (simp add: append_log_make_room clean_retention_def write_record_def Let_def)
  then have "dom (local_dir l2) = dom (local_dir l1)" and kept: "local_dir l2 ?b = Some ?orphan"
    using o(2,4) active_file_encodes(1) [OF ok] last_segment [OF ok]
    by (auto simp: l2_def write_record_def l1(1,2) Let_def)
  then have "base_offsets (local_dir l2) = segments l @ [?b]" using o(1) by (simp add: base_offsets_def l1(1) roll_over_def Let_def)
  then have rs: "segments (restart t l2) = segments (roll_over now l)" "local_dir (restart t l2) ?b = Some (empty_file now)"
      "next_offset (restart t l2) = ?b"
    using kept by (simp_all add: restart_def open_log_def migrate_def open_create_def roll_over_def last_indexed_def
        empty_file_def Let_def)
  have "read_from_offset ?b n (restart t l2) = Inr None"
    using find_segment_local [OF o(3) rs(1)] rs(2)
    by (simp add: read_from_offset_def segment_file_def read_segment_def empty_file_def)
  then show ?thesis using io app rs(3) b by simp
qed

section \<open>Runs\<close>

text \<open>The process dies after one byte of the first record; four bytes do not fit behind it.\<close>

lemma fresh_active: "sf_idx (active_file (make_room 0 [7, 8] (fresh_log 0 1 4 (Some 10) None))) = []"
  by (simp add: run_defs Let_def)

theorem crash_in_new_segment_witness:
  "read_from_offset 0 65536 (snd (append_log 2 [1, 2, 3, 4] (restart 1 (crash_append 0 1 0 [7, 8] (fresh_log 0 1 4 (Some 10) None))))) =
     Inl ''No such file or directory''"
  using crash_in_new_segment [of "[]" 0 "[7, 8]" 0 1 4 10 None 1 "[1, 2, 3, 4]" 2 1 65536] fresh_active
  by (auto simp: fits_def)

text \<open>The index file of segment 1 cannot be created; the next message fits into segment 0.\<close>

lemma one_message_file: "sf_log (active_file (snd (append_log 0 [1, 2, 3] (fresh_log 0 1 4 None None)))) = [1, 2, 3]"
  by (simp add: run_defs Let_def)

theorem orphan_segment_hides_witness:
  "read_from_offset 1 65536 (restart 2 (snd (append_log 1 [9] (snd (append_io (Some OpenIdx) 0 [4, 5]
     (fold exec_op [AppendOp 0 [1, 2, 3]] (fresh_log 0 1 4 None None))))))) = Inr None"
  using orphan_segment_hides [of "[AppendOp 0 [1, 2, 3]]" 0 1 4 "[4, 5]" "[9]" 0 1 65536 2] one_message_file
  by (simp add: fits_def)

end
