(* ===== verification/Replica_Group.thy ===== *)
theory Replica_Group
  imports Commit Broker_Control
begin

text \<open>
  The replicas of a partition while one broker leads it: clients produce to and fetch from the
  leader, every follower runs its replication tasks against the leader, and the leader acts on
  heartbeat responses, all interleaved.  Messages are those a follower can copy whole (1 to 65536
  bytes), and no follower has two tasks at once; without either, replicas diverge
  (\<open>Replication\<close>).
\<close>

section \<open>The steps\<close>

record replica_group =
  rg_logs :: "u32 \<Rightarrow> LogManager"
  rg_tasks :: "u32 \<Rightarrow> task list"

definition good_message :: "byte list \<Rightarrow> bool" where
  "good_message m \<longleftrightarrow> m \<noteq> [] \<and> length m \<le> 65536"

definition set_log :: "u32 \<Rightarrow> LogManager \<Rightarrow> replica_group \<Rightarrow> replica_group" where
  "set_log b lm g = g\<lparr>rg_logs := (rg_logs g)(b := lm)\<rparr>"

definition set_task :: "u32 \<Rightarrow> nat \<Rightarrow> task \<Rightarrow> replica_group \<Rightarrow> replica_group" where
  "set_task b i t g = g\<lparr>rg_tasks := (rg_tasks g)(b := (rg_tasks g b)[i := t])\<rparr>"

text \<open>
  \<open>idle w\<close>: a new connection to the leader.  A heartbeat response repeats the replica set; the
  log of the partition was opened by the leader, so it has the leader's identifier.
\<close>

inductive group_step ::
  "sendfile \<Rightarrow> (nat \<Rightarrow> int) \<Rightarrow> string \<Rightarrow> u32 \<Rightarrow> u32 \<Rightarrow> u32 list \<Rightarrow> replica_group \<Rightarrow> replica_group \<Rightarrow> bool"
  for sf clock topic part leader ids
where
  produce: "idle w \<Longrightarrow> bw_logs w = rg_logs g leader \<Longrightarrow> good_message (bytes_of msg) \<Longrightarrow>
    has_room (rg_logs g leader) (topic, part) (bytes_of msg) \<Longrightarrow>
    sendProduce (broker_net sf clock) topic part msg w = (res, w') \<Longrightarrow>
    group_step sf clock topic part leader ids g (set_log leader (bw_logs w') g)"
| fetch: "idle w \<Longrightarrow> bw_logs w = rg_logs g leader \<Longrightarrow>
    sendFetch (broker_net sf clock) topic part off w = (res, w') \<Longrightarrow>
    group_step sf clock topic part leader ids g (set_log leader (bw_logs w') g)"
| heartbeat: "partitions (rg_logs g leader) (topic, part) = Some l \<Longrightarrow> broker_id l = leader \<Longrightarrow>
    (pa_Topic a, pa_Partition a) = (topic, part) \<Longrightarrow> pa_ReplicaIds a = ids \<Longrightarrow>
    group_step sf clock topic part leader ids g (set_log leader (reconcile_leader now a (rg_logs g leader)) g)"
| spawn: "f \<in> set ids - {leader} \<Longrightarrow>
    group_step sf clock topic part leader ids g
      (g\<lparr>rg_tasks := (rg_tasks g)(f := rg_tasks g f @ [Started])\<rparr>)"
| ask: "f \<in> set ids - {leader} \<Longrightarrow> i < length (rg_tasks g f) \<Longrightarrow> rg_tasks g f ! i = Started \<Longrightarrow>
    get_partition now (topic, part) (rg_logs g f) = (l, lm) \<Longrightarrow>
    group_step sf clock topic part leader ids g (set_log f lm (set_task f i (Asked (next_offset l)) g))"
| answer: "f \<in> set ids - {leader} \<Longrightarrow> i < length (rg_tasks g f) \<Longrightarrow> rg_tasks g f ! i = Asked off \<Longrightarrow>
    idle w \<Longrightarrow> bw_logs w = rg_logs g leader \<Longrightarrow>
    replica_fetch (broker_net sf clock) f topic part off w = (res, w') \<Longrightarrow>
    group_step sf clock topic part leader ids g (set_log leader (bw_logs w')
      (set_task f i (case res of Inr (Some m) \<Rightarrow> Received m | _ \<Rightarrow> Ended) g))"
| store: "f \<in> set ids - {leader} \<Longrightarrow> i < length (rg_tasks g f) \<Longrightarrow> rg_tasks g f ! i = Received m \<Longrightarrow>
    group_step sf clock topic part leader ids g
      (set_log f (append_replica now (topic, part) m (rg_logs g f)) (set_task f i Ended g))"

definition serial :: "replica_group \<Rightarrow> bool" where
  "serial g \<longleftrightarrow> (\<forall>f. running (rg_tasks g f) \<le> 1)"

section \<open>The invariant\<close>

text \<open>A follower has the first \<open>k\<close> messages of the leader, and the leader knows of no more than that.\<close>

definition follower_ok :: "byte list list \<Rightarrow> partition_key \<Rightarrow> u64 \<Rightarrow> LogManager \<Rightarrow> task list \<Rightarrow> nat \<Rightarrow> bool" where
  "follower_ok ms key p lm ts k \<longleftrightarrow> k \<le> length ms \<and> stores lm key (take k ms) \<and> unat p \<le> k \<and>
     (\<forall>t \<in> set ts. task_ok ms k t)"

text \<open>\<open>F\<close>: the followers; \<open>K\<close>: those that the leader knows.\<close>

definition group_ok :: "partition_key \<Rightarrow> u32 \<Rightarrow> u32 set \<Rightarrow> u32 set \<Rightarrow> replica_group \<Rightarrow> bool" where
  "group_ok key leader F K g \<longleftrightarrow> serial g \<and>
     (\<exists>ms. leading (rg_logs g leader) key ms K \<and> (\<forall>m \<in> set ms. good_message m) \<and>
        (\<forall>f \<in> F. \<exists>k. follower_ok ms key (progress (rg_logs g leader) key f) (rg_logs g f) (rg_tasks g f) k))"

lemma leading_stores: "leading lm key ms F \<Longrightarrow> stores lm key ms"
  by (auto simp: leading_def stores_def current_log_def get_partition_def)

lemma leading_fits: "leading lm key ms F \<Longrightarrow> fits ms"
  by (auto simp: leading_def intro: holds_fits)

lemma follower_ok_append:
  "follower_ok ms key p lm ts k \<Longrightarrow> follower_ok (ms @ [m]) key p lm ts k"
  by (simp add: follower_ok_def) (fastforce simp: task_ok_def nth_append split: task.splits)

lemma group_okI:
  assumes "serial g'" "leading lm key ms K" "\<forall>m \<in> set ms. good_message m" "rg_logs g' leader = lm"
    and "\<And>f. f \<in> F \<Longrightarrow> \<exists>k. follower_ok ms key (progress lm key f) (rg_logs g' f) (rg_tasks g' f) k"
  shows "group_ok key leader F K g'"
  using assms unfolding group_ok_def by blast

lemma set_log_simps [simp]:
  "rg_logs (set_log b lm g) = (rg_logs g)(b := lm)" "rg_tasks (set_log b lm g) = rg_tasks g"
  "rg_logs (set_task b i t g) = rg_logs g"
  "rg_tasks (set_task b i t g) = (rg_tasks g)(b := (rg_tasks g b)[i := t])"
  by (simp_all add: set_log_def set_task_def)

lemma reconcile_leader_leading:
  assumes "leading lm key ms K" "partitions lm key = Some l" "broker_id l = b" "set ids - {b} = F"
    and "(pa_Topic a, pa_Partition a) = key" "pa_ReplicaIds a = ids"
  shows "leading (reconcile_leader now a lm) key ms F"
    and "progress (reconcile_leader now a lm) key = progress lm key"
proof -
  have l: "holds l ms" using assms(1,2) by (auto simp: leading_def)
  have lm: "reconcile_leader now a lm = put_partition key (assign_replicas ids l) lm"
    using assms(2,5,6) by (auto simp: reconcile_leader_def get_partition_def)
  have "holds (assign_replicas ids l) ms" using exec_op_holds [of l ms "AssignOp ids"] l holds_fits by simp
  moreover have "hw_ok (assign_replicas ids l)" using exec_op_hw_ok [of "AssignOp ids" l] by simp
  moreover have "other_replicas (assign_replicas ids l) = F"
    "follower_progress (assign_replicas ids l) = follower_progress l"
    using assms(3,4) by (auto simp: assign_replicas_def other_replicas_def follower_progress_def fun_eq_iff)
  ultimately show "leading (reconcile_leader now a lm) key ms F"
    "progress (reconcile_leader now a lm) key = progress lm key"
    using assms(2) by (simp_all add: lm leading_def progress_def put_partition_def fun_eq_iff)
qed

section \<open>Every step keeps it\<close>

lemma good_messages:
  assumes "\<forall>m \<in> set ms. good_message m"
  shows "\<forall>m \<in> set ms. m \<noteq> [] \<and> length m \<le> 65536" "\<forall>m \<in> set ms. length m < 2 ^ 32"
  using assms by (fastforce simp: good_message_def)+

lemma update_tasks_ok:
  "follower_ok ms key p lm ts k \<Longrightarrow> task_ok ms k t \<Longrightarrow> follower_ok ms key p lm (ts[i := t]) k"
  using update_task_ok [of ts ms k t i] by (simp add: follower_ok_def)

lemma follower_task:
  "follower_ok ms key p lm ts k \<Longrightarrow> i < length ts \<Longrightarrow> task_ok ms k (ts ! i)"
  by (simp add: follower_ok_def)

lemma follower_ask:
  assumes "follower_ok ms key p lm ts k" "get_partition now key lm = (l, lm')"
  shows "follower_ok ms key p lm' (ts[i := Asked (next_offset l)]) k"
proof -
  have st: "stores lm key (take k ms)" "k \<le> length ms" using assms(1) by (auto simp: follower_ok_def)
  then have "next_offset l = word_of_nat k"
    using assms(2) holds_next_offset [of l "take k ms"] by (auto simp: stores_def current_log_def dest: spec [of _ now])
  moreover have "stores lm' key (take k ms)" using stores_get [OF st(1), of now key] assms(2) by simp
  moreover have "\<forall>t \<in> set (ts[i := Asked (word_of_nat k)]). task_ok ms k t"
    using assms(1) by (intro update_task_ok) (simp_all add: follower_ok_def)
  ultimately show ?thesis using assms(1) by (simp add: follower_ok_def)
qed

lemma follower_store:
  assumes "follower_ok ms key p lm ts k" "i < length ts" "ts ! i = Received m" "running ts \<le> 1" "fits ms"
  shows "follower_ok ms key p (append_replica now key m lm) (ts[i := Ended]) (Suc k)"
proof -
  have m: "k < length ms" "m = ms ! k" using follower_task [OF assms(1,2)] assms(3) by auto
  then have take: "take (Suc k) ms = take k ms @ [m]" by (simp add: take_Suc_conv_app_nth)
  have "fits (take k ms @ [m])" using fits_take [OF assms(5), of "Suc k"] by (simp only: take)
  then have "stores (append_replica now key m lm) key (take (Suc k) ms)"
    unfolding take using append_replica_stores assms(1) by (auto simp: follower_ok_def)
  moreover have "running (ts[i := Ended]) = 0" using running_end [OF assms(2)] assms(3,4) by simp
  then have "\<forall>t \<in> set (ts[i := Ended]). t = Ended" by (blast dest: running_0)
  then have "\<forall>t \<in> set (ts[i := Ended]). task_ok ms (Suc k) t" by auto
  ultimately show ?thesis using assms(1) m(1) by (auto simp: follower_ok_def)
qed

definition group_env :: "sendfile \<Rightarrow> string \<Rightarrow> bool" where
  "group_env sf topic \<longleftrightarrow> sendfile_ok sf \<and> valid_utf8 topic \<and> length topic < 65536"

lemma leader_step_ok:
  assumes ok: "group_ok key leader F K g" and "leader \<notin> F"
    and "\<And>ms. leading (rg_logs g leader) key ms K \<Longrightarrow> \<forall>m \<in> set ms. good_message m \<Longrightarrow>
      \<exists>ms'. leading lm key ms' K' \<and> (\<forall>m \<in> set ms'. good_message m) \<and> (ms' = ms \<or> (\<exists>m. ms' = ms @ [m])) \<and>
        progress lm key = progress (rg_logs g leader) key"
  shows "group_ok key leader F K' (set_log leader lm g)"
proof -
  obtain ms where ms: "leading (rg_logs g leader) key ms K" "\<forall>m \<in> set ms. good_message m"
      "\<forall>f \<in> F. \<exists>k. follower_ok ms key (progress (rg_logs g leader) key f) (rg_logs g f) (rg_tasks g f) k"
    and serial: "serial g" using ok by (auto simp: group_ok_def)
  obtain ms' where ms': "leading lm key ms' K'" "\<forall>m \<in> set ms'. good_message m" "ms' = ms \<or> (\<exists>m. ms' = ms @ [m])"
      "progress lm key = progress (rg_logs g leader) key"
    using assms(3) [OF ms(1,2)] by blast
  show ?thesis
  proof (rule group_okI [OF _ ms'(1,2)])
    fix f
    assume f: "f \<in> F"
    then obtain k where "follower_ok ms key (progress lm key f) (rg_logs g f) (rg_tasks g f) k"
      using ms(3) ms'(4) by auto
    then have "follower_ok ms' key (progress lm key f) (rg_logs g f) (rg_tasks g f) k"
      using ms'(3) by (elim disjE exE) (simp_all add: follower_ok_append)
    then show "\<exists>k. follower_ok ms' key (progress lm key f) (rg_logs (set_log leader lm g) f) (rg_tasks (set_log leader lm g) f) k"
      using f assms(2) by auto
  qed (use serial in \<open>simp_all add: serial_def\<close>)
qed

lemma follower_step_ok:
  assumes ok: "group_ok key leader F K g" and f: "f \<in> F" and "leader \<notin> F" and serial: "serial g'"
    and g': "rg_logs g' = (rg_logs g)(f := lm)" "rg_tasks g' = (rg_tasks g)(f := ts)"
    and step: "\<And>ms k p. fits ms \<Longrightarrow> \<forall>m \<in> set ms. good_message m \<Longrightarrow>
      follower_ok ms key p (rg_logs g f) (rg_tasks g f) k \<Longrightarrow> \<exists>k'. follower_ok ms key p lm ts k'"
  shows "group_ok key leader F K g'"
proof -
  obtain ms where ms: "leading (rg_logs g leader) key ms K" "\<forall>m \<in> set ms. good_message m"
      "\<forall>f \<in> F. \<exists>k. follower_ok ms key (progress (rg_logs g leader) key f) (rg_logs g f) (rg_tasks g f) k"
    using ok by (auto simp: group_ok_def)
  show ?thesis
  proof (rule group_okI [OF serial ms(1,2)])
    show "rg_logs g' leader = rg_logs g leader" using f assms(3) g'(1) by auto
    fix x
    assume "x \<in> F"
    then obtain k where k: "follower_ok ms key (progress (rg_logs g leader) key x) (rg_logs g x) (rg_tasks g x) k"
      using ms(3) by blast
    show "\<exists>k. follower_ok ms key (progress (rg_logs g leader) key x) (rg_logs g' x) (rg_tasks g' x) k"
    proof (cases "x = f")
      case True
      then show ?thesis using step [OF leading_fits [OF ms(1)] ms(2)] k g' by auto
    next
      case False
      then show ?thesis using k g' by auto
    qed
  qed
qed

lemma answer_step_ok:
  assumes env: "group_env sf topic" and ok: "group_ok (topic, part) leader F K g" and f: "f \<in> F" and "leader \<notin> F"
    and i: "i < length (rg_tasks g f)" "rg_tasks g f ! i = Asked off"
    and w: "idle w" "bw_logs w = rg_logs g leader"
    and run: "replica_fetch (broker_net sf clock) f topic part off w = (res, w')"
  shows "\<exists>t. (case res of Inr (Some m) \<Rightarrow> Received m | _ \<Rightarrow> Ended) = t \<and>
    (serial (set_log leader (bw_logs w') (set_task f i t g)) \<longrightarrow>
     group_ok (topic, part) leader F K (set_log leader (bw_logs w') (set_task f i t g)))"
proof -
  let ?key = "(topic, part)" and ?t = "case res of Inr (Some m) \<Rightarrow> Received m | _ \<Rightarrow> Ended"
  obtain ms where ms: "leading (rg_logs g leader) ?key ms K" "\<forall>m \<in> set ms. good_message m"
      "\<forall>f \<in> F. \<exists>k. follower_ok ms ?key (progress (rg_logs g leader) ?key f) (rg_logs g f) (rg_tasks g f) k"
    using ok by (auto simp: group_ok_def)
  have env': "valid_utf8 topic" "length topic < 65536" "sendfile_ok sf" using env by (auto simp: group_env_def)
  have "leading (bw_logs w) ?key ms K" using ms(1) w(2) by simp
  from replica_fetch_leading [OF w(1) this env' good_messages(2) [OF ms(2)], of clock f off]
  have r: "res = Inr (message_at ms off 65536)" "leading (bw_logs w') ?key ms K"
      "progress (bw_logs w') ?key = (progress (rg_logs g leader) ?key)(f := off)"
    using run w(2) by auto
  obtain k where k: "follower_ok ms ?key (progress (rg_logs g leader) ?key f) (rg_logs g f) (rg_tasks g f) k"
    using ms(3) f by blast
  have off: "off = word_of_nat k" using follower_task [OF k i(1)] i(2) by simp
  have kl: "k \<le> length ms" using k by (simp add: follower_ok_def)
  have "task_ok ms k ?t"
    using copied_message [OF good_messages(1) [OF ms(2)] leading_fits [OF ms(1)] kl] by (simp add: r(1) off)
  then have k': "follower_ok ms ?key off (rg_logs g f) ((rg_tasks g f)[i := ?t]) k"
    using update_tasks_ok [OF k] kl leading_fits [OF ms(1)]
    by (simp add: follower_ok_def off unat_word_of_nat_u64 fits_def)
  have "group_ok ?key leader F K (set_log leader (bw_logs w') (set_task f i ?t g))"
    if "serial (set_log leader (bw_logs w') (set_task f i ?t g))"
  proof (rule group_okI [OF that r(2) ms(2)])
    fix x
    assume x: "x \<in> F"
    then obtain j where j: "follower_ok ms ?key (progress (rg_logs g leader) ?key x) (rg_logs g x) (rg_tasks g x) j"
      using ms(3) by blast
    have "x \<noteq> leader" using x assms(4) by auto
    then show "\<exists>k. follower_ok ms ?key (progress (bw_logs w') ?key x)
        (rg_logs (set_log leader (bw_logs w') (set_task f i ?t g)) x)
        (rg_tasks (set_log leader (bw_logs w') (set_task f i ?t g)) x) k"
      using j k' by (cases "x = f") (auto simp: r(3))
  qed simp
  then show ?thesis by blast
qed

lemma produce_step_ok:
  assumes env: "group_env sf topic" and "leading lm (topic, part) ms F" "\<forall>m \<in> set ms. good_message m"
    and "idle w" "bw_logs w = lm" "good_message (bytes_of msg)" "has_room lm (topic, part) (bytes_of msg)"
    and "sendProduce (broker_net sf clock) topic part msg w = (res, w')"
  shows "leading (bw_logs w') (topic, part) (ms @ [bytes_of msg]) F"
    and "progress (bw_logs w') (topic, part) = progress lm (topic, part)"
proof -
  have fits: "fits (ms @ [bytes_of msg])"
    using assms(7) leading_stores [OF assms(2)] by (simp add: has_room_def)
  have len: "10 + length topic + length msg < 4294967296"
    using env assms(6) by (simp add: group_env_def good_message_def bytes_of_def)
  have "valid_utf8 topic" "length topic < 65536" using env by (auto simp: group_env_def)
  from sendProduce_leading [OF assms(4) _ this len fits, of part F sf clock] assms(2,5,8)
  show "leading (bw_logs w') (topic, part) (ms @ [bytes_of msg]) F"
    "progress (bw_logs w') (topic, part) = progress lm (topic, part)" by auto
qed

lemma fetch_step_ok:
  assumes env: "group_env sf topic" and "leading lm (topic, part) ms F" "\<forall>m \<in> set ms. good_message m"
    and "idle w" "bw_logs w = lm" "sendFetch (broker_net sf clock) topic part off w = (res, w')"
  shows "leading (bw_logs w') (topic, part) ms F"
    and "progress (bw_logs w') (topic, part) = progress lm (topic, part)"
proof -
  have "valid_utf8 topic" "length topic < 65536" "sendfile_ok sf" using env by (auto simp: group_env_def)
  from sendFetch_leading [OF assms(4) _ this good_messages(2) [OF assms(3)], of part F clock off] assms(2,5,6)
  show "leading (bw_logs w') (topic, part) ms F"
    "progress (bw_logs w') (topic, part) = progress lm (topic, part)" by auto
qed

lemma group_step_ok:
  assumes env: "group_env sf topic" and step: "group_step sf clock topic part leader ids g g'"
    and ok: "group_ok (topic, part) leader (set ids - {leader}) K g" and serial: "serial g'"
  shows "group_ok (topic, part) leader (set ids - {leader}) K g' \<or>
    group_ok (topic, part) leader (set ids - {leader}) (set ids - {leader}) g'"
  using step serial ok
proof (induction rule: group_step.induct)
  case (produce w g msg res w')
  show ?case
    by (intro disjI1, rule leader_step_ok [OF produce(7)])
      (use produce_step_ok [OF env _ _ produce(1-5)] produce(3) in fastforce)+
next
  case (fetch w g off res w')
  show ?case
    by (intro disjI1, rule leader_step_ok [OF fetch(5)]) (use fetch_step_ok [OF env _ _ fetch(1-3)] in fastforce)+
next
  case (heartbeat g l a now)
  show ?case
    by (intro disjI2, rule leader_step_ok [OF heartbeat(6)])
      (use reconcile_leader_leading [OF _ heartbeat(1,2) refl heartbeat(3,4), of _ K now] in fastforce)+
next
  case (spawn f g)
  show ?case
    by (intro disjI1, rule follower_step_ok [OF spawn(3,1) _ spawn(2), where lm = "rg_logs g f" and ts = "rg_tasks g f @ [Started]"])
      (auto simp: follower_ok_def)
next
  case (ask f i g now l lm)
  show ?case
    by (intro disjI1, rule follower_step_ok [OF ask(6,1) _ ask(5), where lm = lm and ts = "(rg_tasks g f)[i := Asked (next_offset l)]"])
      (auto intro: follower_ask [OF _ ask(4)])
next
  case (answer f i g off w res w')
  show ?case
    using answer_step_ok [OF env answer(8,1) _ answer(2-6)] answer(7) by auto
next
  case (store f i g m now)
  have "running (rg_tasks g f) \<le> 1" using store(5) by (simp add: group_ok_def serial_def)
  note stored = follower_store [OF _ store(2,3) this]
  show ?case
    by (intro disjI1, rule follower_step_ok [OF store(5,1) _ store(4),
          where lm = "append_replica now (topic, part) m (rg_logs g f)" and ts = "(rg_tasks g f)[i := Ended]"])
      (auto intro: stored)
qed

section \<open>Committed messages\<close>

text \<open>The leader has opened the log of a new partition; it learns its followers from heartbeat responses.\<close>

definition fresh_group :: "partition_key \<Rightarrow> u32 \<Rightarrow> u32 set \<Rightarrow> replica_group \<Rightarrow> bool" where
  "fresh_group key leader F g \<longleftrightarrow> leading (rg_logs g leader) key [] {} \<and>
     (\<forall>f \<in> F. stores (rg_logs g f) key [] \<and> progress (rg_logs g leader) key f = 0) \<and> (\<forall>f. rg_tasks g f = [])"

definition knows_followers :: "LogManager \<Rightarrow> partition_key \<Rightarrow> u32 set \<Rightarrow> bool" where
  "knows_followers lm key F \<longleftrightarrow> (\<exists>l. partitions lm key = Some l \<and> other_replicas l = F)"

lemma fresh_group_ok: "fresh_group key leader F g \<Longrightarrow> group_ok key leader F {} g"
  by (auto simp: fresh_group_def group_ok_def serial_def running_def follower_ok_def)

lemma group_ok_knows: "group_ok key leader F K g \<Longrightarrow> knows_followers (rg_logs g leader) key K"
  by (auto simp: group_ok_def leading_def knows_followers_def)

lemma knows_unique: "knows_followers lm key F \<Longrightarrow> knows_followers lm key K \<Longrightarrow> K = F"
  by (auto simp: knows_followers_def)

lemma reach_group_ok:
  assumes "group_env sf topic" "reach serial (group_step sf clock topic part leader ids) g0 g"
    and "group_ok (topic, part) leader (set ids - {leader}) K g0"
  shows "group_ok (topic, part) leader (set ids - {leader}) K g \<or>
    group_ok (topic, part) leader (set ids - {leader}) (set ids - {leader}) g"
  using assms(2)
proof (induction rule: reach.induct)
  case (reach_step s t)
  then show ?case
    using group_step_ok [OF assms(1) reach_step(2), of K] group_step_ok [OF assms(1) reach_step(2), of "set ids - {leader}"]
    by blast
qed (use assms(3) in simp)

text \<open>From the first heartbeat response on, the leader knows its followers.\<close>

lemma known_group_ok:
  assumes "group_env sf topic" "fresh_group (topic, part) leader (set ids - {leader}) g0"
    and "reach serial (group_step sf clock topic part leader ids) g0 g1"
    and "knows_followers (rg_logs g1 leader) (topic, part) (set ids - {leader})"
    and "reach serial (group_step sf clock topic part leader ids) g1 g"
  shows "group_ok (topic, part) leader (set ids - {leader}) (set ids - {leader}) g"
proof -
  let ?ok = "group_ok (topic, part) leader (set ids - {leader})"
  from reach_group_ok [OF assms(1,3) fresh_group_ok [OF assms(2)]] obtain K where K: "?ok K g1" by blast
  then have "K = set ids - {leader}" by (rule knows_unique [OF assms(4) group_ok_knows])
  with K reach_group_ok [OF assms(1,5)] show ?thesis by blast
qed

definition has_committed :: "LogManager \<Rightarrow> LogManager \<Rightarrow> partition_key \<Rightarrow> byte list list \<Rightarrow> bool" where
  "has_committed lm leader_lm key ms \<longleftrightarrow> (\<exists>ns. stores lm key ns \<and>
     (\<forall>off < watermark leader_lm key. unat off < length ns \<and> ns ! unat off = ms ! unat off))"

lemma group_committed:
  assumes "group_ok key leader F F g"
  obtains ms where "leading (rg_logs g leader) key ms F"
    "\<And>f. f \<in> F \<Longrightarrow> has_committed (rg_logs g f) (rg_logs g leader) key ms"
proof -
  obtain ms where ms: "leading (rg_logs g leader) key ms F"
      "\<forall>f \<in> F. \<exists>k. follower_ok ms key (progress (rg_logs g leader) key f) (rg_logs g f) (rg_tasks g f) k"
    using assms by (auto simp: group_ok_def)
  have "has_committed (rg_logs g f) (rg_logs g leader) key ms" if f: "f \<in> F" for f
  proof -
    obtain k where k: "k \<le> length ms" "stores (rg_logs g f) key (take k ms)" "unat (progress (rg_logs g leader) key f) \<le> k"
      using ms(2) f by (auto simp: follower_ok_def)
    have "unat off < k" if "off < watermark (rg_logs g leader) key" for off
    proof -
      have "off < progress (rg_logs g leader) key f" using that f below_watermark [OF ms(1)] by blast
      then show ?thesis using k(3) by (simp add: word_less_nat_alt)
    qed
    then show ?thesis using k(1,2) unfolding has_committed_def by (intro exI [of _ "take k ms"]) auto
  qed
  with ms(1) show ?thesis by (rule that)
qed

section \<open>Properties\<close>


text \<open>A heartbeat response makes the followers known.\<close>

lemma heartbeat_makes_known:
  assumes "partitions lm key = Some l" "broker_id l = leader" "(pa_Topic a, pa_Partition a) = key"
  shows "knows_followers (reconcile_leader now a lm) key (set (pa_ReplicaIds a) - {leader})"
  using assms by (auto simp: knows_followers_def reconcile_leader_def get_partition_def put_partition_def
      assign_replicas_def other_replicas_def)


section \<open>A group of two\<close>

text \<open>
  Broker 3 has opened the log of a new partition with the replicas 3 and 2; a heartbeat response tells it so.
\<close>

definition demo_opened :: "PartitionLog \<Rightarrow> replica_group" where
  "demo_opened l = \<lparr>rg_logs = (\<lambda>b. if b = 3 then put_partition (''t'', 0) l (demo_follower\<lparr>lm_broker_id := 3\<rparr>) else demo_follower),
     rg_tasks = (\<lambda>b. [])\<rparr>"

definition demo_start :: replica_group where
  "demo_start = demo_opened (fresh_log 0 3 210 None None)"

definition demo_group :: replica_group where
  "demo_group = demo_opened (assign_replicas [3, 2] (fresh_log 0 3 210 None None))"

lemma demo_replicas: "set [3, 2] - {3} = {2 :: u32}" by auto

lemma demo_opened_leading:
  assumes "l = fold exec_op ops (fresh_log 0 3 210 None None)" "appended ops = []" "other_replicas l = F" "replica_offsets l = Map.empty"
  shows "leading (rg_logs (demo_opened l) 3) (''t'', 0) [] F" "progress (rg_logs (demo_opened l) 3) (''t'', 0) = (\<lambda>_. 0)"
proof -
  have "holds l []" using history_holds [of ops 0 3 210 None None] assms(1,2) by (simp add: fits_def)
  moreover have "hw_ok l" unfolding assms(1) by (rule history_hw_ok)
  ultimately show "leading (rg_logs (demo_opened l) 3) (''t'', 0) [] F" "progress (rg_logs (demo_opened l) 3) (''t'', 0) = (\<lambda>_. 0)"
    using assms(3,4) by (simp_all add: leading_def progress_def demo_opened_def put_partition_def follower_progress_def fun_eq_iff)
qed

lemma demo_group_leading:
  "leading (rg_logs demo_start 3) (''t'', 0) [] {}" "progress (rg_logs demo_start 3) (''t'', 0) = (\<lambda>_. 0)"
  "leading (rg_logs demo_group 3) (''t'', 0) [] {2}"
  unfolding demo_start_def demo_group_def
  by (rule demo_opened_leading [of _ "[]"] demo_opened_leading [of _ "[AssignOp [3, 2]]"];
      simp add: other_replicas_def assign_replicas_def fresh_log_def open_log_def recompute_high_watermark_def Let_def)+

lemma demo_start_fresh: "fresh_group (''t'', 0) 3 (set [3, 2] - {3}) demo_start"
  unfolding demo_replicas fresh_group_def
  using demo_group_leading demo_setting(3) by (simp add: demo_start_def demo_opened_def)

lemma demo_group_env: "group_env (\<lambda>off n. int n) ''t''"
  using demo_setting(4,5) by (simp add: group_env_def)

lemma demo_heartbeat:
  "reach serial (group_step (\<lambda>off n. int n) int ''t'' 0 3 [3, 2]) demo_start demo_group"
  "knows_followers (rg_logs demo_group 3) (''t'', 0) (set [3, 2] - {3})"
proof -
  let ?a = "\<lparr>pa_Topic = ''t'', pa_Partition = 0, pa_LeaderId = 3, pa_ReplicaIds = [3, 2]\<rparr>"
  let ?l = "fresh_log 0 3 210 None None"
  have l: "partitions (rg_logs demo_start 3) (''t'', 0) = Some ?l" "broker_id ?l = 3"
    by (simp_all add: demo_start_def demo_opened_def put_partition_def) (simp add: fresh_log_def)
  have "set_log 3 (reconcile_leader 0 ?a (rg_logs demo_start 3)) demo_start = demo_group"
    by (simp add: demo_start_def demo_group_def demo_opened_def set_log_def reconcile_leader_def get_partition_def
        put_partition_def fun_eq_iff)
  then have "group_step (\<lambda>off n. int n) int ''t'' 0 3 [3, 2] demo_start demo_group"
    using heartbeat [OF l, of ?a "[3, 2]" "\<lambda>off n. int n" int 0] by simp
  moreover have "serial demo_group" by (simp add: serial_def demo_group_def demo_opened_def running_def)
  ultimately show "reach serial (group_step (\<lambda>off n. int n) int ''t'' 0 3 [3, 2]) demo_start demo_group"
    by (blast intro: reach.intros)
  show "knows_followers (rg_logs demo_group 3) (''t'', 0) (set [3, 2] - {3})"
    unfolding demo_replicas using demo_group_leading(3) by (auto simp: knows_followers_def leading_def)
qed

text \<open>A message is produced, and the follower spawns a task.\<close>

definition demo_world :: broker_world where
  "demo_world = empty_broker\<lparr>bw_logs := rg_logs demo_group 3\<rparr>"

definition demo_produced :: replica_group where
  "demo_produced = set_log 3 (bw_logs (snd (sendProduce (broker_net (\<lambda>off n. int n) int) ''t'' 0 ''hi'' demo_world))) demo_group"

lemma demo_run:
  "reach serial (group_step (\<lambda>off n. int n) int ''t'' 0 3 [3, 2]) demo_group
     (demo_produced\<lparr>rg_tasks := (rg_tasks demo_produced)(2 := [Started])\<rparr>)"
proof -
  let ?step = "group_step (\<lambda>off n. int n) int ''t'' 0 3 [3, 2]"
  have st: "stores (rg_logs demo_group 3) (''t'', 0) ms \<Longrightarrow> ms = []" for ms
    using demo_group_leading(3) holds_length [of _ ms] holds_length [of _ "[]"]
    by (fastforce simp: leading_def stores_def current_log_def get_partition_def)
  have "?step demo_group demo_produced"
    unfolding demo_produced_def
    by (rule produce [where w = demo_world and msg = "''hi''", OF _ _ _ _ prod.collapse [symmetric]])
      (auto simp: demo_world_def idle_def empty_broker_def good_message_def bytes_of_def has_room_def fits_def dest!: st)
  moreover have "serial demo_produced" by (simp add: serial_def demo_produced_def demo_group_def demo_opened_def running_def)
  ultimately have 1: "reach serial ?step demo_group demo_produced" by (blast intro: reach.intros)
  have "?step demo_produced (demo_produced\<lparr>rg_tasks := (rg_tasks demo_produced)(2 := rg_tasks demo_produced 2 @ [Started])\<rparr>)"
    by (rule group_step.spawn) simp
  moreover have "rg_tasks demo_produced = (\<lambda>b. [])" by (simp add: demo_produced_def demo_group_def demo_opened_def)
  ultimately show ?thesis
    using 1 by (auto intro!: reach_step [OF 1] simp: serial_def running_def)
qed



end
