(* ===== verification/Leader_Change.thy ===== *)
theory Leader_Change
  imports Replica_Group
begin

text \<open>
  What a consumer sees after a failover.  The controller changes the leader of the partition but not
  its replica set, so the new leader learns, with its next heartbeat, a replica set that still has the
  failed broker in it.  It has never heard of that broker's progress.
\<close>

section \<open>What reconciliation keeps\<close>

text \<open>The partition's log belongs to broker \<open>b\<close>, and the replica \<open>r\<close> has not asked it for data.\<close>

definition unasked :: "LogManager \<Rightarrow> partition_key \<Rightarrow> u32 \<Rightarrow> u32 \<Rightarrow> bool" where
  "unasked lm key b r \<longleftrightarrow>
     (\<forall>now. broker_id (current_log now key lm) = b \<and> follower_progress (current_log now key lm) r = 0)"

lemma assign_replicas_frame [simp]:
  "broker_id (assign_replicas ids l) = broker_id l"
  "follower_progress (assign_replicas ids l) = follower_progress l"
  "replica_ids (assign_replicas ids l) = ids"
  by (simp_all add: assign_replicas_def follower_progress_def fun_eq_iff)

lemma reconcile_leader_unasked:
  "unasked lm key b r \<Longrightarrow> unasked (reconcile_leader now a lm) key b r"
  by (auto simp: unasked_def reconcile_leader_def Let_def split_beta) (auto simp: current_log_def)

lemma reconcile_unasked: "unasked lm key b r \<Longrightarrow> unasked (fst (reconcile now resp lm)) key b r"
proof -
  have "unasked lm key b r \<Longrightarrow> unasked (fold (reconcile_leader now) as lm) key b r" for as
    by (induction as arbitrary: lm) (simp_all add: reconcile_leader_unasked)
  then show "unasked lm key b r \<Longrightarrow> unasked (fst (reconcile now resp lm)) key b r" by (simp add: reconcile_def)
qed

lemma knows_replicas_leading:
  assumes "knows_replicas lm key ids" "stores lm key ns" "unasked lm key b r"
  shows "leading lm key ns (set ids - {b})" "progress lm key r = 0"
proof -
  obtain l where l: "partitions lm key = Some l" "replica_ids l = ids" "hw_ok l"
    using assms(1) by (auto simp: knows_replicas_def)
  then have cur: "current_log now key lm = l" for now by (simp add: current_log_def get_partition_def)
  show "leading lm key ns (set ids - {b})" "progress lm key r = 0"
    using l assms(2,3) by (auto simp: cur stores_def unasked_def leading_def progress_def other_replicas_def)
qed

section \<open>Properties\<close>

text \<open>
  C32: a failover hides every message.  When the new leader has had its next heartbeat exchange with the
  controller, the failed broker is one of the replicas it waits for, and no fetch returns data, whatever
  the offset and however many messages the log has, until the failed broker itself comes back and
  asks the new leader for data.
\<close>

theorem failover_hides_messages:
  assumes "heartbeat_turn (go_controller raft v) now ks b (s, rn) = (s', rn')" "bs_phase s' = Heartbeating"
    and "visit_ok v (RN_FSM rn')" "partition_of (RN_FSM rn') topic part = Some q" "LeaderID q = b"
    and "failed \<in> set (ReplicaIDs q)" "failed \<noteq> b"
    and "stores (bs_logs s) (topic, part) ns" "unasked (bs_logs s) (topic, part) b failed"
    and "idle w" "bw_logs w = bs_logs s'" "group_env sf topic" "\<forall>m \<in> set ns. length m < 2 ^ 32"
  shows "\<exists>w'. sendFetch (broker_net sf clock) topic part off w = (Inr None, w') \<and>
    stores (bw_logs w') (topic, part) ns"
proof -
  let ?key = "(topic, part)"
  obtain resp where r: "bs_logs s' = fst (reconcile now resp (bs_logs s))"
      "set (hbr_AssignedLeaders resp) = {to_assignment n p q | n p q. partition_of (RN_FSM rn') n p = Some q \<and> LeaderID q = b}"
    by (rule heartbeat_turn_ok [OF assms(1-3)])
  have "knows_replicas (bs_logs s') ?key (ReplicaIDs q)"
    unfolding r(1) by (rule reconcile_leaders_of [OF r(2) assms(4,5)])
  moreover have "stores (bs_logs s') ?key ns" unfolding r(1) by (rule reconcile_stores [OF assms(8)])
  moreover have "unasked (bs_logs s') ?key b failed" unfolding r(1) by (rule reconcile_unasked [OF assms(9)])
  ultimately have lead: "leading (bw_logs w) ?key ns (set (ReplicaIDs q) - {b})"
      and prog: "progress (bw_logs w) ?key failed = 0"
    unfolding assms(11) by (rule knows_replicas_leading)+
  have "\<not> off < watermark (bw_logs w) ?key"
    using assms(6,7) prog by (auto simp: below_watermark [OF lead] intro!: bexI [of _ failed])
  moreover have "valid_utf8 topic" "length topic < 65536" "sendfile_ok sf" using assms(12) by (auto simp: group_env_def)
  ultimately show ?thesis
    using sendFetch_leading [OF assms(10) lead _ _ _ assms(13), of sf clock off] leading_stores by fastforce
qed

section \<open>An example\<close>

text \<open>Broker 3 has failed, broker 2 has been elected and has one message.\<close>

definition quiet_raft :: "RaftState raft_lib" where
  "quiet_raft = \<lparr>raft_State = (\<lambda>r. r), raft_Leader = (\<lambda>_. ''node1''),
     raft_Apply = (\<lambda>d r s. (Inr None, r, s)), raft_AddVoter = (\<lambda>i a r s. (None, r, s))\<rparr>"

definition elected_node :: "RaftState RaftNode" where
  "elected_node = \<lparr>RN_Raft = Leader, RN_FSM = handleBrokerFailure [1, 2, 3] sample_visit 3 led_by_3, RN_NodeID = ''node1''\<rparr>"

definition new_leader :: broker_state where
  "new_leader = \<lparr>bs_phase = Heartbeating, bs_logs = append_replica 0 (''t'', 0) [104] demo_follower, bs_spawned = []\<rparr>"

lemma elected_partition:
  "partition_of (RN_FSM elected_node) ''t'' 0 = Some (sample_partition\<lparr>LeaderID := 2, ReplicaIDs := [3, 2]\<rparr>)"
  "visit_ok sample_visit (RN_FSM elected_node)"
proof -
  have "getActiveBrokerIDs [1, 2, 3] led_by_3 = [1, 2, 3]"
    by (simp add: getActiveBrokerIDs_def led_by_3_def sample_state_def sample_brokers_def)
  then show "partition_of (RN_FSM elected_node) ''t'' 0 = Some (sample_partition\<lparr>LeaderID := 2, ReplicaIDs := [3, 2]\<rparr>)"
    using led_by_3_ok(3,4)
    by (simp add: elected_node_def handleBrokerFailure_def partition_of_each_partition elect_leader_def led_by_3_active)
  show "visit_ok sample_visit (RN_FSM elected_node)"
    using led_by_3_ok(3) by (simp add: elected_node_def handleBrokerFailure_def Let_def)
qed

lemma new_leader_log:
  "stores (bs_logs new_leader) (''t'', 0) [[104]]" "unasked (bs_logs new_leader) (''t'', 0) 2 3"
proof -
  show "stores (bs_logs new_leader) (''t'', 0) [[104]]"
    using append_replica_stores [OF demo_setting(3), of "[104]" 0] by (simp add: new_leader_def fits_def)
  have "partitions demo_follower (''t'', 0) = None" "lm_broker_id demo_follower = 2"
    by (simp_all add: demo_follower_def NewLogManager_def)
  then show "unasked (bs_logs new_leader) (''t'', 0) 2 3"
    by (simp add: unasked_def new_leader_def append_replica_def split_beta get_partition_def open_partition_def
        follower_progress_def Let_def) (simp add: open_log_def Let_def)
qed

theorem failover_hides_messages_witness:
  "\<exists>s' w w'. fst (heartbeat_turn (go_controller quiet_raft sample_visit) 0 [] 2 (new_leader, elected_node)) = s' \<and>
     bw_logs w = bs_logs s' \<and> sendFetch (broker_net (\<lambda>off n. int n) int) ''t'' 0 0 w = (Inr None, w') \<and>
     stores (bw_logs w') (''t'', 0) [[104]]"
proof -
  obtain s' where turn: "heartbeat_turn (go_controller quiet_raft sample_visit) 0 [] 2 (new_leader, elected_node) =
      (s', elected_node)" and ph: "bs_phase s' = Heartbeating"
    by (simp add: heartbeat_turn_def go_controller_def rpc_result_def reconcile_def Heartbeat_def heartbeat_request_def
        Propose_def checkLeader_def quiet_raft_def elected_node_def split_beta Let_def)
  obtain w' where "sendFetch (broker_net (\<lambda>off n. int n) int) ''t'' 0 0 (empty_broker\<lparr>bw_logs := bs_logs s'\<rparr>) = (Inr None, w')"
      "stores (bw_logs w') (''t'', 0) [[104]]"
    using failover_hides_messages [OF turn ph elected_partition(2,1), of 3 "[[104]]" "empty_broker\<lparr>bw_logs := bs_logs s'\<rparr>"
        "\<lambda>off n. int n" int 0] new_leader_log demo_group_env
    by (auto simp: idle_def empty_broker_def)
  then show ?thesis using turn by (intro exI conjI) auto
qed

end
