(* ===== verification/Connections.thy ===== *)
theory Connections
  imports Broker_World
begin

text \<open>
  The data server with any number of connections (\<open>DataServer::run\<close> and \<open>handle_connection\<close> in
  \<open>rust-broker/src/net/server.rs\<close>).  Every connection has its own task.  The tasks interleave
  wherever one does not hold the lock of a partition: between requests, while bytes arrive, and between
  the attempts of a fetch that waits for the high watermark.  The peers send any bytes, and may go away at
  any time: every call on a socket may fail, and \<open>sendfile\<close> may send any part of what it is asked to.
  A call on a file may fail too, as long as it leaves the file as it was; an append that fails
  half-way is in \<open>Io_Errors\<close>.

  Four lists record, for the statements only, what has been acknowledged to producers and sent to
  consumers and followers, the replies that were not sent as a whole, and the errors of the
  operating system, with the connection whose task got them.
\<close>

section \<open>Connections\<close>

datatype conn_state = Reading | Waiting string u32 u64 u32 nat | Stopped "error option"

record conn =
  c_in :: "byte list"
  c_out :: "byte list"
  c_state :: conn_state

record data_server =
  ds_logs :: LogManager
  ds_conns :: "conn list"
  ds_acked :: "(partition_key \<times> u64 \<times> byte list) list"
  ds_sent :: "(partition_key \<times> u64 \<times> u32 \<times> byte list) list"
  ds_cut :: "(partition_key \<times> u64 \<times> u32 \<times> byte list) list"
  ds_faults :: "(nat \<times> error) list"

definition new_conn :: conn where
  "new_conn = \<lparr>c_in = [], c_out = [], c_state = Reading\<rparr>"

definition set_conn :: "nat \<Rightarrow> conn \<Rightarrow> data_server \<Rightarrow> data_server" where
  "set_conn i c s = s\<lparr>ds_conns := (ds_conns s)[i := c]\<rparr>"

text \<open>What a task does with a reply: it sends the bytes and goes on, or fails.\<close>

definition reply_to :: "reply \<Rightarrow> byte list \<Rightarrow> conn \<Rightarrow> conn" where
  "reply_to r rest c = c\<lparr>c_in := rest, c_out := c_out c @ fst r,
     c_state := (case snd r of None \<Rightarrow> Reading | Some e \<Rightarrow> Stopped (Some e))\<rparr>"

text \<open>A call fails after \<open>j\<close> bytes of the reply have been written: the task ends with its error.\<close>

definition cut_to :: "nat \<Rightarrow> error \<Rightarrow> reply \<Rightarrow> byte list \<Rightarrow> conn \<Rightarrow> conn" where
  "cut_to j e r rest c = c\<lparr>c_in := rest, c_out := c_out c @ take j (fst r), c_state := Stopped (Some e)\<rparr>"

definition fault :: "nat \<Rightarrow> error option \<Rightarrow> data_server \<Rightarrow> data_server" where
  "fault i err s = s\<lparr>ds_faults := ds_faults s @ (case err of None \<Rightarrow> [] | Some e \<Rightarrow> [(i, e)])\<rparr>"

inductive server_step :: "sendfile \<Rightarrow> data_server \<Rightarrow> data_server \<Rightarrow> bool" for sf where
  accept: "server_step sf s (s\<lparr>ds_conns := ds_conns s @ [new_conn]\<rparr>)"
| receive: "i < length (ds_conns s) \<Longrightarrow> c = ds_conns s ! i \<Longrightarrow>
    server_step sf s (set_conn i (c\<lparr>c_in := c_in c @ bs\<rparr>) s)"
| stop: "i < length (ds_conns s) \<Longrightarrow> c = ds_conns s ! i \<Longrightarrow> c_state c = Reading \<Longrightarrow>
    read_request (c_in c) = Closed \<and> e = None \<or> (\<exists>msg. read_request (c_in c) = Failed msg \<and> e = Some msg) \<Longrightarrow>
    server_step sf s (set_conn i (c\<lparr>c_state := Stopped e\<rparr>) s)"
| serve_produce: "i < length (ds_conns s) \<Longrightarrow> c = ds_conns s ! i \<Longrightarrow> c_state c = Reading \<Longrightarrow>
    read_request (c_in c) = Request (ReqProduce topic part payload) rest \<Longrightarrow>
    has_room (ds_logs s) (topic, part) payload \<Longrightarrow>
    serve_produce now topic part payload (ds_logs s) = (r, lm) \<Longrightarrow> r = produce_reply off \<Longrightarrow>
    server_step sf s (set_conn i (reply_to r rest c)
      (s\<lparr>ds_logs := lm, ds_acked := ds_acked s @ [((topic, part), off, payload)]\<rparr>))"
| serve_replica: "i < length (ds_conns s) \<Longrightarrow> c = ds_conns s ! i \<Longrightarrow> c_state c = Reading \<Longrightarrow>
    read_request (c_in c) = Request (ReqReplicaFetch replica topic part off n) rest \<Longrightarrow>
    serve_replica_fetch sf now replica topic part off n (ds_logs s) = (r, lm) \<Longrightarrow>
    server_step sf s (set_conn i (reply_to r rest c)
      (s\<lparr>ds_logs := lm, ds_sent := ds_sent s @ [((topic, part), off, n, fst r)]\<rparr>))"
| start_fetch: "i < length (ds_conns s) \<Longrightarrow> c = ds_conns s ! i \<Longrightarrow> c_state c = Reading \<Longrightarrow>
    read_request (c_in c) = Request (ReqFetch topic part off n) rest \<Longrightarrow>
    get_partition now (topic, part) (ds_logs s) = (l, lm) \<Longrightarrow>
    server_step sf s (set_conn i (c\<lparr>c_in := rest, c_state := Waiting topic part off n 0\<rparr>) (s\<lparr>ds_logs := lm\<rparr>))"
| attempt_data: "i < length (ds_conns s) \<Longrightarrow> c = ds_conns s ! i \<Longrightarrow> c_state c = Waiting topic part off n a \<Longrightarrow>
    partitions (ds_logs s) (topic, part) = Some l \<Longrightarrow> off < high_watermark l \<Longrightarrow>
    r = read_reply sf (read_from_offset off n l) \<Longrightarrow>
    server_step sf s (set_conn i (reply_to r (c_in c) c)
      (s\<lparr>ds_sent := ds_sent s @ [((topic, part), off, n, fst r)]\<rparr>))"
| attempt_last: "i < length (ds_conns s) \<Longrightarrow> c = ds_conns s ! i \<Longrightarrow> c_state c = Waiting topic part off n a \<Longrightarrow>
    partitions (ds_logs s) (topic, part) = Some l \<Longrightarrow> \<not> off < high_watermark l \<Longrightarrow> a + 1 \<ge> 10 \<Longrightarrow>
    server_step sf s (set_conn i (reply_to (read_reply sf (Inr None)) (c_in c) c) s)"
| attempt_again: "i < length (ds_conns s) \<Longrightarrow> c = ds_conns s ! i \<Longrightarrow> c_state c = Waiting topic part off n a \<Longrightarrow>
    partitions (ds_logs s) (topic, part) = Some l \<Longrightarrow> \<not> off < high_watermark l \<Longrightarrow> a + 1 < 10 \<Longrightarrow>
    server_step sf s (set_conn i (c\<lparr>c_state := Waiting topic part off n (a + 1)\<rparr>) s)"
| other_task: "get_partition now key (ds_logs s) = (l, lm) \<Longrightarrow> (\<forall>t. opn \<noteq> RestartOp t) \<Longrightarrow>
    (\<forall>m \<in> set (appended [opn]). has_room (ds_logs s) key m \<and> length m < 2 ^ 32) \<Longrightarrow>
    server_step sf s (s\<lparr>ds_logs := put_partition key (exec_op opn l) lm\<rparr>)"
| call_fails: "i < length (ds_conns s) \<Longrightarrow> c = ds_conns s ! i \<Longrightarrow> (\<forall>x. c_state c \<noteq> Stopped x) \<Longrightarrow>
    server_step sf s (set_conn i (c\<lparr>c_state := Stopped (Some e)\<rparr>) (fault i (Some e) s))"
| produce_cut: "i < length (ds_conns s) \<Longrightarrow> c = ds_conns s ! i \<Longrightarrow> c_state c = Reading \<Longrightarrow>
    read_request (c_in c) = Request (ReqProduce topic part payload) rest \<Longrightarrow>
    has_room (ds_logs s) (topic, part) payload \<Longrightarrow>
    serve_produce now topic part payload (ds_logs s) = (r, lm) \<Longrightarrow> r = produce_reply off \<Longrightarrow>
    server_step sf s (set_conn i (cut_to j e r rest c) (fault i (Some e) (s\<lparr>ds_logs := lm\<rparr>)))"
| replica_cut: "i < length (ds_conns s) \<Longrightarrow> c = ds_conns s ! i \<Longrightarrow> c_state c = Reading \<Longrightarrow>
    read_request (c_in c) = Request (ReqReplicaFetch replica topic part off n) rest \<Longrightarrow>
    serve_replica_fetch sf now replica topic part off n (ds_logs s) = (r, lm) \<Longrightarrow>
    server_step sf s (set_conn i (cut_to j e r rest c)
      (fault i (Some e) (s\<lparr>ds_logs := lm, ds_cut := ds_cut s @ [((topic, part), off, n, take j (fst r))]\<rparr>)))"
| replica_short: "i < length (ds_conns s) \<Longrightarrow> c = ds_conns s ! i \<Longrightarrow> c_state c = Reading \<Longrightarrow>
    read_request (c_in c) = Request (ReqReplicaFetch replica topic part off n) rest \<Longrightarrow>
    get_partition now (topic, part) (ds_logs s) = (l, lm) \<Longrightarrow> l' = update_follower_offset replica off l \<Longrightarrow>
    read_from_offset off n l' = Inr res \<Longrightarrow> sendfile_any sf' \<Longrightarrow> r = read_reply sf' (Inr res) \<Longrightarrow>
    server_step sf s (set_conn i (reply_to r rest c) (fault i (snd r) (s\<lparr>ds_logs := put_partition (topic, part) l' lm,
      ds_cut := ds_cut s @ [((topic, part), off, n, fst r)]\<rparr>)))"
| data_cut: "i < length (ds_conns s) \<Longrightarrow> c = ds_conns s ! i \<Longrightarrow> c_state c = Waiting topic part off n a \<Longrightarrow>
    partitions (ds_logs s) (topic, part) = Some l \<Longrightarrow> off < high_watermark l \<Longrightarrow>
    r = read_reply sf (read_from_offset off n l) \<Longrightarrow>
    server_step sf s (set_conn i (cut_to j e r (c_in c) c)
      (fault i (Some e) (s\<lparr>ds_cut := ds_cut s @ [((topic, part), off, n, take j (fst r))]\<rparr>)))"
| data_short: "i < length (ds_conns s) \<Longrightarrow> c = ds_conns s ! i \<Longrightarrow> c_state c = Waiting topic part off n a \<Longrightarrow>
    partitions (ds_logs s) (topic, part) = Some l \<Longrightarrow> off < high_watermark l \<Longrightarrow>
    read_from_offset off n l = Inr res \<Longrightarrow> sendfile_any sf' \<Longrightarrow> r = read_reply sf' (Inr res) \<Longrightarrow>
    server_step sf s (set_conn i (reply_to r (c_in c) c)
      (fault i (snd r) (s\<lparr>ds_cut := ds_cut s @ [((topic, part), off, n, fst r)]\<rparr>)))"
| none_cut: "i < length (ds_conns s) \<Longrightarrow> c = ds_conns s ! i \<Longrightarrow> c_state c = Waiting topic part off n a \<Longrightarrow>
    partitions (ds_logs s) (topic, part) = Some l \<Longrightarrow> \<not> off < high_watermark l \<Longrightarrow> a + 1 \<ge> 10 \<Longrightarrow>
    server_step sf s (set_conn i (cut_to j e (read_reply sf (Inr None)) (c_in c) c) (fault i (Some e) s))"

section \<open>The invariant\<close>

text \<open>
  One sequence of messages per partition explains everything: the logs store it, every acknowledged
  message is in it under its offset, no offset is acknowledged twice, and what was sent is
  what it has.
\<close>

definition explains :: "(partition_key \<Rightarrow> byte list list) \<Rightarrow> data_server \<Rightarrow> bool" where
  "explains M s \<longleftrightarrow>
     (\<forall>key. stores (ds_logs s) key (M key) \<and> (\<forall>m \<in> set (M key). length m < 2 ^ 32)) \<and>
     (\<forall>key off m. (key, off, m) \<in> set (ds_acked s) \<longrightarrow> unat off < length (M key) \<and> M key ! unat off = m) \<and>
     distinct (map (\<lambda>(key, off, m). (key, off)) (ds_acked s))"

definition sent_ok :: "(partition_key \<Rightarrow> byte list list) \<Rightarrow> data_server \<Rightarrow> bool" where
  "sent_ok M s \<longleftrightarrow> (\<forall>key off n out. (key, off, n, out) \<in> set (ds_sent s) \<longrightarrow>
     out = message_reply None \<or> (unat off < length (M key) \<and> out = message_reply (message_at (M key) off n)))"

text \<open>A reply that was not sent as a whole is the beginning of a right one.\<close>

definition cut_ok :: "(partition_key \<Rightarrow> byte list list) \<Rightarrow> data_server \<Rightarrow> bool" where
  "cut_ok M s \<longleftrightarrow> (\<forall>key off n out. (key, off, n, out) \<in> set (ds_cut s) \<longrightarrow>
     (\<exists>j. out = take j (message_reply None) \<or>
       (unat off < length (M key) \<and> out = take j (message_reply (message_at (M key) off n)))))"

text \<open>
  A connection that failed did so because of the bytes it had received by then, or because one of its calls did.
\<close>

definition bad_input :: "conn \<Rightarrow> error \<Rightarrow> bool" where
  "bad_input c e \<longleftrightarrow> (\<exists>k \<le> length (c_in c). read_request (take k (c_in c)) = Failed e)"

definition conns_ok :: "data_server \<Rightarrow> bool" where
  "conns_ok s \<longleftrightarrow> (\<forall>i < length (ds_conns s). \<forall>e. c_state (ds_conns s ! i) = Stopped (Some e) \<longrightarrow>
     bad_input (ds_conns s ! i) e \<or> (i, e) \<in> set (ds_faults s))"

lemma bad_input_more: "bad_input c e \<Longrightarrow> bad_input (c\<lparr>c_in := c_in c @ bs\<rparr>) e"
proof -
  assume "bad_input c e"
  then obtain k where "k \<le> length (c_in c)" "read_request (take k (c_in c)) = Failed e"
    by (auto simp: bad_input_def)
  then show ?thesis unfolding bad_input_def by (intro exI [of _ k]) simp
qed

lemma bad_input_now: "read_request (c_in c) = Failed e \<Longrightarrow> bad_input (c\<lparr>c_state := st\<rparr>) e"
  by (auto simp: bad_input_def)

text \<open>A sequence that grows keeps explaining what was acknowledged and sent.\<close>

definition grows :: "('k \<Rightarrow> 'a list) \<Rightarrow> ('k \<Rightarrow> 'a list) \<Rightarrow> bool" where
  "grows M M' \<longleftrightarrow> (\<forall>key. \<exists>ns. M' key = M key @ ns)"

lemma growsI: "(\<And>k. M' k = M k @ N k) \<Longrightarrow> grows M M'"
  unfolding grows_def by blast

lemma grows_refl [simp]: "grows M M"
  by (rule growsI [where N = "\<lambda>_. []"]) simp

lemma grows_nth: "grows M M' \<Longrightarrow> i < length (M key) \<Longrightarrow> i < length (M' key) \<and> M' key ! i = M key ! i"
  by (auto simp: grows_def nth_append dest!: spec [of _ key])

lemma message_at_grows: "grows M M' \<Longrightarrow> unat off < length (M key) \<Longrightarrow> message_at (M' key) off n = message_at (M key) off n"
  using grows_nth by (fastforce simp: message_at_def)

lemma sent_ok_grows: "sent_ok M s \<Longrightarrow> grows M M' \<Longrightarrow> ds_sent s' = ds_sent s \<Longrightarrow> sent_ok M' s'"
  using message_at_grows [of M M'] grows_nth [of M M'] unfolding sent_ok_def by metis

lemma cut_ok_grows: "cut_ok M s \<Longrightarrow> grows M M' \<Longrightarrow> ds_cut s' = ds_cut s \<Longrightarrow> cut_ok M' s'"
  using message_at_grows [of M M'] grows_nth [of M M'] unfolding cut_ok_def by metis

lemma explains_grows:
  assumes "explains M s" "grows M M'" "ds_acked s' = ds_acked s"
    and "\<And>key. stores (ds_logs s') key (M' key) \<and> (\<forall>m \<in> set (M' key). length m < 2 ^ 32)"
  shows "explains M' s'"
  using assms(1,3,4) grows_nth [OF assms(2)] unfolding explains_def by simp

section \<open>Requests keep it\<close>

lemma put_keeps:
  assumes "\<forall>key. stores lm key (M key)" "get_partition now key lm = (l, lm1)" "holds l' ns"
  shows "stores (put_partition key l' lm1) k ((M(key := ns)) k)"
proof (cases "k = key")
  case False
  have "stores lm1 k (M k)" using stores_get [of lm k "M k" now key] spec [OF assms(1), of k] assms(2) by simp
  with False show ?thesis by (simp add: stores_put_other)
qed (simp add: stores_put assms(3))

lemma get_holds:
  assumes "stores lm key ms" "get_partition now key lm = (l, lm1)"
  shows "holds l ms"
  using assms by (auto simp: stores_def current_log_def dest: spec [of _ now])

lemma grows_append: "grows M (M(key := M key @ ns))"
  by (rule growsI [where N = "\<lambda>k. if k = key then ns else []"]) simp

lemma produce_reply_eq: "produce_reply a = produce_reply b \<longleftrightarrow> a = b"
proof
  assume "produce_reply a = produce_reply b"
  then have "Uint64 (PutUint64 a) = Uint64 (PutUint64 b)" by (simp add: produce_reply_def)
  then show "a = b" by simp
qed simp

lemma serve_produce_keeps:
  assumes "\<forall>key. stores lm key (M key)" "has_room lm (topic, part) p"
    and "serve_produce now topic part p lm = (produce_reply off, lm')"
  shows "off = word_of_nat (length (M (topic, part)))"
    and "stores lm' key ((M((topic, part) := M (topic, part) @ [p])) key)"
proof -
  let ?key = "(topic, part)"
  obtain l lm1 where g: "get_partition now ?key lm = (l, lm1)" by fastforce
  have h: "holds l (M ?key)" using get_holds assms(1) g by blast
  have fits: "fits (M ?key @ [p])" using assms(1,2) by (auto simp: has_room_def)
  have s: "produce_reply off = produce_reply (fst (append_log now p l))"
      "lm' = put_partition ?key (snd (append_log now p l)) lm1"
    using assms(3) g by (auto simp: serve_produce_def split_beta)
  then show "off = word_of_nat (length (M ?key))"
    using plog.append_offset [OF h fits, of now] by (simp add: produce_reply_eq)
  show "stores lm' key ((M(?key := M ?key @ [p])) key)"
    unfolding s(2) by (rule put_keeps [OF assms(1) g plog.append_represents [OF h fits]])
qed

lemma serve_replica_keeps:
  assumes "\<forall>key. stores lm key (M key)" "\<forall>m \<in> set (M (topic, part)). length m < 2 ^ 32" "sendfile_ok sf"
    and "serve_replica_fetch sf now replica topic part off n lm = (r, lm')"
  shows "r = (message_reply (message_at (M (topic, part)) off n), None)" and "stores lm' key (M key)"
proof -
  let ?key = "(topic, part)"
  obtain l lm1 where g: "get_partition now ?key lm = (l, lm1)" by fastforce
  let ?l = "update_follower_offset replica off l"
  have h: "holds l (M ?key)" using get_holds assms(1) g by blast
  then have h': "holds ?l (M ?key)" using exec_op_holds [of l "M ?key" "FollowerOp replica off"] holds_fits by simp
  have s: "r = read_reply sf (read_from_offset off n ?l)" "lm' = put_partition ?key ?l lm1"
    using assms(4) g by (auto simp: serve_replica_fetch_def Let_def)
  show "r = (message_reply (message_at (M ?key) off n), None)"
    unfolding s(1) by (rule read_reply_holds [OF h' assms(2,3)])
  show "stores lm' key (M key)" unfolding s(2) using put_keeps [OF assms(1) g h', of key] by simp
qed

lemma produce_payload_length:
  assumes "read_request input = Request (ReqProduce topic part p) rest"
  shows "length p < 2 ^ 32"
proof -
  obtain body where "parse_body (input ! 2) body = Inr (ReqProduce topic part p)"
    using assms by (auto simp: read_request_def Let_def split: if_splits sum.splits)
  then have "\<exists>k :: u32. length p \<le> unat k"
    by (auto simp: parse_body_def parse_produce_def parse_fetch_def parse_replica_fetch_def slice_def Let_def
        split: if_splits sum.splits intro: exI [where P = "\<lambda>k. _ \<le> unat k"])
  then obtain k :: u32 where "length p \<le> unat k" by blast
  then show ?thesis using unsigned_less [of k, where ?'a = nat] by simp
qed

lemma set_conn_simps [simp]:
  "ds_logs (set_conn i c s) = ds_logs s" "ds_acked (set_conn i c s) = ds_acked s" "ds_sent (set_conn i c s) = ds_sent s"
  "ds_cut (set_conn i c s) = ds_cut s" "ds_faults (set_conn i c s) = ds_faults s"
  by (simp_all add: set_conn_def)

lemma fault_simps [simp]:
  "ds_logs (fault i err s) = ds_logs s" "ds_acked (fault i err s) = ds_acked s" "ds_sent (fault i err s) = ds_sent s"
  "ds_cut (fault i err s) = ds_cut s" "ds_conns (fault i err s) = ds_conns s"
  "set (ds_faults (fault i err s)) = set (ds_faults s) \<union> {(i, e) | e. err = Some e}"
  by (auto simp: fault_def split: option.split)

section \<open>Every step keeps it\<close>

definition server_ok :: "(partition_key \<Rightarrow> byte list list) \<Rightarrow> data_server \<Rightarrow> bool" where
  "server_ok M s \<longleftrightarrow> explains M s \<and> sent_ok M s \<and> cut_ok M s \<and> conns_ok s"

lemma server_okD:
  assumes "server_ok M s"
  shows "\<forall>key. stores (ds_logs s) key (M key)" "\<forall>m \<in> set (M key). length m < 2 ^ 32"
    "explains M s" "sent_ok M s" "conns_ok s" "cut_ok M s"
  using assms unfolding server_ok_def explains_def by blast+

text \<open>A step that grows the logs and acknowledges or sends nothing.\<close>

lemma server_ok_grows:
  assumes ok: "server_ok M s" and "grows M M'" "ds_acked s' = ds_acked s" "ds_sent s' = ds_sent s" "conns_ok s'"
    "cut_ok M' s'"
    and "\<And>key. stores (ds_logs s') key (M' key) \<and> (\<forall>m \<in> set (M' key). length m < 2 ^ 32)"
  shows "server_ok M' s'"
  using explains_grows [OF server_okD(3) [OF ok] assms(2,3,7)] sent_ok_grows [OF server_okD(4) [OF ok] assms(2,4)] assms(5,6)
  by (simp add: server_ok_def)

lemma server_ok_same:
  assumes "server_ok M s" "ds_logs s' = ds_logs s" "ds_acked s' = ds_acked s" "ds_sent s' = ds_sent s" "conns_ok s'"
    and "cut_ok M s'"
  shows "server_ok M s'"
  using assms by (simp add: server_ok_def explains_def sent_ok_def)

lemma cut_ok_same: "cut_ok M s \<Longrightarrow> ds_cut s' = ds_cut s \<Longrightarrow> cut_ok M s'"
  by (simp add: cut_ok_def)

lemma conns_ok_set:
  assumes "conns_ok s" "ds_conns s' = ds_conns s" "set (ds_faults s) \<subseteq> set (ds_faults s')"
    and "\<And>e. c_state c = Stopped (Some e) \<Longrightarrow> bad_input c e \<or> (i, e) \<in> set (ds_faults s')"
  shows "conns_ok (set_conn i c s')"
  unfolding conns_ok_def
proof (intro allI impI)
  fix k e
  assume k: "k < length (ds_conns (set_conn i c s'))" "c_state (ds_conns (set_conn i c s') ! k) = Stopped (Some e)"
  show "bad_input (ds_conns (set_conn i c s') ! k) e \<or> (k, e) \<in> set (ds_faults (set_conn i c s'))"
    using k assms by (cases "k = i") (auto simp: set_conn_def conns_ok_def)
qed

lemma conns_ok_reply:
  assumes "conns_ok s" "ds_conns s' = ds_conns s" "set (ds_faults s) \<subseteq> set (ds_faults s')"
    and "\<And>e. snd r = Some e \<Longrightarrow> (i, e) \<in> set (ds_faults s')"
  shows "conns_ok (set_conn i (reply_to r rest c) s')"
  by (rule conns_ok_set [OF assms(1)]) (use assms(2-4) in \<open>auto simp: reply_to_def split: option.splits\<close>)

lemma conns_ok_cut:
  assumes "conns_ok s" "ds_conns s' = ds_conns s" "ds_faults s' = ds_faults s"
  shows "conns_ok (set_conn i (cut_to j e r rest c) (fault i (Some e) s'))"
  by (rule conns_ok_set [OF assms(1)]) (use assms(2,3) in \<open>auto simp: cut_to_def\<close>)

lemma sent_ok_more:
  assumes "sent_ok M s" "ds_sent s' = ds_sent s @ [(key, off, n, message_reply (message_at (M key) off n))]"
  shows "sent_ok M s'"
proof -
  have "message_at (M key) off n = None" if "\<not> unat off < length (M key)" using that by (simp add: message_at_def)
  then show ?thesis using assms unfolding sent_ok_def by auto
qed

lemma cut_ok_more:
  assumes "cut_ok M s" "ds_cut s' = ds_cut s @ [(key, off, n, take j (message_reply (message_at (M key) off n)))]"
  shows "cut_ok M s'"
proof -
  have "message_at (M key) off n = None" if "\<not> unat off < length (M key)" using that by (simp add: message_at_def)
  then have "out = take j (message_reply None) \<or> unat off < length (M key) \<and> out = take j (message_reply (message_at (M key) off n))"
    if "out = take j (message_reply (message_at (M key) off n))" for out
    using that by (cases "unat off < length (M key)") auto
  then show ?thesis
    using assms unfolding cut_ok_def by (simp del: split_paired_All) (metis fst_conv snd_conv)
qed

lemma produce_step_explains:
  assumes ok: "explains M s" and st: "\<And>k. stores (ds_logs s') k ((M(key := M key @ [p])) k)" and p: "length p < 2 ^ 32"
    and acked: "ds_acked s' = ds_acked s @ [(key, word_of_nat (length (M key)), p)]"
  shows "explains (M(key := M key @ [p])) s'"
proof -
  let ?M = "M(key := M key @ [p])" and ?off = "word_of_nat (length (M key)) :: u64"
  have "fits (M key @ [p])" using st [of key] by (auto simp: stores_def dest: spec intro: holds_fits)
  then have off: "unat ?off = length (M key)" by (intro unat_word_of_nat_u64) (simp add: fits_def)
  have old: "unat off < length (M k) \<and> M k ! unat off = m" if "(k, off, m) \<in> set (ds_acked s)" for k off m
    using ok that unfolding explains_def by blast
  then have "(key, ?off) \<notin> set (map (\<lambda>(key, off, m). (key, off)) (ds_acked s))" using off by fastforce
  moreover have "unat o' < length (?M k) \<and> ?M k ! unat o' = m" if "(k, o', m) \<in> set (ds_acked s')" for k o' m
    using that off grows_nth [OF grows_append [of M key "[p]"], of "unat o'" k] old [of k o' m] by (auto simp: acked)
  moreover have "\<forall>m \<in> set (?M k). length m < 2 ^ 32" for k
  proof -
    have "\<forall>m \<in> set (M k). length m < 2 ^ 32" using ok unfolding explains_def by blast
    then show ?thesis using p by auto
  qed
  ultimately show ?thesis using ok st unfolding explains_def by (simp add: acked del: fun_upd_apply split_paired_All)
qed

lemma server_step_ok:
  assumes sf: "sendfile_ok sf" and step: "server_step sf s s'" and ok: "server_ok M s"
  shows "\<exists>M'. grows M M' \<and> server_ok M' s'"
  using step ok
proof (induction rule: server_step.induct)
  case (accept s)
  have "conns_ok (s\<lparr>ds_conns := ds_conns s @ [new_conn]\<rparr>)"
    using server_okD(5) [OF accept] by (auto simp: conns_ok_def new_conn_def nth_append)
  then show ?case using server_ok_same [OF accept] cut_ok_same [OF server_okD(6) [OF accept]] by (intro exI [of _ M]) simp
next
  case (receive i s c bs)
  have "conns_ok (set_conn i (c\<lparr>c_in := c_in c @ bs\<rparr>) s)"
  proof (rule conns_ok_set [OF server_okD(5) [OF receive(3)]])
    fix e
    assume "c_state (c\<lparr>c_in := c_in c @ bs\<rparr>) = Stopped (Some e)"
    then have "bad_input c e \<or> (i, e) \<in> set (ds_faults s)"
      using server_okD(5) [OF receive(3)] receive(1,2) by (simp add: conns_ok_def)
    then show "bad_input (c\<lparr>c_in := c_in c @ bs\<rparr>) e \<or> (i, e) \<in> set (ds_faults s)" using bad_input_more by blast
  qed simp_all
  then show ?case using server_ok_same [OF receive(3)] cut_ok_same [OF server_okD(6) [OF receive(3)]] by (intro exI [of _ M]) simp
next
  case (stop i s c e)
  have "conns_ok (set_conn i (c\<lparr>c_state := Stopped e\<rparr>) s)"
    by (rule conns_ok_set [OF server_okD(5) [OF stop(5)]]) (use stop(4) in \<open>auto intro: bad_input_now\<close>)
  then show ?case using server_ok_same [OF stop(5)] cut_ok_same [OF server_okD(6) [OF stop(5)]] by (intro exI [of _ M]) simp
next
  case (serve_produce i s c topic part payload rest now r lm off)
  let ?key = "(topic, part)" and ?M = "M((topic, part) := M (topic, part) @ [payload])"
  let ?s = "set_conn i (reply_to r rest c) (s\<lparr>ds_logs := lm, ds_acked := ds_acked s @ [((topic, part), off, payload)]\<rparr>)"
  note k = serve_produce_keeps [OF server_okD(1) [OF serve_produce(8)] serve_produce(5) serve_produce(6) [unfolded serve_produce(7)]]
  have "explains ?M ?s"
    by (rule produce_step_explains [OF server_okD(3) [OF serve_produce(8)]])
      (use k produce_payload_length [OF serve_produce(4)] in simp_all)
  moreover have "sent_ok ?M ?s"
    by (rule sent_ok_grows [OF server_okD(4) [OF serve_produce(8)] grows_append]) simp
  moreover have "conns_ok ?s"
    by (rule conns_ok_reply [OF server_okD(5) [OF serve_produce(8)]])
      (simp_all add: serve_produce(7) produce_reply_def)
  moreover have "cut_ok ?M ?s"
    by (rule cut_ok_grows [OF server_okD(6) [OF serve_produce(8)] grows_append]) simp
  ultimately show ?case using grows_append [of M ?key "[payload]"] by (auto simp: server_ok_def)
next
  case (serve_replica i s c replica topic part off n rest now r lm)
  let ?s = "set_conn i (reply_to r rest c) (s\<lparr>ds_logs := lm, ds_sent := ds_sent s @ [((topic, part), off, n, fst r)]\<rparr>)"
  note ok = server_okD [OF serve_replica(6)]
  note k = serve_replica_keeps [OF ok(1,2) sf serve_replica(5)]
  have "explains M ?s"
    by (rule explains_grows [OF ok(3) grows_refl]) (use k(2) ok(2) in simp_all)
  moreover have "sent_ok M ?s" by (rule sent_ok_more [OF ok(4)]) (simp add: k(1))
  moreover have "conns_ok ?s" by (rule conns_ok_reply [OF ok(5)]) (simp_all add: k(1))
  moreover have "cut_ok M ?s" by (rule cut_ok_same [OF ok(6)]) simp
  ultimately show ?case by (intro exI [of _ M]) (simp add: server_ok_def)
next
  case (start_fetch i s c topic part off n rest now l lm)
  note ok = server_okD [OF start_fetch(6)]
  have st: "stores lm key (M key)" for key
    using stores_get [of "ds_logs s" key "M key" now "(topic, part)"] spec [OF ok(1), of key] start_fetch(5) by simp
  let ?s = "set_conn i (c\<lparr>c_in := rest, c_state := Waiting topic part off n 0\<rparr>) (s\<lparr>ds_logs := lm\<rparr>)"
  have "conns_ok ?s" by (rule conns_ok_set [OF ok(5)]) simp_all
  then show ?case
    by (intro exI [of _ M] conjI grows_refl server_ok_grows [OF start_fetch(6) grows_refl]) (use st ok(2) cut_ok_same [OF ok(6)] in simp_all)
next
  case (attempt_data i s c topic part off n a l r)
  let ?s = "set_conn i (reply_to r (c_in c) c) (s\<lparr>ds_sent := ds_sent s @ [((topic, part), off, n, fst r)]\<rparr>)"
  note ok = server_okD [OF attempt_data(7)]
  have "holds l (M (topic, part))"
    using spec [OF ok(1), of "(topic, part)"] attempt_data(4) by (simp add: stores_def current_log_def get_partition_def)
  then have r: "r = (message_reply (message_at (M (topic, part)) off n), None)"
    unfolding attempt_data(6) by (rule read_reply_holds [OF _ ok(2) sf])
  have "explains M ?s" by (rule explains_grows [OF ok(3) grows_refl]) (use spec [OF ok(1)] ok(2) in simp_all)
  moreover have "sent_ok M ?s" by (rule sent_ok_more [OF ok(4)]) (simp add: r)
  moreover have "conns_ok ?s" by (rule conns_ok_reply [OF ok(5)]) (simp_all add: r)
  moreover have "cut_ok M ?s" by (rule cut_ok_same [OF ok(6)]) simp
  ultimately show ?case by (intro exI [of _ M]) (simp add: server_ok_def)
next
  case (attempt_last i s c topic part off n a l)
  have "conns_ok (set_conn i (reply_to (read_reply sf (Inr None)) (c_in c) c) s)"
    by (rule conns_ok_reply [OF server_okD(5) [OF attempt_last(7)]]) (simp_all add: read_reply_def)
  then show ?case using server_ok_same [OF attempt_last(7)] cut_ok_same [OF server_okD(6) [OF attempt_last(7)]] by (intro exI [of _ M]) simp
next
  case (attempt_again i s c topic part off n a l)
  have "conns_ok (set_conn i (c\<lparr>c_state := Waiting topic part off n (a + 1)\<rparr>) s)"
    by (rule conns_ok_set [OF server_okD(5) [OF attempt_again(7)]]) simp_all
  then show ?case using server_ok_same [OF attempt_again(7)] cut_ok_same [OF server_okD(6) [OF attempt_again(7)]] by (intro exI [of _ M]) simp
next
  case (other_task now key s l lm opn)
  note ok = server_okD [OF other_task(4)]
  let ?M = "M(key := M key @ appended [opn])"
  have h: "holds l (M key)" by (rule get_holds [OF spec [OF ok(1)] other_task(1)])
  have "fits (M key @ appended [opn])"
    using other_task(3) spec [OF ok(1), of key] holds_fits [OF h] by (cases opn) (auto simp: has_room_def)
  then have "holds (exec_op opn l) (M key @ appended [opn])" by (rule exec_op_holds [OF h])
  then have st: "stores (put_partition key (exec_op opn l) lm) k (?M k)" for k by (rule put_keeps [OF ok(1) other_task(1)])
  have "conns_ok (s\<lparr>ds_logs := put_partition key (exec_op opn l) lm\<rparr>)" using ok(5) by (simp add: conns_ok_def)
  moreover have "\<forall>m \<in> set (?M k). length m < 2 ^ 32" for k using ok(2) [of k] other_task(3) by auto
  ultimately have "server_ok ?M (s\<lparr>ds_logs := put_partition key (exec_op opn l) lm\<rparr>)"
    by (intro server_ok_grows [OF other_task(4) grows_append] cut_ok_grows [OF ok(6) grows_append]) (use st in simp_all)
  then show ?case by (intro exI [of _ ?M] conjI grows_append)
next
  case (call_fails i s c e)
  note ok = server_okD [OF call_fails(4)]
  have "conns_ok (set_conn i (c\<lparr>c_state := Stopped (Some e)\<rparr>) (fault i (Some e) s))"
    by (rule conns_ok_set [OF ok(5)]) auto
  then show ?case using server_ok_same [OF call_fails(4)] cut_ok_same [OF ok(6)] by (intro exI [of _ M]) simp
next
  case (produce_cut i s c topic part payload rest now r lm off j e)
  note ok = server_okD [OF produce_cut(8)]
  let ?M = "M((topic, part) := M (topic, part) @ [payload])"
  let ?s = "set_conn i (cut_to j e r rest c) (fault i (Some e) (s\<lparr>ds_logs := lm\<rparr>))"
  note k = serve_produce_keeps(2) [OF ok(1) produce_cut(5) produce_cut(6) [unfolded produce_cut(7)]]
  have "\<forall>m \<in> set (?M key). length m < 2 ^ 32" for key using ok(2) [of key] produce_payload_length [OF produce_cut(4)] by auto
  then have "server_ok ?M ?s"
    by (intro server_ok_grows [OF produce_cut(8) grows_append] cut_ok_grows [OF ok(6) grows_append] conns_ok_cut [OF ok(5)])
      (use k in simp_all)
  then show ?case by (intro exI [of _ ?M] conjI grows_append)
next
  case (replica_cut i s c replica topic part off n rest now r lm j e)
  note ok = server_okD [OF replica_cut(6)]
  note k = serve_replica_keeps [OF ok(1,2) sf replica_cut(5)]
  let ?s = "set_conn i (cut_to j e r rest c)
    (fault i (Some e) (s\<lparr>ds_logs := lm, ds_cut := ds_cut s @ [((topic, part), off, n, take j (fst r))]\<rparr>))"
  have "server_ok M ?s"
    by (intro server_ok_grows [OF replica_cut(6) grows_refl] cut_ok_more [OF ok(6), of _ "(topic, part)" off n j] conns_ok_cut [OF ok(5)])
      (use k ok(2) in simp_all)
  then show ?case by (intro exI [of _ M]) simp
next
  case (replica_short i s c replica topic part off n rest now l lm l' res sf' r)
  note ok = server_okD [OF replica_short(10)]
  let ?key = "(topic, part)"
  let ?s = "set_conn i (reply_to r rest c) (fault i (snd r) (s\<lparr>ds_logs := put_partition ?key l' lm,
    ds_cut := ds_cut s @ [(?key, off, n, fst r)]\<rparr>))"
  have "holds l (M ?key)" using get_holds ok(1) replica_short(5) by blast
  then have h: "holds l' (M ?key)"
    using exec_op_holds [of l "M ?key" "FollowerOp replica off"] holds_fits replica_short(6) by simp
  obtain j where "fst r = take j (message_reply (message_at (M ?key) off n))"
    using read_reply_part [OF h ok(2) replica_short(8,7)] replica_short(9) by blast
  then have "cut_ok M ?s" by (intro cut_ok_more [OF ok(6), of _ ?key off n j]) simp
  moreover have "conns_ok ?s" by (rule conns_ok_reply [OF ok(5)]) auto
  ultimately have "server_ok M ?s"
    by (intro server_ok_grows [OF replica_short(10) grows_refl])
      (use put_keeps [OF ok(1) replica_short(5) h] ok(2) in simp_all)
  then show ?case by (intro exI [of _ M]) simp
next
  case (data_cut i s c topic part off n a l r j e)
  note ok = server_okD [OF data_cut(7)]
  have "holds l (M (topic, part))"
    using spec [OF ok(1), of "(topic, part)"] data_cut(4) by (simp add: stores_def current_log_def get_partition_def)
  then have r: "r = (message_reply (message_at (M (topic, part)) off n), None)"
    unfolding data_cut(6) by (rule read_reply_holds [OF _ ok(2) sf])
  let ?s = "set_conn i (cut_to j e r (c_in c) c)
    (fault i (Some e) (s\<lparr>ds_cut := ds_cut s @ [((topic, part), off, n, take j (fst r))]\<rparr>))"
  have "server_ok M ?s"
    by (intro server_ok_same [OF data_cut(7)] cut_ok_more [OF ok(6), of _ "(topic, part)" off n j] conns_ok_cut [OF ok(5)])
      (simp_all add: r)
  then show ?case by (intro exI [of _ M]) simp
next
  case (data_short i s c topic part off n a l res sf' r)
  note ok = server_okD [OF data_short(9)]
  let ?key = "(topic, part)"
  let ?s = "set_conn i (reply_to r (c_in c) c) (fault i (snd r) (s\<lparr>ds_cut := ds_cut s @ [(?key, off, n, fst r)]\<rparr>))"
  have h: "holds l (M ?key)"
    using spec [OF ok(1), of ?key] data_short(4) by (simp add: stores_def current_log_def get_partition_def)
  obtain j where "fst r = take j (message_reply (message_at (M ?key) off n))"
    using read_reply_part [OF h ok(2) data_short(7,6)] data_short(8) by blast
  then have "cut_ok M ?s" by (intro cut_ok_more [OF ok(6), of _ ?key off n j]) simp
  moreover have "conns_ok ?s" by (rule conns_ok_reply [OF ok(5)]) auto
  ultimately have "server_ok M ?s" by (intro server_ok_same [OF data_short(9)]) simp_all
  then show ?case by (intro exI [of _ M]) simp
next
  case (none_cut i s c topic part off n a l j e)
  note ok = server_okD [OF none_cut(7)]
  have "server_ok M (set_conn i (cut_to j e (read_reply sf (Inr None)) (c_in c) c) (fault i (Some e) s))"
    by (intro server_ok_same [OF none_cut(7)] cut_ok_same [OF ok(6)] conns_ok_cut [OF ok(5)]) simp_all
  then show ?case by (intro exI [of _ M]) simp
qed

lemma server_steps_ok:
  assumes "sendfile_ok sf" "(server_step sf)\<^sup>*\<^sup>* s s'" "server_ok M s"
  shows "\<exists>M'. grows M M' \<and> server_ok M' s'"
  using assms(2)
proof (induction rule: rtranclp_induct)
  case base
  then show ?case using assms(3) grows_refl by blast
next
  case (step t u)
  then obtain M1 where M1: "grows M M1" "server_ok M1 t" by blast
  then obtain M2 where M2: "grows M1 M2" "server_ok M2 u" using server_step_ok [OF assms(1) step(2)] by blast
  have "grows M M2" using M1(1) M2(1) unfolding grows_def by (metis append_assoc)
  then show ?case using M2(2) by blast
qed

section \<open>Properties\<close>

definition fresh_server :: "(partition_key \<Rightarrow> byte list list) \<Rightarrow> data_server \<Rightarrow> bool" where
  "fresh_server M s \<longleftrightarrow> ds_conns s = [] \<and> ds_acked s = [] \<and> ds_sent s = [] \<and> ds_cut s = [] \<and> ds_faults s = [] \<and>
     (\<forall>key. stores (ds_logs s) key (M key) \<and> (\<forall>m \<in> set (M key). length m < 2 ^ 32))"

lemma fresh_server_ok: "fresh_server M s \<Longrightarrow> server_ok M s"
  unfolding fresh_server_def server_ok_def explains_def sent_ok_def cut_ok_def conns_ok_def by simp

text \<open>
  C9: concurrent clients see one log.  However any number of connections interleave with each other and with
  the broker's own tasks, whatever bytes the peers send, and whichever calls on sockets fail, each partition is one
  growing sequence of messages: every acknowledged message is in it at the acknowledged offset, no offset of a
  partition is acknowledged twice, and every reply that was sent as a whole to a consumer or follower is the message at the
  requested offset, cut to the requested size, or says that there is no data.
\<close>

theorem concurrent_clients_one_log:
  assumes "sendfile_ok sf" "fresh_server M0 s0" "(server_step sf)\<^sup>*\<^sup>* s0 s"
  shows "\<exists>M. grows M0 M \<and> explains M s \<and> sent_ok M s"
  using server_steps_ok [OF assms(1,3) fresh_server_ok [OF assms(2)]] unfolding server_ok_def by blast


section \<open>A run\<close>

text \<open>A client connects and sends seven bytes that are no request.\<close>

definition demo_server :: data_server where
  "demo_server = \<lparr>ds_logs = bw_logs empty_broker, ds_conns = [], ds_acked = [], ds_sent = [], ds_cut = [], ds_faults = []\<rparr>"

lemma demo_server_fresh: "fresh_server (\<lambda>key. []) demo_server"
  by (auto simp: fresh_server_def demo_server_def empty_broker_def NewLogManager_def intro!: stores_fresh)

definition bad_conn :: conn where
  "bad_conn = new_conn\<lparr>c_in := replicate 7 0\<rparr>"

lemma demo_server_run:
  "(server_step sf)\<^sup>*\<^sup>* demo_server
     (demo_server\<lparr>ds_conns := [bad_conn\<lparr>c_state := Stopped (Some ''Invalid protocol magic bytes'')\<rparr>]\<rparr>)"
proof -
  have 1: "server_step sf demo_server (demo_server\<lparr>ds_conns := [new_conn]\<rparr>)"
    using accept [of sf demo_server] by (simp add: demo_server_def)
  have 2: "server_step sf (demo_server\<lparr>ds_conns := [new_conn]\<rparr>) (demo_server\<lparr>ds_conns := [bad_conn]\<rparr>)"
    using receive [of 0 "demo_server\<lparr>ds_conns := [new_conn]\<rparr>" new_conn sf "replicate 7 0"]
    by (simp add: set_conn_def bad_conn_def new_conn_def)
  have "read_request (c_in bad_conn) = Failed ''Invalid protocol magic bytes''"
    by (simp add: bad_conn_def read_request_def)
  then have "server_step sf (demo_server\<lparr>ds_conns := [bad_conn]\<rparr>)
      (demo_server\<lparr>ds_conns := [bad_conn\<lparr>c_state := Stopped (Some ''Invalid protocol magic bytes'')\<rparr>]\<rparr>)"
    using stop [of 0 "demo_server\<lparr>ds_conns := [bad_conn]\<rparr>" bad_conn "Some ''Invalid protocol magic bytes''" sf]
    by (simp add: set_conn_def bad_conn_def new_conn_def)
  with 1 2 show ?thesis by (meson converse_rtranclp_into_rtranclp rtranclp.rtrancl_refl)
qed

text \<open>Another one connects meanwhile and goes away: reading from its socket fails.\<close>

lemma demo_server_fault:
  "(server_step sf)\<^sup>*\<^sup>* demo_server (demo_server\<lparr>
     ds_conns := [bad_conn\<lparr>c_state := Stopped (Some ''Invalid protocol magic bytes'')\<rparr>, new_conn\<lparr>c_state := Stopped (Some ''reset'')\<rparr>],
     ds_faults := [(1, ''reset'')]\<rparr>)"
proof -
  let ?bad = "bad_conn\<lparr>c_state := Stopped (Some ''Invalid protocol magic bytes'')\<rparr>"
  let ?s1 = "demo_server\<lparr>ds_conns := [?bad]\<rparr>" and ?s2 = "demo_server\<lparr>ds_conns := [?bad, new_conn]\<rparr>"
  have 1: "server_step sf ?s1 ?s2" using accept [of sf ?s1] by simp
  have 2: "server_step sf ?s2 (set_conn 1 (new_conn\<lparr>c_state := Stopped (Some ''reset'')\<rparr>) (fault 1 (Some ''reset'') ?s2))"
    by (rule call_fails) (simp_all add: new_conn_def)
  have eq: "set_conn 1 (new_conn\<lparr>c_state := Stopped (Some ''reset'')\<rparr>) (fault 1 (Some ''reset'') ?s2) =
      demo_server\<lparr>ds_conns := [?bad, new_conn\<lparr>c_state := Stopped (Some ''reset'')\<rparr>], ds_faults := [(1, ''reset'')]\<rparr>"
    by (simp add: set_conn_def fault_def demo_server_def)
  have "(server_step sf)\<^sup>*\<^sup>* demo_server ?s1" by (rule demo_server_run)
  then have "(server_step sf)\<^sup>*\<^sup>* demo_server ?s2" using 1 by (rule rtranclp.rtrancl_into_rtrancl)
  then show ?thesis using 2 unfolding eq by (rule rtranclp.rtrancl_into_rtrancl)
qed


text \<open>A client connects and produces a message.\<close>

definition hi_conn :: conn where
  "hi_conn = new_conn\<lparr>c_in := frame_header 1 13 @ produce_body ''t'' 0 ''hi''\<rparr>"

lemma hi_request: "read_request (c_in hi_conn) = Request (ReqProduce ''t'' 0 (bytes_of ''hi'')) []"
proof -
  have "valid_utf8 ''t''" by code_simp
  then have "parse_body 1 (produce_body ''t'' 0 ''hi'') = Inr (ReqProduce ''t'' 0 (bytes_of ''hi''))"
    by (simp add: parse_body_def parse_produce_frame)
  then show ?thesis
    using read_request_frame [of "produce_body ''t'' 0 ''hi''" 13 1 _ "[]"] by (simp add: hi_conn_def produce_body_def)
qed

lemma hi_run:
  obtains s where "(server_step sf)\<^sup>*\<^sup>* demo_server s" "ds_acked s = [((''t'', 0), 0, bytes_of ''hi'')]"
proof -
  let ?s1 = "demo_server\<lparr>ds_conns := [new_conn]\<rparr>" and ?s2 = "demo_server\<lparr>ds_conns := [hi_conn]\<rparr>"
  have 1: "server_step sf demo_server ?s1" using accept [of sf demo_server] by (simp add: demo_server_def)
  have 2: "server_step sf ?s1 ?s2"
    using receive [of 0 ?s1 new_conn sf "frame_header 1 13 @ produce_body ''t'' 0 ''hi''"]
    by (simp add: set_conn_def hi_conn_def new_conn_def)
  have st: "\<forall>key. stores (ds_logs demo_server) key []" using demo_server_fresh unfolding fresh_server_def by blast
  have len: "length ms = 0" if "stores (ds_logs demo_server) (''t'', 0) ms" for ms
    using that spec [OF st, of "(''t'', 0)"] holds_length [of _ ms] holds_length [of _ "[]"] unfolding stores_def by fastforce
  have room: "has_room (ds_logs demo_server) (''t'', 0) (bytes_of ''hi'')"
  proof (unfold has_room_def, intro allI impI)
    fix ms assume "stores (ds_logs demo_server) (''t'', 0) ms"
    then have "ms = []" using len by blast
    then show "fits (ms @ [bytes_of ''hi''])" by (simp add: fits_def bytes_of_def)
  qed
  obtain off lm where run: "serve_produce 0 ''t'' 0 (bytes_of ''hi'') (ds_logs demo_server) = (produce_reply off, lm)"
    by (simp add: serve_produce_def split_beta)
  have off: "off = 0" using serve_produce_keeps(1) [OF st room run] by simp
  have 3: "server_step sf ?s2 (set_conn 0 (reply_to (produce_reply off) [] hi_conn)
      (?s2\<lparr>ds_logs := lm, ds_acked := ds_acked ?s2 @ [((''t'', 0), off, bytes_of ''hi'')]\<rparr>))"
    (is "server_step sf ?s2 ?s3")
    by (rule serve_produce [OF _ _ _ hi_request _ _ refl]) (use room run in \<open>simp_all add: hi_conn_def new_conn_def\<close>)
  have "(server_step sf)\<^sup>*\<^sup>* demo_server ?s3"
    using 1 2 3 by (meson rtranclp.rtrancl_refl rtranclp.rtrancl_into_rtrancl)
  then show ?thesis by (rule that) (simp add: off set_conn_def demo_server_def)
qed

theorem concurrent_clients_one_log_witness:
  "\<exists>s M. (server_step (\<lambda>off n. int n))\<^sup>*\<^sup>* demo_server s \<and> ds_acked s \<noteq> [] \<and> M (''t'', 0) ! 0 = bytes_of ''hi'' \<and>
     stores (ds_logs s) (''t'', 0) (M (''t'', 0))"
proof -
  obtain s where s: "(server_step (\<lambda>off n. int n))\<^sup>*\<^sup>* demo_server s" "ds_acked s = [((''t'', 0), 0, bytes_of ''hi'')]"
    by (rule hi_run)
  obtain M where "explains M s"
    using concurrent_clients_one_log [OF _ demo_server_fresh s(1)] by (auto simp: sendfile_ok_def)
  then have "M (''t'', 0) ! unat (0 :: u64) = bytes_of ''hi''" "stores (ds_logs s) (''t'', 0) (M (''t'', 0))"
    using s(2) unfolding explains_def by auto
  with s show ?thesis by auto
qed

end
