(* ===== verification/Broker_Main.thy ===== *)
theory Broker_Main
  imports Connections Broker_Control Client_Cli "HOL-Library.Sublist"
begin

text \<open>
  The broker process (\<open>rust-broker/src/main.rs\<close>): its arguments and their defaults, the storage
  directory, the core of each worker thread, the address it listens on, and the two tasks it starts on
  one log manager.  \<open>SocketAddr::from_str\<close> of the Rust library is modelled by the parser the library
  uses: every reader takes a text and returns what it read with the rest, or nothing.

  The main result relates the two tasks: a broker that serves listens on the port that its control
  loop registers with the controller, whatever the host is.
\<close>

section \<open>Readers\<close>

type_synonym 'a reader = "string \<Rightarrow> ('a \<times> string) option"

definition read_given_char :: "char \<Rightarrow> unit reader" where
  "read_given_char c s = (case s of [] \<Rightarrow> None | d # ds \<Rightarrow> if d = c then Some ((), ds) else None)"

definition digit_in :: "nat \<Rightarrow> char \<Rightarrow> nat option" where
  "digit_in radix c =
     (let n = of_char c;
          v = (if 48 \<le> n \<and> n < 58 then n - 48 else if 97 \<le> n \<and> n < 123 then n - 87
               else if 65 \<le> n \<and> n < 91 then n - 55 else radix)
      in if v < radix then Some v else None)"

definition number_value :: "nat \<Rightarrow> string \<Rightarrow> nat" where
  "number_value radix = foldl (\<lambda>acc c. acc * radix + the (digit_in radix c)) 0"

text \<open>
  \<open>read_number\<close> takes all digits that follow.  It fails on an overflow of the result type, on more digits
  than allowed and, for the octets of an IPv4 address, on a leading zero.
\<close>

definition read_number :: "nat \<Rightarrow> nat option \<Rightarrow> bool \<Rightarrow> nat \<Rightarrow> nat reader" where
  "read_number radix max_digits allow_zero_prefix limit s =
     (let ds = takeWhile (\<lambda>c. digit_in radix c \<noteq> None) s; n = number_value radix ds
      in if ds = [] \<or> (\<exists>m \<in> set_option max_digits. m < length ds) \<or> limit \<le> n \<or>
            \<not> allow_zero_prefix \<and> hd ds = CHR ''0'' \<and> 1 < length ds
         then None else Some (n, drop (length ds) s))"

definition read_separator :: "char \<Rightarrow> nat \<Rightarrow> 'a reader \<Rightarrow> 'a reader" where
  "read_separator sep i r s =
     (if i = 0 then r s else case read_given_char sep s of None \<Rightarrow> None | Some (_, s) \<Rightarrow> r s)"

fun read_octets :: "nat \<Rightarrow> nat \<Rightarrow> nat list reader" where
  "read_octets i 0 s = Some ([], s)"
| "read_octets i (Suc k) s =
     (case read_separator CHR ''.'' i (read_number 10 (Some 3) False 256) s of
        None \<Rightarrow> None
      | Some (n, s) \<Rightarrow> (case read_octets (i + 1) k s of None \<Rightarrow> None | Some (ns, s) \<Rightarrow> Some (n # ns, s)))"

definition read_ipv4_addr :: "nat list reader" where
  "read_ipv4_addr = read_octets 0 4"

text \<open>
  The groups of an IPv6 address, \<open>k\<close> of them left: how many were read, whether the last two came from an
  embedded IPv4 address, and the rest of the text.
\<close>

fun read_groups :: "nat \<Rightarrow> nat \<Rightarrow> string \<Rightarrow> nat list \<times> bool \<times> string" where
  "read_groups i 0 s = ([], False, s)"
| "read_groups i (Suc k) s =
     (case (if 0 < k then read_separator CHR '':'' i read_ipv4_addr s else None) of
        Some (os, s) \<Rightarrow> ([os ! 0 * 256 + os ! 1, os ! 2 * 256 + os ! 3], True, s)
      | None \<Rightarrow>
          (case read_separator CHR '':'' i (read_number 16 (Some 4) True 65536) s of
             None \<Rightarrow> ([], False, s)
           | Some (g, s) \<Rightarrow> (case read_groups (i + 1) k s of (gs, v4, s) \<Rightarrow> (g # gs, v4, s))))"

definition read_ipv6_addr :: "nat list reader" where
  "read_ipv6_addr s =
     (case read_groups 0 8 s of
        (hs, head_ipv4, s) \<Rightarrow>
          if length hs = 8 then Some (hs, s)
          else if head_ipv4 then None
          else case read_given_char CHR '':'' s of
                 None \<Rightarrow> None
               | Some (_, s) \<Rightarrow>
                   (case read_given_char CHR '':'' s of
                      None \<Rightarrow> None
                    | Some (_, s) \<Rightarrow>
                        (case read_groups 0 (8 - (length hs + 1)) s of
                           (ts, _, s) \<Rightarrow> Some (hs @ replicate (8 - length hs - length ts) 0 @ ts, s))))"

definition read_port :: "nat reader" where
  "read_port s = (case read_given_char CHR '':'' s of
     None \<Rightarrow> None | Some (_, s) \<Rightarrow> read_number 10 None True 65536 s)"

definition read_scope_id :: "nat reader" where
  "read_scope_id s = (case read_given_char CHR ''%'' s of
     None \<Rightarrow> None | Some (_, s) \<Rightarrow> read_number 10 None True (2 ^ 32) s)"

datatype SocketAddr = V4 "nat list" (port: nat) | V6 "nat list" nat (port: nat)

definition read_socket_addr_v4 :: "SocketAddr reader" where
  "read_socket_addr_v4 s =
     (case read_ipv4_addr s of
        None \<Rightarrow> None
      | Some (ip, s) \<Rightarrow> (case read_port s of None \<Rightarrow> None | Some (p, s) \<Rightarrow> Some (V4 ip p, s)))"

definition read_socket_addr_v6 :: "SocketAddr reader" where
  "read_socket_addr_v6 s =
     (case read_given_char CHR ''['' s of
        None \<Rightarrow> None
      | Some (_, s) \<Rightarrow>
          (case read_ipv6_addr s of
             None \<Rightarrow> None
           | Some (ip, s) \<Rightarrow>
               (let (scope_id, s) = (case read_scope_id s of None \<Rightarrow> (0, s) | Some x \<Rightarrow> x)
                in case read_given_char CHR '']'' s of
                     None \<Rightarrow> None
                   | Some (_, s) \<Rightarrow> (case read_port s of None \<Rightarrow> None | Some (p, s) \<Rightarrow> Some (V6 ip scope_id p, s)))))"

definition parse_socket_addr :: "string \<Rightarrow> error + SocketAddr" where
  "parse_socket_addr s =
     (case (case read_socket_addr_v4 s of Some x \<Rightarrow> Some x | None \<Rightarrow> read_socket_addr_v6 s) of
        Some (a, []) \<Rightarrow> Inr a
      | _ \<Rightarrow> Inl ''invalid socket address syntax'')"

section \<open>Arguments\<close>

text \<open>The options given on the command line, and the arguments with the defaults filled in.\<close>

record broker_options =
  opt_id :: "u32 option"
  opt_host :: "string option"
  opt_data_port :: "i32 option"
  opt_controller :: "string option"
  opt_storage_dir :: "string option"

record Args =
  a_id :: u32
  a_host :: string
  a_data_port :: i32
  a_controller :: string
  a_storage_dir :: "string option"

definition unwrap_or :: "'a \<Rightarrow> 'a option \<Rightarrow> 'a" where
  "unwrap_or d x = (case x of None \<Rightarrow> d | Some y \<Rightarrow> y)"

definition args_of :: "broker_options \<Rightarrow> Args" where
  "args_of opts =
     \<lparr>a_id = unwrap_or 1 (opt_id opts), a_host = unwrap_or ''127.0.0.1'' (opt_host opts),
      a_data_port = unwrap_or 9091 (opt_data_port opts),
      a_controller = unwrap_or ''http://127.0.0.1:8001'' (opt_controller opts),
      a_storage_dir = opt_storage_dir opts\<rparr>"

definition storage_dir :: "Args \<Rightarrow> string" where
  "storage_dir args = unwrap_or (''./data/broker_'' @ show_u32 (a_id args)) (a_storage_dir args)"

definition bind_text :: "Args \<Rightarrow> string" where
  "bind_text args = a_host args @ '':'' @ show_i32 (a_data_port args)"

text \<open>The core for worker thread \<open>tid\<close>; the number of cores may be unknown and is positive.\<close>

definition core_id :: "u64 option \<Rightarrow> u64 \<Rightarrow> u64" where
  "core_id parallelism tid = tid mod unwrap_or 1 parallelism"

section \<open>The process\<close>

text \<open>
  \<open>main\<close> spawns the control loop and then runs the data server in its own task.  Both share the log
  manager.  The files below a directory and \<open>TcpListener::bind\<close>, which returns an error or the address of the
  listener, are arguments.
\<close>

datatype main_task = Exited error | Serving SocketAddr data_server

record broker_process =
  bp_control :: "u32 \<times> string \<times> i32 \<times> string"
  bp_state :: broker_state
  bp_main :: main_task

definition DataServer_new :: "LogManager \<Rightarrow> data_server" where
  "DataServer_new lm = \<lparr>ds_logs = lm, ds_conns = [], ds_acked = [], ds_sent = [], ds_cut = [], ds_faults = []\<rparr>"

definition DataServer_run :: "(SocketAddr \<Rightarrow> error + SocketAddr) \<Rightarrow> SocketAddr \<Rightarrow> LogManager \<Rightarrow> main_task" where
  "DataServer_run bind addr lm =
     (case bind addr of Inl e \<Rightarrow> Exited e | Inr local_addr \<Rightarrow> Serving local_addr (DataServer_new lm))"

text \<open>
  What \<open>TcpListener::bind\<close> promises: the listener has the port asked for; for port 0 the operating system
  chooses one.
\<close>

definition binds_port :: "(SocketAddr \<Rightarrow> error + SocketAddr) \<Rightarrow> bool" where
  "binds_port bind \<longleftrightarrow> (\<forall>a b. bind a = Inr b \<longrightarrow> port b \<noteq> 0 \<and> port b < 65536 \<and> (port a \<noteq> 0 \<longrightarrow> port b = port a))"

definition broker_main ::
  "(string \<Rightarrow> partition_key \<Rightarrow> partition_dir) \<Rightarrow> (SocketAddr \<Rightarrow> error + SocketAddr) \<Rightarrow> broker_options \<Rightarrow> broker_process"
where
  "broker_main disk bind opts =
     (let args = args_of opts;
          log_manager = NewLogManager (disk (storage_dir args)) (a_id args)
      in \<lparr>bp_control = (a_id args, a_host args, a_data_port args, a_controller args),
          bp_state = \<lparr>bs_phase = Connecting, bs_logs = log_manager, bs_spawned = []\<rparr>,
          bp_main = (case parse_socket_addr (bind_text args) of
              Inl e \<Rightarrow> Exited e
            | Inr bind_addr \<Rightarrow> DataServer_run bind bind_addr log_manager)\<rparr>)"

text \<open>The request with which the control loop of a process registers.\<close>

definition registration :: "broker_process \<Rightarrow> RegisterBrokerRequest" where
  "registration p = (case bp_control p of (bid, host, data_port, _) \<Rightarrow> register_request bid host data_port)"

lemma core_id_less: "parallelism \<noteq> Some 0 \<Longrightarrow> core_id parallelism tid < unwrap_or 1 parallelism"
  by (cases parallelism) (auto simp: core_id_def unwrap_or_def word_gt_0 intro!: word_mod_less_divisor)

section \<open>The port\<close>

lemma digit_in_10: "digit_in 10 c = digit_value c"
  by (auto simp: digit_in_def digit_value_def Let_def)

lemma parse_digits_value:
  "\<forall>c \<in> set ds. digit_value c \<noteq> None \<Longrightarrow>
   parse_digits acc ds = Some (foldl (\<lambda>acc c. acc * 10 + the (digit_in 10 c)) acc ds)"
  by (induction ds arbitrary: acc) (auto simp: digit_in_10)

lemma number_value_show_nat [simp]: "number_value 10 (show_nat n) = n"
  using parse_digits_value [OF show_nat_digits] parse_digits_show_nat [of n]
  by (simp add: number_value_def)

text \<open>A successful \<open>read_port\<close> consumed a colon and the digits of a number below 65536.\<close>

lemma read_port_digits:
  assumes "read_port s = Some (p, rest)"
  obtains ds where "s = CHR '':'' # ds @ rest" "\<forall>c \<in> set ds. digit_value c \<noteq> None" "p = number_value 10 ds"
    "ds \<noteq> []" "p < 65536"
proof -
  obtain s' where s: "s = CHR '':'' # s'" "read_number 10 None True 65536 s' = Some (p, rest)"
    using assms by (auto simp: read_port_def read_given_char_def split: list.splits if_splits)
  let ?ds = "takeWhile (\<lambda>c. digit_in 10 c \<noteq> None) s'"
  have "rest = drop (length ?ds) s'" "p = number_value 10 ?ds" "?ds \<noteq> []" "p < 65536"
    using s(2) by (auto simp: read_number_def Let_def split: if_splits)
  moreover have "s' = ?ds @ drop (length ?ds) s'" by (metis append_take_drop_id takeWhile_eq_take)
  moreover have "\<forall>c \<in> set ?ds. digit_value c \<noteq> None" by (auto simp: digit_in_10 dest: set_takeWhileD)
  ultimately show ?thesis using that [of ?ds] s(1) by simp
qed

text \<open>Every reader returns a suffix of its text.\<close>

lemma read_given_char_suffix: "read_given_char c s = Some (x, rest) \<Longrightarrow> suffix rest s"
  by (auto simp: read_given_char_def suffix_ConsI split: list.splits if_splits)

lemma read_number_suffix: "read_number radix m z limit s = Some (n, rest) \<Longrightarrow> suffix rest s"
  by (auto simp: read_number_def Let_def suffix_drop split: if_splits)

lemma read_separator_suffix:
  assumes "\<And>s x rest. r s = Some (x, rest) \<Longrightarrow> suffix rest s" "read_separator c i r s = Some (x, rest)"
  shows "suffix rest s"
  using assms(2)
  by (auto simp: read_separator_def split: if_splits option.splits dest!: assms(1) read_given_char_suffix
      intro: suffix_order.trans)

lemma read_separated_number_suffix:
  "read_separator c i (read_number radix m z limit) s = Some (n, rest) \<Longrightarrow> suffix rest s"
  using read_separator_suffix read_number_suffix by metis

lemma read_octets_suffix: "read_octets i k s = Some (ns, rest) \<Longrightarrow> suffix rest s"
proof (induction k arbitrary: i s ns)
  case (Suc k)
  from Suc.prems obtain n s' ns' where
    "read_separator CHR ''.'' i (read_number 10 (Some 3) False 256) s = Some (n, s')" "read_octets (i + 1) k s' = Some (ns', rest)"
    by (auto split: option.splits)
  then show ?case using Suc.IH read_separated_number_suffix suffix_order.trans by metis
qed simp

lemma read_ipv4_addr_suffix: "read_ipv4_addr s = Some (ip, rest) \<Longrightarrow> suffix rest s"
  by (auto simp: read_ipv4_addr_def dest: read_octets_suffix)

lemma read_groups_suffix: "read_groups i k s = (gs, v4, rest) \<Longrightarrow> suffix rest s"
proof (induction k arbitrary: i s gs)
  case (Suc k)
  show ?case
  proof (cases "if 0 < k then read_separator CHR '':'' i read_ipv4_addr s else None")
    case None
    then consider "rest = s"
      | g s' gs' where "read_separator CHR '':'' i (read_number 16 (Some 4) True 65536) s = Some (g, s')"
          "read_groups (i + 1) k s' = (gs', v4, rest)"
      using Suc.prems by (auto split: option.splits prod.splits)
    then show ?thesis using Suc.IH read_separated_number_suffix suffix_order.trans suffix_order.refl by metis
  next
    case (Some x)
    with Suc.prems show ?thesis
      by (auto split: prod.splits if_splits intro: read_separator_suffix [OF read_ipv4_addr_suffix])
  qed
qed simp

lemma read_ipv6_addr_suffix: "read_ipv6_addr s = Some (ip, rest) \<Longrightarrow> suffix rest s"
  by (auto simp: read_ipv6_addr_def split: prod.splits if_splits option.splits
      dest!: read_groups_suffix read_given_char_suffix intro: suffix_order.trans)

lemma read_scope_id_suffix: "read_scope_id s = Some (n, rest) \<Longrightarrow> suffix rest s"
  by (auto simp: read_scope_id_def split: option.splits dest!: read_given_char_suffix read_number_suffix
      intro: suffix_order.trans)

text \<open>A socket address ends with its port.\<close>

lemma parse_socket_addr_port:
  assumes "parse_socket_addr s = Inr a"
  obtains s' where "suffix s' s" "read_port s' = Some (port a, [])"
proof -
  have "read_socket_addr_v4 s = Some (a, []) \<or> read_socket_addr_v6 s = Some (a, [])"
    using assms by (auto simp: parse_socket_addr_def split: option.splits prod.splits list.splits)
  then show ?thesis
  proof
    assume "read_socket_addr_v4 s = Some (a, [])"
    then show ?thesis
      by (auto simp: read_socket_addr_v4_def split: option.splits prod.splits dest!: read_ipv4_addr_suffix intro: that)
  next
    assume "read_socket_addr_v6 s = Some (a, [])"
    then have "\<exists>s'. suffix s' s \<and> read_port s' = Some (port a, [])"
      by (auto simp: read_socket_addr_v6_def Let_def split: option.splits prod.splits
          dest!: read_ipv6_addr_suffix read_given_char_suffix read_scope_id_suffix)
        (metis SocketAddr.sel(2) suffix_order.trans)+
    then show ?thesis using that by blast
  qed
qed

lemma last_part_unique:
  assumes "xs @ c # ys = xs' @ c # ys'" "c \<notin> set ys" "c \<notin> set ys'"
  shows "ys = ys'"
proof -
  have "takeWhile (\<lambda>d. d \<noteq> c) (rev ys @ c # rev xs) = rev ys" "takeWhile (\<lambda>d. d \<noteq> c) (rev ys' @ c # rev xs') = rev ys'"
    using assms(2,3) by (subst takeWhile_append2; auto)+
  moreover have "rev ys @ c # rev xs = rev ys' @ c # rev xs'" using arg_cong [OF assms(1), of rev] by simp
  ultimately show ?thesis by (metis rev_is_rev_conv)
qed

lemma digits_no_colon: "\<forall>c \<in> set ds. digit_value c \<noteq> None \<Longrightarrow> CHR '':'' \<notin> set ds"
  by (auto simp: digit_value_def)

lemma show_int_no_colon: "CHR '':'' \<notin> set (show_int i)"
  using digits_no_colon [OF show_nat_digits] by (simp add: show_int_def)

lemma parse_bind_text_port:
  assumes "parse_socket_addr (host @ '':'' @ show_i32 p) = Inr a"
  shows "sint p = int (port a) \<and> port a < 65536"
proof -
  obtain s' where s': "suffix s' (host @ '':'' @ show_i32 p)" "read_port s' = Some (port a, [])"
    using parse_socket_addr_port [OF assms] .
  obtain ds where ds: "s' = CHR '':'' # ds" "\<forall>c \<in> set ds. digit_value c \<noteq> None" "port a = number_value 10 ds" "port a < 65536"
    using read_port_digits [OF s'(2)] by auto
  obtain pre where "host @ CHR '':'' # show_i32 p = pre @ CHR '':'' # ds" using s'(1) ds(1) by (auto simp: suffix_def)
  then have eq: "show_i32 p = ds"
    by (rule last_part_unique) (use digits_no_colon [OF ds(2)] in \<open>simp_all add: show_int_no_colon show_i32_def\<close>)
  have "0 \<le> sint p" using ds(2) eq by (auto simp: show_i32_def show_int_def digit_value_def split: if_splits)
  then have "ds = show_nat (nat (sint p))" using eq by (simp add: show_i32_def show_int_def)
  then show ?thesis using ds(3,4) \<open>0 \<le> sint p\<close> by simp
qed

text \<open>
  C27: the port a broker listens on is the port it registers, unless that is 0.  When \<open>main\<close> gets as far as
  serving, for any host (an IPv4 address, a bracketed IPv6 address with or without a scope, or anything else that
  happens to parse), the listener has the port of the \<open>RegisterBroker\<close> request exactly when \<open>--data-port\<close> is not 0, so
  that clients sent to the broker reach it; with port 0 the operating system chooses the port and the broker
  registers 0.  The registered port lies between 0 and 65535 although \<open>--data-port\<close> admits every \<open>i32\<close>, and
  the data server and the control loop work on the same logs, those of the storage directory.
\<close>
theorem broker_serves_registered_port:
  fixes disk bind opts
  defines "p \<equiv> broker_main disk bind opts"
  assumes "binds_port bind" "bp_main p = Serving addr s"
  shows "(sint (rbq_DataPort (registration p)) = int (port addr) \<longleftrightarrow> rbq_DataPort (registration p) \<noteq> 0) \<and>
    0 \<le> sint (rbq_DataPort (registration p)) \<and> sint (rbq_DataPort (registration p)) < 65536 \<and>
    ds_conns s = [] \<and> ds_logs s = bs_logs (bp_state p) \<and>
    ds_logs s = NewLogManager (disk (storage_dir (args_of opts))) (rbq_BrokerId (registration p))"
proof -
  let ?args = "args_of opts"
  obtain a where a: "parse_socket_addr (bind_text ?args) = Inr a" "bind a = Inr addr"
      "s = DataServer_new (NewLogManager (disk (storage_dir ?args)) (a_id ?args))"
    using assms(3) by (auto simp: p_def broker_main_def DataServer_run_def Let_def split: sum.splits)
  have reg: "rbq_DataPort (registration p) = a_data_port ?args" "rbq_BrokerId (registration p) = a_id ?args"
      "bs_logs (bp_state p) = NewLogManager (disk (storage_dir ?args)) (a_id ?args)"
    by (simp_all add: p_def registration_def register_request_def broker_main_def Let_def)
  have port: "sint (a_data_port ?args) = int (port a)" "port a < 65536"
    using parse_bind_text_port a(1) by (simp_all add: bind_text_def)
  have "sint (a_data_port ?args) = 0 \<longleftrightarrow> a_data_port ?args = 0" by (metis signed_0 signed_eq_0_iff)
  then have "sint (a_data_port ?args) = int (port addr) \<longleftrightarrow> a_data_port ?args \<noteq> 0"
    using assms(2) a(2) port(1) unfolding binds_port_def by (metis of_nat_0_eq_iff)
  then show ?thesis unfolding reg using port a(3) by (simp add: DataServer_new_def)
qed

section \<open>Starting\<close>

text \<open>The text of an IPv4 address, from its octet number \<open>i\<close> on.\<close>

fun show_octets :: "nat \<Rightarrow> nat list \<Rightarrow> string" where
  "show_octets i [] = []"
| "show_octets i (n # ns) = (if i = 0 then [] else ''.'') @ show_nat n @ show_octets (i + 1) ns"

lemma show_nat_length: "n < 1000 \<Longrightarrow> length (show_nat n) \<le> 3"
  by (simp add: show_nat.simps [of n] show_nat.simps [of "n div 10"] show_nat.simps [of "n div 10 div 10"])

lemma hd_show_nat: "hd (show_nat n) = CHR ''0'' \<Longrightarrow> n = 0"
proof (induction n rule: show_nat.induct)
  case (1 n)
  have "n < 10 \<Longrightarrow> digit n = CHR ''0'' \<Longrightarrow> n = 0"
    using digit_value_digit [of n] by (simp add: digit_value_def)
  with 1 show ?case by (cases "n < 10") (auto simp: show_nat.simps [of n] hd_append)
qed

lemma read_show_nat:
  assumes "n < limit" "\<forall>m \<in> set_option md. n < 1000 \<and> 3 \<le> m" "rest = [] \<or> digit_value (hd rest) = None"
  shows "read_number 10 md z limit (show_nat n @ rest) = Some (n, rest)"
proof -
  have ds: "takeWhile (\<lambda>c. digit_in 10 c \<noteq> None) (show_nat n @ rest) = show_nat n"
    using show_nat_digits [of n] assms(3) by (cases rest) (auto simp: digit_in_10 takeWhile_append2)
  have "length (show_nat n) \<le> m" if "m \<in> set_option md" for m using that assms(2) show_nat_length [of n] by fastforce
  moreover have "\<not> (hd (show_nat n) = CHR ''0'' \<and> 1 < length (show_nat n))"
    using hd_show_nat [of n] by (auto simp: show_nat.simps [of 0])
  ultimately show ?thesis using assms(1) unfolding read_number_def Let_def ds by (auto simp: not_less)
qed

lemma read_show_octets:
  assumes "\<forall>n \<in> set ns. n < 256" "rest = [] \<or> digit_value (hd rest) = None"
  shows "read_octets i (length ns) (show_octets i ns @ rest) = Some (ns, rest)"
  using assms(1)
proof (induction ns arbitrary: i)
  case (Cons n ns)
  let ?tail = "show_octets (i + 1) ns @ rest"
  have "?tail = [] \<or> digit_value (hd ?tail) = None"
    using assms(2) by (cases ns) (simp_all add: digit_value_def)
  then have "read_number 10 (Some 3) False 256 (show_nat n @ ?tail) = Some (n, ?tail)"
    using Cons.prems by (intro read_show_nat) auto
  then show ?case using Cons by (cases i) (simp_all add: read_separator_def read_given_char_def)
qed simp

text \<open>
  A broker with an IPv4 address and a port that exists serves at that address, unless binding fails.
\<close>

lemma broker_main_starts:
  assumes "length os = 4" "\<forall>n \<in> set os. n < 256" "a_host (args_of opts) = show_octets 0 os"
    and "0 \<le> sint (a_data_port (args_of opts))" "sint (a_data_port (args_of opts)) < 65536"
  shows "\<exists>p. p = nat (sint (a_data_port (args_of opts))) \<and>
    bp_main (broker_main disk bind opts) = DataServer_run bind (V4 os p) (bs_logs (bp_state (broker_main disk bind opts)))"
proof -
  let ?p = "nat (sint (a_data_port (args_of opts)))"
  have "read_ipv4_addr (show_octets 0 os @ CHR '':'' # show_nat ?p) = Some (os, CHR '':'' # show_nat ?p)"
    using read_show_octets [OF assms(2), of "CHR '':'' # show_nat ?p" 0] assms(1)
    by (simp add: read_ipv4_addr_def digit_value_def)
  moreover have "read_port (CHR '':'' # show_nat ?p) = Some (?p, [])"
    using read_show_nat [of ?p 65536 None "[]" True] assms(4,5) by (simp add: read_port_def read_given_char_def)
  ultimately show ?thesis using assms(3,4)
    by (simp add: broker_main_def Let_def bind_text_def show_i32_def show_int_def parse_socket_addr_def
        read_socket_addr_v4_def)
qed

text \<open>
  The host has to be an address: the name \<open>localhost\<close> is refused, after the control loop was started.
\<close>

lemma broker_main_host_name:
  assumes "a_host (args_of opts) = ''localhost''"
  shows "bp_main (broker_main disk bind opts) = Exited ''invalid socket address syntax''"
proof -
  have "read_ipv4_addr (''localhost'' @ s) = None" for s
    by (simp add: read_ipv4_addr_def numeral_eq_Suc read_separator_def read_number_def digit_in_def)
  then show ?thesis
    by (simp add: broker_main_def Let_def assms bind_text_def parse_socket_addr_def read_socket_addr_v4_def
        read_socket_addr_v6_def read_given_char_def)
qed

definition no_options :: broker_options where
  "no_options = \<lparr>opt_id = None, opt_host = None, opt_data_port = None, opt_controller = None, opt_storage_dir = None\<rparr>"

definition empty_disk :: "string \<Rightarrow> partition_key \<Rightarrow> partition_dir" where
  "empty_disk path key = \<lparr>pd_legacy = None, pd_local = Map.empty, pd_cold = Map.empty\<rparr>"

lemma show_localhost: "show_octets 0 [127, 0, 0, 1] = ''127.0.0.1''"
  by (simp add: show_nat.simps digit_def char_of_def bit_Suc_0_iff)

definition demo_bind :: "SocketAddr \<Rightarrow> error + SocketAddr" where
  "demo_bind a = (if port a = 0 then Inr (V4 [127, 0, 0, 1] 40000)
     else if port a < 65536 then Inr a else Inl ''invalid port'')"

definition port_options :: "i32 \<Rightarrow> broker_options" where
  "port_options n = no_options\<lparr>opt_data_port := Some n\<rparr>"

lemma demo_binds_port: "binds_port demo_bind"
  by (simp add: binds_port_def demo_bind_def)

lemma port_options_serving:
  assumes "0 \<le> sint n" "sint n < 65536"
  shows "\<exists>addr s. bp_main (broker_main empty_disk demo_bind (port_options n)) = Serving addr s"
    and "rbq_DataPort (registration (broker_main empty_disk demo_bind (port_options n))) = n"
proof -
  have host: "a_host (args_of (port_options n)) = show_octets 0 [127, 0, 0, 1]"
    unfolding show_localhost by (simp add: port_options_def no_options_def args_of_def unwrap_or_def)
  have dp: "a_data_port (args_of (port_options n)) = n" by (simp add: port_options_def args_of_def unwrap_or_def)
  have "\<exists>p < 65536. bp_main (broker_main empty_disk demo_bind (port_options n)) =
      DataServer_run demo_bind (V4 [127, 0, 0, 1] p) (bs_logs (bp_state (broker_main empty_disk demo_bind (port_options n))))"
    using broker_main_starts [OF _ _ host, of empty_disk demo_bind] assms unfolding dp
    by (intro exI [of _ "nat (sint n)"]) (simp add: nat_less_iff)
  then show "\<exists>addr s. bp_main (broker_main empty_disk demo_bind (port_options n)) = Serving addr s"
    by (auto simp: DataServer_run_def demo_bind_def)
  show "rbq_DataPort (registration (broker_main empty_disk demo_bind (port_options n))) = n"
    using dp by (simp add: registration_def register_request_def broker_main_def Let_def)
qed

theorem broker_serves_registered_port_witness:
  "(\<exists>addr s. bp_main (broker_main empty_disk demo_bind (port_options 9091)) = Serving addr s \<and> int (port addr) = 9091) \<and>
   (\<exists>addr s. bp_main (broker_main empty_disk demo_bind (port_options 0)) = Serving addr s \<and>
      rbq_DataPort (registration (broker_main empty_disk demo_bind (port_options 0))) = 0 \<and> port addr \<noteq> 0)"
proof (rule conjI)
  obtain addr s where s: "bp_main (broker_main empty_disk demo_bind (port_options 9091)) = Serving addr s"
    using port_options_serving(1) [of 9091] by auto
  show "\<exists>addr s. bp_main (broker_main empty_disk demo_bind (port_options 9091)) = Serving addr s \<and> int (port addr) = 9091"
    using s broker_serves_registered_port [OF demo_binds_port s] port_options_serving(2) [of 9091] by simp
  obtain addr s where s: "bp_main (broker_main empty_disk demo_bind (port_options 0)) = Serving addr s"
    using port_options_serving(1) [of 0] by auto
  show "\<exists>addr s. bp_main (broker_main empty_disk demo_bind (port_options 0)) = Serving addr s \<and>
      rbq_DataPort (registration (broker_main empty_disk demo_bind (port_options 0))) = 0 \<and> port addr \<noteq> 0"
    using s broker_serves_registered_port [OF demo_binds_port s] port_options_serving(2) [of 0] by simp
qed

text \<open>A broker started on an empty storage directory serves empty partitions.\<close>

lemma started_server_fresh:
  assumes "bp_main (broker_main empty_disk bind opts) = Serving addr s"
  shows "fresh_server (\<lambda>key. []) s"
proof -
  have "s = DataServer_new (NewLogManager (empty_disk (storage_dir (args_of opts))) (a_id (args_of opts)))"
    using assms by (auto simp: broker_main_def DataServer_run_def Let_def split: sum.splits)
  then show ?thesis
    by (auto simp: fresh_server_def DataServer_new_def empty_disk_def NewLogManager_def intro!: stores_fresh)
qed

end
