(* ===== verification/Log_Scans.thy ===== *)
theory Log_Scans
  imports Log_Histories
begin

text \<open>
  The binary searches of \<open>read_from_offset\<close> and \<open>find_cold_segment\<close> (\<open>rust-broker/src/log/manager.rs\<close>)
  against a reference that looks at every segment and every index entry in turn.  The two agree on
  any log whose segments and index entries are in order, also on one that a crash has left with a segment
  listed twice; every history keeps them in order.
\<close>

section \<open>The reference\<close>

definition scan_bases :: "u64 \<Rightarrow> u64 list \<Rightarrow> u64 option" where
  "scan_bases start_offset bases = find (\<lambda>b. b \<le> start_offset) (rev bases)"

definition scan_segments :: "u64 \<Rightarrow> PartitionLog \<Rightarrow> (tier \<times> u64) option" where
  "scan_segments start_offset l =
     (case scan_bases start_offset (segments l) of
        Some b \<Rightarrow> Some (Local, b)
      | None \<Rightarrow> map_option (Pair Cold) (scan_bases start_offset (base_offsets (cold_dir l))))"

definition scan_index :: "u64 \<Rightarrow> byte list \<Rightarrow> nat option" where
  "scan_index start_offset idx = find (\<lambda>i. start_offset \<le> idx_offset idx i) [0..<length idx div 16]"

definition scan_segment :: "u64 \<Rightarrow> u32 \<Rightarrow> seg_file \<Rightarrow> (byte list \<times> u64 \<times> u32) option" where
  "scan_segment start_offset max_bytes f =
     (case scan_index start_offset (sf_idx f) of
        None \<Rightarrow> None
      | Some i \<Rightarrow>
          let position = idx_position (sf_idx f) i;
              end_pos = (if i + 1 < length (sf_idx f) div 16 then idx_position (sf_idx f) (i + 1)
                         else word_of_nat (length (sf_log f)));
              bytes_to_read = min (ucast (end_pos - position)) max_bytes
          in if bytes_to_read = 0 then None else Some (sf_log f, position, bytes_to_read))"

definition scan_from_offset :: "u64 \<Rightarrow> u32 \<Rightarrow> PartitionLog \<Rightarrow> error + (byte list \<times> u64 \<times> u32) option" where
  "scan_from_offset start_offset max_bytes l =
     (case scan_segments start_offset l of
        None \<Rightarrow> Inr None
      | Some tb \<Rightarrow>
          (case segment_file tb l of
             None \<Rightarrow> Inl ''No such file or directory''
           | Some f \<Rightarrow>
               if sf_index f = None then Inl ''No such file or directory''
               else Inr (scan_segment start_offset max_bytes f)))"

section \<open>Order\<close>

definition index_sorted :: "byte list \<Rightarrow> bool" where
  "index_sorted idx \<longleftrightarrow> sorted (map (idx_offset idx) [0..<length idx div 16])"

definition log_sorted :: "PartitionLog \<Rightarrow> bool" where
  "log_sorted l \<longleftrightarrow> sorted (segments l) \<and>
     (\<forall>b f. local_dir l b = Some f \<or> cold_dir l b = Some f \<longrightarrow> index_sorted (sf_idx f))"

lemma boundary_takeWhile:
  assumes "sorted xs" "\<And>x y. x \<le> y \<Longrightarrow> P y \<Longrightarrow> P x"
  shows "boundary (\<lambda>i. P (xs ! i)) (length xs) (length (takeWhile P xs))"
  unfolding boundary_def
proof (intro conjI allI impI)
  fix i
  assume i: "i < length xs"
  show "P (xs ! i) \<longleftrightarrow> i < length (takeWhile P xs)"
  proof
    assume "i < length (takeWhile P xs)"
    then show "P (xs ! i)" using nth_mem takeWhile_nth set_takeWhileD by metis
  next
    assume P: "P (xs ! i)"
    show "i < length (takeWhile P xs)"
    proof (rule ccontr)
      assume n: "\<not> i < length (takeWhile P xs)"
      then have "xs ! length (takeWhile P xs) \<le> xs ! i" using assms(1) i by (intro sorted_nth_mono) auto
      then show False using P assms(2) nth_length_takeWhile [of P xs] n i by (meson le_less_trans not_less)
    qed
  qed
qed (simp add: length_takeWhile_le)

lemma find_none_append: "\<forall>y \<in> set ys. \<not> P y \<Longrightarrow> find P (ys @ xs) = find P xs"
  by (induction ys) auto

lemma find_rev_boundary:
  assumes "boundary (\<lambda>i. P (xs ! i)) (length xs) n"
  shows "find P (rev xs) = (if n = 0 then None else Some (xs ! (n - 1)))"
proof -
  have n: "n \<le> length xs" and P: "\<And>i. i < length xs \<Longrightarrow> P (xs ! i) \<longleftrightarrow> i < n" using assms by (auto simp: boundary_def)
  have "\<not> P y" if "y \<in> set (drop n xs)" for y
    using that n P by (auto simp: in_set_conv_nth)
  then have "find P (rev (drop n xs) @ rev (take n xs)) = find P (rev (take n xs))" by (intro find_none_append) auto
  moreover have "rev (drop n xs) @ rev (take n xs) = rev xs" unfolding rev_append [symmetric] by simp
  moreover have "find P (rev (take n xs)) = (if n = 0 then None else Some (xs ! (n - 1)))"
  proof (cases n)
    case (Suc k)
    then show ?thesis using n P [of k] by (simp add: take_Suc_conv_app_nth)
  qed simp
  ultimately show ?thesis by simp
qed

lemma search_last_scan:
  assumes "sorted bases" "bases \<noteq> []"
  shows "search_last (\<lambda>mid. bases ! mid \<le> off) (\<lambda>mid. bases ! mid) 0 (length bases - 1) None = scan_bases off bases"
proof -
  have "boundary (\<lambda>i. bases ! i \<le> off) (length bases) (length (takeWhile (\<lambda>b. b \<le> off) bases))"
    by (rule boundary_takeWhile [OF assms(1)]) auto
  then obtain n where n: "boundary (\<lambda>i. bases ! i \<le> off) (length bases) n" by blast
  have "0 < length bases" using assms(2) by simp
  from search_last_all [OF n this, of "\<lambda>mid. bases ! mid"] find_rev_boundary [of "\<lambda>b. b \<le> off", OF n]
  show ?thesis by (simp only: scan_bases_def)
qed

lemma search_first_scan:
  assumes "sorted (map g [0..<n])" "0 < n"
  shows "search_first (\<lambda>mid. off \<le> g mid) 0 (n - 1) None = find (\<lambda>i. off \<le> g i) [0..<n]"
proof -
  have "boundary (\<lambda>i. \<not> off \<le> map g [0..<n] ! i) (length (map g [0..<n])) (length (takeWhile (\<lambda>x. \<not> off \<le> x) (map g [0..<n])))"
    by (rule boundary_takeWhile [OF assms(1)]) auto
  then obtain b where "boundary (\<lambda>i. \<not> off \<le> map g [0..<n] ! i) (length (map g [0..<n])) b" by blast
  then have b: "boundary (\<lambda>i. \<not> off \<le> g i) n b" by (auto simp: boundary_def)
  have "find (\<lambda>i. off \<le> g i) [0..<n] = (if b = n then None else Some b)"
  proof (cases "b = n")
    case True
    then show ?thesis using b by (auto simp: boundary_def find_None_iff)
  next
    case False
    then have "b < n" using b by (auto simp: boundary_def)
    moreover have "off \<le> g b" "\<And>j. j < b \<Longrightarrow> \<not> off \<le> g j"
      using b \<open>b < n\<close> less_trans unfolding boundary_def by blast+
    ultimately show ?thesis using False unfolding find_Some_iff if_not_P [OF False] by (intro exI [of _ b]) simp
  qed
  then show ?thesis using search_first_all [OF b assms(2)] by simp
qed

section \<open>Every history keeps the order\<close>

lemma encodes_index_sorted:
  assumes "encodes c ms f" "c + length ms < 2 ^ 64"
  shows "index_sorted (sf_idx f)"
proof -
  have "(word_of_nat (c + i) :: u64) \<le> word_of_nat (c + j)" if "i < j" "j < length ms" for i j
    using that assms(2) by (subst word_of_nat_le_u64) auto
  then show ?thesis
    using assms(1) idx_offset_entries by (simp add: index_sorted_def encodes_def sf_idx_Some sorted_iff_nth_mono_less del: of_nat_add)
qed

lemma log_ok_sorted:
  assumes ok: "log_ok bs r l"
  shows "log_sorted l"
  unfolding log_sorted_def
proof (intro conjI allI impI)
  note D = log_okD [OF ok]
  show "sorted (segments l)" using sorted_bases [OF D(1) order_refl, of r] D(5) by (simp add: strict_sorted_iff)
  fix b f
  assume f: "local_dir l b = Some f \<or> cold_dir l b = Some f"
  obtain I d where I: "holds_dir bs I d" "I \<subseteq> {..<length bs}" "d b = Some f" using f D(6,7) by fastforce
  then obtain k where "k \<in> I" "b = base bs k" unfolding holds_dir_def by blast
  with I have "\<exists>k < length bs. encodes (start bs k) (bs ! k) f" unfolding holds_dir_def by fastforce
  then show "index_sorted (sf_idx f)" using encodes_index_sorted block_bounds(1) [OF ok] by blast
qed

lemma history_sorted:
  assumes "fits (appended ops)"
  shows "log_sorted (fold exec_op ops (fresh_log now bid max_seg max_size max_age))"
  using history_blocks [OF assms] log_ok_sorted by blast

section \<open>Properties\<close>

lemma find_segment_scan:
  assumes "sorted (segments l)"
  shows "find_segment off l = scan_segments off l"
proof -
  have "find_cold_segment off l = scan_bases off (base_offsets (cold_dir l))"
    using search_last_scan [of "base_offsets (cold_dir l)" off]
    by (auto simp: find_cold_segment_def base_offsets_def scan_bases_def Let_def)
  moreover have "scan_bases off (segments l) = None" if "segments l = [] \<or> \<not> segments l ! 0 \<le> off"
    using that assms by (cases "segments l") (auto simp: scan_bases_def find_None_iff)
  ultimately show ?thesis
    using search_last_scan [OF assms] by (auto simp: find_segment_def scan_segments_def Let_def split: option.split)
qed

lemma read_segment_scan:
  assumes "index_sorted (sf_idx f)"
  shows "read_segment off n f = scan_segment off n f"
  using search_first_scan [OF assms [unfolded index_sorted_def]]
  by (auto simp: read_segment_def scan_segment_def scan_index_def Let_def split: option.split)

text \<open>
  C33: the binary searches find what a scan finds.  On any log whose segments and index entries are in order, as they are
  after every history, reading at an offset gives exactly what looking at every segment and every
  index entry in turn gives: the last local segment that starts at or before the offset, or else the last such
  one in cold storage, and in it the first entry at or after the offset.
\<close>

theorem searches_equal_scans:
  assumes "log_sorted l"
  shows "read_from_offset off n l = scan_from_offset off n l"
  using assms find_segment_scan [of l off] read_segment_scan
  by (auto simp: read_from_offset_def scan_from_offset_def log_sorted_def segment_file_def split: option.split tier.splits)

theorem searches_equal_scans_witness:
  "read_from_offset 1 65536 (fold exec_op [AppendOp 0 [1, 2, 3], AppendOp 0 [4], AppendOp 0 [5]] (fresh_log 0 1 4 None None)) =
   scan_from_offset 1 65536 (fold exec_op [AppendOp 0 [1, 2, 3], AppendOp 0 [4], AppendOp 0 [5]] (fresh_log 0 1 4 None None))"
  by (rule searches_equal_scans, rule history_sorted) (simp add: fits_def)

end
