(* ===== verification/Spec2Isabelle.thy ===== *)
theory Spec2Isabelle
  imports Controller_Service Client_Program Torn_Segments Leader_Change Broker_Main Log_Scans
begin

text \<open>
  A verification library for AeroMQ, a message queue with a control plane in Go
  (\<open>go-controller/\<close>), brokers in Rust (\<open>rust-broker/\<close>) and a command line client in Go
  (\<open>client/\<close>).

  \<^bold>\<open>The program.\<close>  The controllers replicate a cluster state with Raft: brokers and when they were last
  heard of, topics with their partitions (leader, replicas, in-sync replicas, high watermark),
  consumer groups, committed offsets.  \<open>pkg/consensus/fsm.go\<close> is the state machine,
  \<open>pkg/consensus/raft.go\<close> proposes commands to it, \<open>pkg/grpcserver/server.go\<close> holds the gRPC
  handlers and the failure detector, \<open>cmd/controller/main.go\<close> starts a node.  A broker
  registers, sends heartbeats with the offsets of its logs and acts on the answer
  (\<open>rust-broker/src/grpc/mod.rs\<close>); it keeps a segmented log for each partition
  (\<open>src/log/manager.rs\<close>) and serves produce, fetch and replica-fetch requests
  (\<open>src/net/server.rs\<close>).  Followers copy the leader's log with replica fetches; consumers see a
  message once it is below the leader's high watermark.  The client asks the controller for the
  leader of a partition and talks to that broker.

  \<^bold>\<open>Foundations.\<close>
  \<^item> \<open>Prelude\<close>: machine integers, collections of facts, Go's \<open>range\<close> over maps in any order.
  \<^item> \<open>Go_Lib\<close>, \<open>UTF8\<close>, \<open>JSON\<close>: what the sources use of the Go library; the locale \<open>json_codec\<close> says
    that decoding inverts encoding.
  \<^item> \<open>Machine\<close>: reachable states; the locales \<open>inductive_invariant\<close> and \<open>forward_simulation\<close>.
  \<^item> \<open>Wire\<close>: big-endian integers on both sides of the data plane; the locale \<open>be_codec\<close>, interpreted for
    2, 4 and 8 bytes.
  \<^item> \<open>Binary_Search\<close>: the two search loops of the log.

  \<^bold>\<open>Control plane.\<close>
  \<^item> \<open>Cluster_State\<close>, \<open>FSM_Codec\<close>: the structs of \<open>fsm.go\<close> and their JSON form, an interpretation of
    \<open>json_codec\<close> for each struct.
  \<^item> \<open>ISR\<close>, \<open>Failover\<close>, \<open>Topic_Admin\<close>, \<open>Consumer_Groups\<close>, \<open>Group_Offsets\<close>: the commands of \<open>FSM.Apply\<close>,
    one group each: in-sync set and high watermark, who leads after a failure, placement and its balance,
    exclusive and balanced assignment in groups, committed offsets and the collisions of their keys.
  \<^item> \<open>FSM\<close>, \<open>FSM_Invariants\<close>: the dispatch, \<open>GetMetadata\<close>, snapshots; \<open>Apply\<close> refines the typed commands;
    well-formedness and active leaders as invariants of the step relation (interpretations of
    \<open>inductive_invariant\<close>).
  \<^item> \<open>Raft_Node\<close>, \<open>Pb\<close>, \<open>Grpc_Server\<close>, \<open>Controller_Main\<close>: proposals, messages, every handler on every branch,
    start-up, \<open>/join\<close> and \<open>/status\<close>.
  \<^item> \<open>Snapshots\<close>: every state these commands reach can be snapshotted and restored exactly; the condition that JSON
    keeps a state is another interpretation of \<open>inductive_invariant\<close>.
  \<^item> \<open>Controller_Service\<close>: a controller that starts, with or without a snapshot on disk, then all requests, HTTP calls,
    detector ticks, entries and snapshots of other controllers in any order; an interpretation of
    \<open>forward_simulation\<close> leads from every run to a state that the cluster's commands reach.

  \<^bold>\<open>Data plane.\<close>
  \<^item> \<open>Partition_Log\<close>, \<open>Log_Manager\<close>: \<open>PartitionLog\<close> and \<open>LogManager\<close> of \<open>manager.rs\<close>, operation by operation, on
    maps from base offsets to the contents of files.
  \<^item> \<open>Log_Blocks\<close>, \<open>Log_Refinement\<close>: the files represent a sequence of messages (\<open>holds\<close>); opening,
    appending and reading implement the locale \<open>message_log\<close>, whose interpretation \<open>plog\<close> carries
    what follows.
  \<^item> \<open>Log_Histories\<close>: appends, follower reports, replica assignments and restarts in any order; what is
    read back, what the high watermark admits, how long segments get.
  \<^item> \<open>Log_Scans\<close>: the binary searches of a read agree with linear scans.
  \<^item> \<open>Crash\<close>: the process dies in the middle of an append and is started again; which messages are intact.
    \<open>Io_Errors\<close>: \<open>append\<close> and \<open>roll_over\<close> with an error at any of their file operations; the log with stale copies in cold
    storage implements \<open>message_log\<close> as well (\<open>klog\<close>).  \<open>Torn_Segments\<close>: the two cases in which an acknowledged message
    is lost later.
  \<^item> \<open>Data_Protocol\<close>, \<open>Data_Server\<close>: the request parser, the three requests, the wait for the high
    watermark and the \<open>sendfile\<close> loop.
  \<^item> \<open>Replication\<close>: \<open>replicate_partition\<close> as one call, with convergence, and as interleaved tasks given by a
    step relation, with the prefix invariant of tasks that do not overlap and the duplicate that
    overlapping ones cause.
  \<^item> \<open>Broker_Control\<close>: the turns of \<open>run_control_plane_loop\<close>, also against the controller's own handlers.
  \<^item> \<open>Connections\<close>: \<open>DataServer::run\<close> with any number of connections, a step relation whose tasks interleave
    wherever they hold no lock and whose calls on sockets may fail; every acknowledgement and every reply is explained by
    one sequence of messages for each partition, and a connection fails by the protocol or by a call of its own.
  \<^item> \<open>Broker_Main\<close>: \<open>main.rs\<close>, with the parser of socket addresses; the broker serves on the port it registers,
    unless that is 0.

  \<^bold>\<open>Across programs.\<close>
  \<^item> \<open>Client\<close>, \<open>Client_Cli\<close>: \<open>client/main.go\<close> without its test; \<open>Discovery\<close>: its leader lookup on the controller's
    metadata.
  \<^item> \<open>Client_Program\<close>: the client as a process, from its arguments to its output and exit code, with a controller and
    brokers around it, for topics with one replica; the locale \<open>world_part\<close> lifts what is shown of one broker, or of the controller, to
    the whole.
  \<^item> \<open>Broker_World\<close>: the client connected to the broker, from \<open>sendProduce\<close> to the consumer's output; \<open>Commit\<close>:
    a message is withheld until it is replicated.
  \<^item> \<open>Replica_Group\<close>: a leader, its followers and its clients as one step relation: once a heartbeat response has told
    the leader its followers, what is below the high watermark is on every replica, so a follower that the controller
    elects has it.  The runs are those in which the leader is not restarted, a follower has one replication task at a
    time and messages have 1 to 65536 bytes; \<open>Replication\<close> shows what
    happens otherwise.  \<open>Leader_Change\<close>: the new leader hides its messages until the failed broker is back.
  \<^item> \<open>Integration_Test\<close>: \<open>handleIntegrationTest\<close>, every check and exit of it, and when its roll-over steps pass.

  \<^bold>\<open>How the code is rendered.\<close>  Structs are records, enumerations datatypes, fixed-width integers words
  that wrap around.  A handler takes the state and returns it updated with a response or an error.
  Map iteration orders, clock readings, random bytes and what other tasks do while a task sleeps are
  arguments, so the theorems hold for all of them.  Retry and polling loops without an
  end have fuel: the consumer loop ends for any fuel beyond the number of messages, \<open>poll\<close> counts its
  iterations, the 10 attempts of a fetch and the 20 of the election loop are those of
  the source.  The binary searches, \<open>sendfile_loop\<close>, \<open>fetch_wait\<close> and \<open>handle_connection\<close> are total, with
  termination proofs.

  \<^bold>\<open>What is assumed of other code.\<close>  \<open>applies_log\<close> and \<open>applies_alone\<close>: a successful \<open>Apply\<close> of hashicorp/raft ran
  the entry through the FSM; \<open>replicates\<close>: the FSM changes only by entries that some controller proposed and by \<open>Restore\<close> of snapshots that some
  controller took; \<open>restores\<close>: \<open>NewRaft\<close> may restore such a snapshot and does nothing else to the FSM.
  \<open>binds_port\<close>: a listener has the port asked for, and one of the system's choice for port 0.  \<open>sendfile_ok\<close>, where no fault is considered: \<open>sendfile\<close> writes at
  least one and at most the requested number of bytes; the faults are steps of their own in \<open>Connections\<close> (\<open>sendfile_any\<close>: at most the requested number).  \<open>leader_reachable\<close>: the metadata names the leader and connecting to it succeeds.  \<open>visit_ok\<close>,
  \<open>choices_ok\<close>: an iteration visits each entry of a map once.  \<open>has_room\<close>: offsets and lengths of a log stay below
  two to the 64.  \<open>group_env\<close>: \<open>sendfile_ok\<close> and a topic name that fits the protocol.
  \<open>surroundings\<close>: the client's connections reach the controller and the brokers of the model.  Each is met by a concrete instance in
  a witness.

  \<^bold>\<open>Not modelled.\<close>
  \<^item> Mutexes of the controller: an operation is atomic.  In the broker, tasks interleave at the points
    where they release a partition's lock, in \<open>fetch_wait\<close>, \<open>task_step\<close>, \<open>group_step\<close> and \<open>server_step\<close>.
  \<^item> The concrete syntax of JSON (the trees are modelled, with exact field names), and the difference between
    a nil and an empty map or slice where the code does not test it.  A \<open>null\<close> for a pointer in a map is an error of
    the decoders here, while Go stores a nil pointer; \<open>Snapshot\<close> never writes one.
  \<^item> \<open>exec\<close>, the machine of the proposed commands, has no \<open>assign_partitions\<close>, which no part of the program proposes;
    \<open>FSM.Apply\<close> has it (\<open>assign_partitions\<close>, \<open>log_run\<close>).
  \<^item> hashicorp/raft, gRPC and the generated stubs and reflection code, which are plumbing of libraries.
  \<^item> Log output, and the lines the integration test prints.
  \<^item> Parsing of the broker's options (clap), the affinity system call and the Tokio runtime.
  \<^item> What errors of the file system leave behind while a partition is opened or retention deletes files (such a call ends a
    connection in \<open>Connections\<close> without an effect on the files), the loss of power (after a crash of the process, what was written is there, in order), and topic
    names whose paths collide.
\<close>

end
